(* ===== verification/Prelude.thy ===== *)
theory Prelude
  imports Main "HOL-Library.Char_ord" "HOL-Library.Word"
begin

text \<open>
  Shared vocabulary of the development: the characters the protocol code names, machine
  integers, the result type of C code that may fail, the parts of the C string library the
  program uses (\<open>snprintf\<close> with \<open>%d\<close> and truncation, \<open>toupper\<close>, \<open>isdigit\<close>, \<open>strchr\<close>,
  \<open>strrchr\<close>) and the generic lemmas about them. A C string is the list of its characters
  before the terminating NUL.
\<close>

section \<open>Collections and types\<close>

named_theorems res_simps \<open>equations of the error result type\<close>
named_theorems dec_simps \<open>facts about printed decimal numbers\<close>

type_synonym size_t = "64 word"
type_synonym u8 = "8 word"
type_synonym u16 = "16 word"
type_synonym u32 = "32 word"

abbreviation LF :: char where "LF \<equiv> CHR 0x0A"
abbreviation CR :: char where "CR \<equiv> CHR 0x0D"
abbreviation NUL :: char where "NUL \<equiv> CHR 0x00"
abbreviation SLASH :: char where "SLASH \<equiv> CHR ''/''"
abbreviation DQUOTE :: char where "DQUOTE \<equiv> CHR 0x22"

section \<open>Results of code that may fail\<close>

definition bind_res :: "'e + 'a \<Rightarrow> ('a \<Rightarrow> 'e + 'b) \<Rightarrow> 'e + 'b" where
  "bind_res m f = (case m of Inl e \<Rightarrow> Inl e | Inr a \<Rightarrow> f a)"

lemma bind_res_simps [simp, res_simps]:
  "bind_res (Inl e) f = Inl e"
  "bind_res (Inr a) f = f a"
  by (simp_all add: bind_res_def)

lemma bind_res_cong [fundef_cong]:
  "m = m' \<Longrightarrow> (\<And>a. m' = Inr a \<Longrightarrow> f a = g a) \<Longrightarrow> bind_res m f = bind_res m' g"
  by (cases m') (auto simp: bind_res_def)

lemma bind_res_eq_Inr [res_simps]:
  "bind_res m f = Inr b \<longleftrightarrow> (\<exists>a. m = Inr a \<and> f a = Inr b)"
  by (cases m) auto

lemma bind_res_eq_Inl [res_simps]:
  "bind_res m f = Inl e \<longleftrightarrow> m = Inl e \<or> (\<exists>a. m = Inr a \<and> f a = Inl e)"
  by (cases m) auto

section \<open>Lists\<close>

text \<open>\<open>split_at c s\<close>: the pieces of \<open>s\<close> between the occurrences of \<open>c\<close>.\<close>

fun split_at :: "'a \<Rightarrow> 'a list \<Rightarrow> 'a list list" where
  "split_at c [] = [[]]"
| "split_at c (x # xs) =
     (if x = c then [] # split_at c xs
      else (case split_at c xs of [] \<Rightarrow> [[x]] | y # ys \<Rightarrow> (x # y) # ys))"

lemma split_at_ne [simp]: "split_at c xs \<noteq> []"
  by (induction xs) (auto split: list.splits)

lemma split_at_no_sep: "c \<notin> set xs \<Longrightarrow> split_at c xs = [xs]"
  by (induction xs) auto

lemma split_at_append_sep:
  "c \<notin> set xs \<Longrightarrow> split_at c (xs @ c # ys) = xs # split_at c ys"
  by (induction xs) auto

lemma split_at_item_free: "x \<in> set (split_at c xs) \<Longrightarrow> c \<notin> set x"
  by (induction xs arbitrary: x) (auto split: list.splits if_splits)

lemma split_at_item_chars: "x \<in> set (split_at c xs) \<Longrightarrow> set x \<subseteq> set xs"
proof (induction xs arbitrary: x)
  case Nil
  then show ?case by simp
next
  case (Cons a xs)
  obtain y ys where y: "split_at c xs = y # ys"
    by (cases "split_at c xs") auto
  have "set z \<subseteq> set xs" if "z \<in> set (y # ys)" for z
    using Cons.IH [of z] that y by simp
  with Cons.prems y show ?case
    by (cases "a = c") fastforce+
qed

section \<open>Decimal numbers\<close>

definition digit_char :: "nat \<Rightarrow> char" where
  "digit_char k = char_of (48 + k)"

definition isdigit :: "char \<Rightarrow> bool" where
  "isdigit c \<longleftrightarrow> CHR ''0'' \<le> c \<and> c \<le> CHR ''9''"

definition digit_val :: "char \<Rightarrow> nat" where
  "digit_val c = of_char c - 48"

text \<open>\<open>%d\<close> and \<open>%u\<close> of a non-negative number.\<close>

fun dec :: "nat \<Rightarrow> string" where
  "dec n = (if n < 10 then [digit_char n] else dec (n div 10) @ [digit_char (n mod 10)])"

declare dec.simps [simp del]

text \<open>The digits at the head of a string, as a number (with the value read so far), and the rest.\<close>

fun scan_digits :: "nat \<Rightarrow> string \<Rightarrow> nat \<times> string" where
  "scan_digits acc [] = (acc, [])"
| "scan_digits acc (c # cs) =
     (if isdigit c then scan_digits (acc * 10 + digit_val c) cs else (acc, c # cs))"

lemma of_char_digit [dec_simps]: "k < 10 \<Longrightarrow> of_char (digit_char k) = (48 + k :: nat)"
  by (simp add: digit_char_def)

lemma digit_chars [dec_simps]:
  "digit_char 0 = CHR ''0''" "digit_char (Suc 0) = CHR ''1''" "digit_char 1 = CHR ''1''"
  "digit_char 2 = CHR ''2''" "digit_char 3 = CHR ''3''" "digit_char 4 = CHR ''4''"
  "digit_char 5 = CHR ''5''" "digit_char 6 = CHR ''6''" "digit_char 7 = CHR ''7''"
  "digit_char 8 = CHR ''8''" "digit_char 9 = CHR ''9''"
  by (simp_all add: digit_char_def char_of_def bit_Suc_0_iff)

lemma isdigit_digit_char [dec_simps, simp]: "k < 10 \<Longrightarrow> isdigit (digit_char k)"
  by (simp add: isdigit_def less_eq_char_def of_char_digit)

lemma digit_val_digit_char [dec_simps, simp]: "k < 10 \<Longrightarrow> digit_val (digit_char k) = k"
  by (simp add: digit_val_def of_char_digit)

lemma dec_not_Nil [dec_simps, simp]: "dec n \<noteq> []"
  by (subst dec.simps) simp

lemma dec_isdigit: "list_all isdigit (dec n)"
proof (induction n rule: dec.induct)
  case (1 n)
  then show ?case by (subst dec.simps) auto
qed

lemma dec_digits_only: "c \<in> set (dec n) \<Longrightarrow> isdigit c"
  using dec_isdigit [of n] by (simp add: list_all_iff)

lemma isdigit_hd_dec [simp]: "isdigit (hd (dec n))"
  using dec_digits_only [of "hd (dec n)" n] by simp

lemma scan_digits_append:
  "list_all isdigit ds \<Longrightarrow> scan_digits acc (ds @ r) = scan_digits (fst (scan_digits acc ds)) r"
  by (induction ds arbitrary: acc) auto

lemma scan_digits_dec_snoc: "fst (scan_digits 0 (dec n)) = n"
proof (induction n rule: dec.induct)
  case (1 n)
  show ?case
  proof (cases "n < 10")
    case True
    then show ?thesis by (subst dec.simps) simp
  next
    case False
    then show ?thesis
      using "1.IH" by (subst dec.simps) (simp add: scan_digits_append dec_isdigit)
  qed
qed

lemma scan_digits_stop:
  "r = [] \<or> \<not> isdigit (hd r) \<Longrightarrow> scan_digits acc r = (acc, r)"
  by (cases r) auto

lemma scan_digits_dec [dec_simps]:
  "r = [] \<or> \<not> isdigit (hd r) \<Longrightarrow> scan_digits 0 (dec n @ r) = (n, r)"
  by (simp add: scan_digits_append dec_isdigit scan_digits_dec_snoc scan_digits_stop)

lemma dec_inj [dec_simps, simp]: "dec m = dec n \<longleftrightarrow> m = n"
  by (metis scan_digits_dec_snoc)

lemma dec_length: "n < 10 ^ Suc k \<Longrightarrow> length (dec n) \<le> Suc k"
proof (induction k arbitrary: n)
  case 0
  then show ?case by (subst dec.simps) simp
next
  case (Suc k)
  then have "n div 10 < 10 ^ Suc k" by auto
  with Suc.IH [of "n div 10"] show ?case by (subst dec.simps) simp
qed

section \<open>C strings\<close>

text \<open>\<open>snprintf(s, n, \<dots>)\<close> keeps the first \<open>n - 1\<close> characters.\<close>

definition snprintf :: "nat \<Rightarrow> string \<Rightarrow> string" where
  "snprintf n s = take (n - 1) s"

text \<open>The C string in a buffer: the characters before the first NUL.\<close>

definition cstr :: "string \<Rightarrow> string" where
  "cstr s = takeWhile (\<lambda>c. c \<noteq> NUL) s"

definition toupper :: "char \<Rightarrow> char" where
  "toupper c = (if CHR ''a'' \<le> c \<and> c \<le> CHR ''z'' then char_of (of_char c - (32::nat)) else c)"

definition isspace :: "char \<Rightarrow> bool" where
  "isspace c \<longleftrightarrow> c = CHR '' '' \<or> (CHR 0x09 \<le> c \<and> c \<le> CHR 0x0D)"

text \<open>Text from the last occurrence of a character on, \<open>strrchr\<close>.\<close>

definition strrchr :: "char \<Rightarrow> string \<Rightarrow> string option" where
  "strrchr c s = (if c \<in> set s then Some (c # rev (takeWhile (\<lambda>x. x \<noteq> c) (rev s))) else None)"

text \<open>Facts about \<open>toupper\<close>.\<close>

definition isupper :: "char \<Rightarrow> bool" where
  "isupper c \<longleftrightarrow> CHR ''A'' \<le> c \<and> c \<le> CHR ''Z''"

lemma toupper_cases:
  obtains (lower) k where "97 \<le> k" and "k \<le> 122" and "of_char c = k" and "of_char (toupper c) = k - (32 :: nat)"
  | (other) "toupper c = c" and "\<not> (CHR ''a'' \<le> c \<and> c \<le> CHR ''z'')"
proof (cases "CHR ''a'' \<le> c \<and> c \<le> CHR ''z''")
  case True
  then have "97 \<le> (of_char c :: nat)" and "(of_char c :: nat) \<le> 122"
    by (simp_all add: less_eq_char_def)
  with True that(1) [of "of_char c"] show thesis by (simp add: toupper_def)
next
  case False
  then have "toupper c = c" unfolding toupper_def by (rule if_not_P)
  from that(2) [OF this False] show thesis .
qed

lemma toupper_toupper [simp]: "toupper (toupper c) = toupper c"
proof (cases c rule: toupper_cases)
  case lower
  then have "\<not> (CHR ''a'' \<le> toupper c \<and> toupper c \<le> CHR ''z'')"
    by (simp add: less_eq_char_def)
  then show ?thesis unfolding toupper_def [of "toupper c"] by (rule if_not_P)
qed simp

lemma toupper_upper: "isupper c \<Longrightarrow> toupper c = c"
proof (cases c rule: toupper_cases)
  case lower
  moreover assume "isupper c"
  ultimately show ?thesis by (simp add: isupper_def less_eq_char_def)
qed simp

lemma toupper_eq_space: "toupper c = CHR '' '' \<longleftrightarrow> c = CHR '' ''"
proof (cases c rule: toupper_cases)
  case (lower k)
  have "toupper c \<noteq> CHR '' ''"
  proof
    assume "toupper c = CHR '' ''"
    then have "of_char (toupper c) = (32 :: nat)" by simp
    with lower show False by simp
  qed
  moreover have "c \<noteq> CHR '' ''" using lower by auto
  ultimately show ?thesis by simp
qed simp

lemma isupper_not_space: "isupper (toupper c) \<Longrightarrow> c \<noteq> CHR '' ''"
  by (auto simp: isupper_def toupper_def less_eq_char_def)

lemma snprintf_id: "length s < n \<Longrightarrow> snprintf n s = s"
  by (simp add: snprintf_def)

lemma snprintf_length: "0 < n \<Longrightarrow> length (snprintf n s) < n"
  by (simp add: snprintf_def)

lemma cstr_id: "NUL \<notin> set s \<Longrightarrow> cstr s = s"
  by (auto simp: cstr_def takeWhile_eq_all_conv)

section \<open>Invariants of transition systems\<close>

text \<open>
  What a proof about all reachable states of a transition system needs: a property that the
  initial states have and that every step keeps.
\<close>

locale transition_invariant =
  fixes step :: "'s \<Rightarrow> 's \<Rightarrow> bool"
    and start :: "'s \<Rightarrow> bool"
    and inv :: "'s \<Rightarrow> bool"
  assumes start_inv: "start s \<Longrightarrow> inv s"
    and step_inv: "inv s \<Longrightarrow> step s s' \<Longrightarrow> inv s'"
begin

lemma reachable_from: "step\<^sup>*\<^sup>* s s' \<Longrightarrow> inv s \<Longrightarrow> inv s'"
  by (induction rule: rtranclp_induct) (auto intro: step_inv)

lemma reachable: "start s \<Longrightarrow> step\<^sup>*\<^sup>* s s' \<Longrightarrow> inv s'"
  using reachable_from start_inv by blast

end

end
