(* ===== verification/CScan.thy ===== *)
theory CScan
  imports Prelude
begin

text \<open>
  The conversions of \<open>sscanf\<close> that both programs use: \<open>%u\<close>, \<open>%zd\<close>, \<open>%d\<close>, on the 64-bit
  glibc they are built for (the number is read as a 64-bit one, which saturates, and is then cut
  to the width of the variable), and the signed \<open>%d\<close> and \<open>%zd\<close> of \<open>printf\<close>.
\<close>

definition skip_space :: "string \<Rightarrow> string" where
  "skip_space s = dropWhile isspace s"

text \<open>White space, a sign, digits: whether negative, the magnitude, and the rest.\<close>

definition scan_number :: "string \<Rightarrow> ((bool \<times> nat) \<times> string) option" where
  "scan_number s =
     (let s1 = skip_space s;
          neg = (s1 \<noteq> [] \<and> hd s1 = CHR ''-'');
          s2 = (if s1 \<noteq> [] \<and> (hd s1 = CHR ''-'' \<or> hd s1 = CHR ''+'') then tl s1 else s1)
      in if s2 = [] \<or> \<not> isdigit (hd s2) then None
         else (case scan_digits 0 s2 of (n, r) \<Rightarrow> Some ((neg, n), r)))"

definition u32_of_scan :: "bool \<times> nat \<Rightarrow> u32" where
  "u32_of_scan p =
     (case p of (neg, n) \<Rightarrow>
        if 2 ^ 64 \<le> n then of_nat (2 ^ 64 - 1) else if neg then - of_nat n else of_nat n)"

definition long_of_scan :: "bool \<times> nat \<Rightarrow> int" where
  "long_of_scan p =
     (case p of (neg, n) \<Rightarrow> if neg then max (- (2 ^ 63)) (- int n) else min (2 ^ 63 - 1) (int n))"

definition scan_u :: "string \<Rightarrow> (u32 \<times> string) option" where
  "scan_u s = map_option (\<lambda>(p, r). (u32_of_scan p, r)) (scan_number s)"

definition scan_zd :: "string \<Rightarrow> (size_t \<times> string) option" where
  "scan_zd s = map_option (\<lambda>(p, r). (word_of_int (long_of_scan p), r)) (scan_number s)"

text \<open>\<open>%d\<close> into an \<open>int\<close>: the low 32 bits, as a signed number.\<close>

definition scan_d :: "string \<Rightarrow> (int \<times> string) option" where
  "scan_d s = map_option (\<lambda>(p, r). (sint (word_of_int (long_of_scan p) :: 32 word), r)) (scan_number s)"

text \<open>\<open>%u,%u,\<dots>\<close>: the values assigned before the first mismatch.\<close>

fun scan_us :: "nat \<Rightarrow> string \<Rightarrow> u32 list" where
  "scan_us 0 s = []"
| "scan_us (Suc k) s =
     (case scan_u s of
        None \<Rightarrow> []
      | Some (v, r) \<Rightarrow>
          v # (if k \<noteq> 0 \<and> r \<noteq> [] \<and> hd r = CHR '','' then scan_us k (tl r) else []))"

text \<open>
  Six numbers below 256 with commas between them: \<open>sscanf\<close> and the check of the values, as
  \<open>handler_PORT\<close> of the server and \<open>data_pasv_1\<close> of the client have them.
\<close>

definition scan_address :: "string \<Rightarrow> u32 list option" where
  "scan_address s =
     (let x = scan_us 6 s in
      if length x \<noteq> 6 then None else if list_ex (\<lambda>v. 256 \<le> v) x then None else Some x)"

definition sdec :: "int \<Rightarrow> string" where
  "sdec i = (if i < 0 then CHR ''-'' # dec (nat (- i)) else dec (nat i))"

lemma isdigit_not_space: "isdigit c \<Longrightarrow> \<not> isspace c"
  by (auto simp: isdigit_def isspace_def less_eq_char_def)

lemma isdigit_not_sign: "isdigit c \<Longrightarrow> c \<noteq> CHR ''-'' \<and> c \<noteq> CHR ''+''"
  by (auto simp: isdigit_def less_eq_char_def)

lemma scan_number_dec:
  assumes "r = [] \<or> \<not> isdigit (hd r)"
  shows "scan_number (dec n @ r) = Some ((False, n), r)"
proof -
  obtain c cs where c: "dec n = c # cs" and d: "isdigit c"
    using dec_not_Nil isdigit_hd_dec by (metis list.collapse)
  then have "skip_space (dec n @ r) = dec n @ r"
    by (simp add: skip_space_def isdigit_not_space)
  with c d assms show ?thesis
    using isdigit_not_sign [OF d] scan_digits_dec [OF assms, of n]
    by (simp add: scan_number_def Let_def)
qed

lemma scan_u_dec:
  assumes "r = [] \<or> \<not> isdigit (hd r)" and "n < 2 ^ 64"
  shows "scan_u (dec n @ r) = Some (of_nat n, r)"
  using assms by (simp add: scan_u_def scan_number_dec u32_of_scan_def)

lemma scan_zd_dec:
  assumes "r = [] \<or> \<not> isdigit (hd r)" and "n < 2 ^ 63"
  shows "scan_zd (dec n @ r) = Some (of_nat n, r)"
proof -
  have "min (2 ^ 63 - 1) (int n) = int n" using assms(2) by simp
  with assms show ?thesis by (simp add: scan_zd_def scan_number_dec long_of_scan_def)
qed

lemma scan_d_dec:
  assumes "r = [] \<or> \<not> isdigit (hd r)" and "n < 2 ^ 31"
  shows "scan_d (dec n @ r) = Some (int n, r)"
proof -
  have "sint (word_of_int (int n) :: 32 word) = int n"
    using assms(2) by (simp add: signed_of_nat signed_take_bit_int_eq_self)
  moreover have "min (2 ^ 63 - 1) (int n) = int n" using assms(2) by simp
  ultimately show ?thesis
    using assms by (simp add: scan_d_def scan_number_dec long_of_scan_def)
qed

text \<open>A list of numbers printed with commas between them is read back.\<close>

fun commas :: "string list \<Rightarrow> string" where
  "commas [] = []"
| "commas [x] = x"
| "commas (x # y # ys) = x @ CHR '','' # commas (y # ys)"

lemma scan_us_commas:
  assumes "r = [] \<or> \<not> isdigit (hd r)" and "list_all (\<lambda>n. n < 2 ^ 64) ns"
  shows "scan_us (length ns) (commas (map dec ns) @ r) = map of_nat ns"
  using assms(2)
proof (induction ns)
  case Nil
  then show ?case by simp
next
  case (Cons n ns)
  show ?case
  proof (cases ns)
    case Nil
    with Cons.prems assms(1) show ?thesis by (simp add: scan_u_dec)
  next
    case (Cons m ms)
    have "\<not> isdigit (CHR '','')" by (simp add: isdigit_def less_eq_char_def)
    then have "scan_u (dec n @ CHR '','' # commas (map dec ns) @ r) =
        Some (of_nat n, CHR '','' # commas (map dec ns) @ r)"
      using Cons.prems by (intro scan_u_dec) auto
    with Cons Cons.IH Cons.prems show ?thesis by simp
  qed
qed

text \<open>An address printed as six numbers with commas is read back, whatever follows it.\<close>

lemma scan_address_commas:
  assumes "length ns = 6" and "list_all (\<lambda>n. n < 256) ns" and "r = [] \<or> \<not> isdigit (hd r)"
  shows "scan_address (commas (map dec ns) @ r) = Some (map of_nat ns)"
proof -
  have "list_all (\<lambda>n. n < 2 ^ 64) ns" using assms(2) by (simp add: list_all_iff) fastforce
  then have x: "scan_us 6 (commas (map dec ns) @ r) = map of_nat ns"
    using scan_us_commas [OF assms(3), of ns] assms(1) by simp
  have "\<not> (256 \<le> (of_nat n :: u32))" if "n < 256" for n
  proof -
    have "unat (of_nat n :: u32) = n" using that by (simp add: unat_of_nat take_bit_nat_eq_self)
    with that show ?thesis by (simp add: word_le_nat_alt)
  qed
  then have "\<not> list_ex (\<lambda>v. 256 \<le> v) (map (of_nat :: nat \<Rightarrow> u32) ns)"
    using assms(2) by (auto simp: list_ex_iff list_all_iff)
  with x assms(1) show ?thesis by (simp add: scan_address_def Let_def)
qed

end
