(* ===== verification/ServerMain.thy ===== *)
theory ServerMain
  imports CScan
begin

text \<open>
  The server program, \<^verbatim>\<open>server/main.c\<close>: its arguments, the listening socket and the accept
  loop. The body of a client's thread, \<open>serve_client\<close>, is in ServerLoop.
\<close>

section \<open>Arguments\<close>

text \<open>\<open>Inl\<close> is the exit code after the usage message, \<open>Inr\<close> the port and the root directory.\<close>

fun parse_args :: "string list \<Rightarrow> int \<Rightarrow> string \<Rightarrow> nat + int \<times> string" where
  "parse_args [] port root = Inr (port, root)"
| "parse_args (a # as) port root =
     (if a = ''-h'' \<or> a = ''-help'' then Inl 0
      else if a = ''-port'' then
        (case as of
           [] \<Rightarrow> Inl 1
         | v # as' \<Rightarrow>
             (case scan_d v of
                None \<Rightarrow> Inl 1
              | Some (p, _) \<Rightarrow> if p < 0 \<or> 65535 \<le> p then Inl 1 else parse_args as' p root))
      else if a = ''-root'' then
        (case as of [] \<Rightarrow> Inl 1 | v # as' \<Rightarrow> parse_args as' port v)
      else parse_args as port root)"

definition parse_argv :: "string list \<Rightarrow> nat + int \<times> string" where
  "parse_argv argv = parse_args (tl argv) 21 ''/tmp''"

section \<open>The listening socket and the accept loop\<close>

text \<open>The system calls of \<open>main\<close>; the port is given to \<open>bind\<close> as the 16 bits \<open>htons\<close> gets.\<close>

record 'w srv =
  srv_chdir :: "string \<Rightarrow> 'w \<Rightarrow> bool \<times> 'w"
  srv_socket :: "'w \<Rightarrow> nat option \<times> 'w"
  srv_reuseaddr :: "nat \<Rightarrow> 'w \<Rightarrow> bool \<times> 'w"
  srv_bind :: "nat \<Rightarrow> u16 \<Rightarrow> 'w \<Rightarrow> bool \<times> 'w"
  srv_listen :: "nat \<Rightarrow> nat \<Rightarrow> 'w \<Rightarrow> bool \<times> 'w"
  srv_accept :: "nat \<Rightarrow> 'w \<Rightarrow> nat option \<times> 'w"
  srv_spawn :: "nat \<Rightarrow> 'w \<Rightarrow> bool \<times> 'w"
  srv_close :: "nat \<Rightarrow> 'w \<Rightarrow> 'w"

text \<open>How the program ends: by \<open>exit\<close> after the usage message, or by \<open>panic\<close>.\<close>

datatype program_end = EXIT nat | PANICKED string

text \<open>A call that panics when it fails.\<close>

definition or_panic ::
  "string \<Rightarrow> bool \<times> 'w \<Rightarrow> ('w \<Rightarrow> (program_end + 'a) \<times> 'w) \<Rightarrow> (program_end + 'a) \<times> 'w" where
  "or_panic msg call k = (case call of (True, w) \<Rightarrow> k w | (False, w) \<Rightarrow> (Inl (PANICKED msg), w))"

definition start_listening ::
  "'w srv \<Rightarrow> int \<Rightarrow> string \<Rightarrow> 'w \<Rightarrow> (program_end + nat) \<times> 'w" where
  "start_listening os p root w =
     or_panic ''chdir() failed'' (srv_chdir os root w) (\<lambda>w1.
       case srv_socket os w1 of
         (None, w2) \<Rightarrow> (Inl (PANICKED ''socket() failed''), w2)
       | (Some fd, w2) \<Rightarrow>
           or_panic ''setsockopt() failed'' (srv_reuseaddr os fd w2) (\<lambda>w3.
             or_panic ''bind() failed'' (srv_bind os fd (word_of_int p) w3) (\<lambda>w4.
               or_panic ''listen() failed'' (srv_listen os fd 1024 w4) (\<lambda>w5. (Inr fd, w5)))))"

text \<open>
  \<open>n\<close> rounds of the loop: the connections given to a thread, those turned away because no
  thread could be started, whether the program is still running, and the world.
\<close>

fun accept_rounds ::
  "'w srv \<Rightarrow> nat \<Rightarrow> nat \<Rightarrow> 'w \<Rightarrow> nat list \<times> nat list \<times> program_end option \<times> 'w" where
  "accept_rounds os fd 0 w = ([], [], None, w)"
| "accept_rounds os fd (Suc n) w =
     (case srv_accept os fd w of
        (None, w1) \<Rightarrow> ([], [], Some (PANICKED ''accept() failed''), w1)
      | (Some conn, w1) \<Rightarrow>
          (case srv_spawn os conn w1 of
             (False, w2) \<Rightarrow>
               (case accept_rounds os fd n (srv_close os conn w2) of
                  (s, r, e, w3) \<Rightarrow> (s, conn # r, e, w3))
           | (True, w2) \<Rightarrow>
               (case accept_rounds os fd n w2 of (s, r, e, w3) \<Rightarrow> (conn # s, r, e, w3))))"

definition server_main ::
  "'w srv \<Rightarrow> nat \<Rightarrow> string list \<Rightarrow> 'w \<Rightarrow> nat list \<times> nat list \<times> program_end option \<times> 'w" where
  "server_main os n argv w =
     (case parse_argv argv of
        Inl code \<Rightarrow> ([], [], Some (EXIT code), w)
      | Inr (p, root) \<Rightarrow>
          (case start_listening os p root w of
             (Inl e, w1) \<Rightarrow> ([], [], Some e, w1)
           | (Inr fd, w1) \<Rightarrow> accept_rounds os fd n w1))"

section \<open>What the arguments mean\<close>

declare parse_args.simps(2) [simp del]

lemma parse_args_range:
  "parse_args as port root = Inr (p, r) \<Longrightarrow> 0 \<le> port \<and> port < 65535 \<Longrightarrow> 0 \<le> p \<and> p < 65535"
proof (induction "as" port root rule: parse_args.induct)
  case (2 a "as" port root)
  note run = "2.prems"(1) [unfolded parse_args.simps(2)]
  consider (usage) "a = ''-h'' \<or> a = ''-help''" | (portarg) "\<not> (a = ''-h'' \<or> a = ''-help'')" "a = ''-port''"
    | (rootarg) "\<not> (a = ''-h'' \<or> a = ''-help'')" "a \<noteq> ''-port''" "a = ''-root''"
    | (other) "\<not> (a = ''-h'' \<or> a = ''-help'')" "a \<noteq> ''-port''" "a \<noteq> ''-root''" by blast
  then show ?case
  proof cases
    case usage
    with run show ?thesis by (simp only: if_True simp_thms sum.distinct)
  next
    case portarg
    with run obtain v as' q u where v: "as = v # as'" "scan_d v = Some (q, u)" "\<not> (q < 0 \<or> 65535 \<le> q)"
      "parse_args as' q root = Inr (p, r)"
      by (simp only: if_True if_False) (auto split: list.splits option.splits if_splits)
    have "0 \<le> q \<and> q < 65535" using v(3) by simp
    from "2.IH"(1) [OF portarg v(1) v(2) refl v(3) v(4) this] show ?thesis .
  next
    case rootarg
    with run obtain v as' where v: "as = v # as'" "parse_args as' port v = Inr (p, r)"
      by (simp only: if_True if_False) (auto split: list.splits)
    from "2.IH"(2) [OF rootarg v "2.prems"(2)] show ?thesis .
  next
    case other
    with run have "parse_args as port root = Inr (p, r)" by (simp only: if_False)
    from "2.IH"(3) [OF other this "2.prems"(2)] show ?thesis .
  qed
qed simp

text \<open>
  Whatever the arguments, the port the server binds to is the one it was asked for: it
  has been checked to lie below 65535 (so that the last port cannot be used), and passing it
  through the 16 bits of the address loses nothing.
\<close>

theorem server_port_exact:
  assumes "parse_argv argv = Inr (p, root)"
  shows "0 \<le> p \<and> p < 65535 \<and> uint (word_of_int p :: u16) = p"
proof -
  have "0 \<le> p \<and> p < 65535"
    using parse_args_range [of "tl argv" 21 "''/tmp''" p root] assms by (simp add: parse_argv_def)
  then show ?thesis by (simp add: uint_word_of_int take_bit_eq_mod)
qed

lemma parse_port_root:
  assumes "n < 65535"
  shows "parse_argv [prog, ''-port'', dec n, ''-root'', dir] = Inr (int n, dir)"
  using assms scan_d_dec [of "[]" n] by (simp add: parse_argv_def parse_args.simps(2))

theorem server_port_exact_witness:
  "(0 :: int) \<le> int 2121 \<and> int 2121 < 65535 \<and> uint (word_of_int (int 2121) :: u16) = int 2121"
  by (rule server_port_exact [OF parse_port_root [of 2121 "''zzftp''" "''/srv''"]]) simp

text \<open>
  Every accepted connection is given to a thread or turned away, and the loop ends only when
  \<open>accept\<close> fails.
\<close>

lemma accept_rounds_all:
  assumes "accept_rounds os fd n w = (served, refused, e, w')"
  shows "length served + length refused \<le> n \<and>
    (e = None \<longrightarrow> length served + length refused = n) \<and>
    (\<forall>x. e = Some x \<longrightarrow> x = PANICKED ''accept() failed'')"
  using assms
proof (induction n arbitrary: w served refused e w')
  case (Suc n)
  obtain a w1 where a: "srv_accept os fd w = (a, w1)" by (cases "srv_accept os fd w")
  show ?case
  proof (cases a)
    case None
    with Suc.prems a show ?thesis by auto
  next
    case (Some conn)
    obtain ok w2 where ok: "srv_spawn os conn w1 = (ok, w2)" by (cases "srv_spawn os conn w1")
    let ?w = "if ok then w2 else srv_close os conn w2"
    obtain s r e' w3 where rec: "accept_rounds os fd n ?w = (s, r, e', w3)"
      by (cases "accept_rounds os fd n ?w")
    note IH = Suc.IH [OF rec]
    have "(served, refused, e, w') = (if ok then (conn # s, r, e', w3) else (s, conn # r, e', w3))"
      using Suc.prems a Some ok rec by (cases ok) simp_all
    with IH show ?thesis by (cases ok) simp_all
  qed
qed simp

end
