(* ===== verification/IoUtils.thy ===== *)
theory IoUtils
  imports Prelude
begin

text \<open>
  The I/O helpers both programs share, \<^verbatim>\<open>server/io_utils.c\<close>: \<open>read_all\<close> and \<open>write_all\<close>,
  the read-line buffer \<open>rlb\<close>, and \<open>send_mark\<close>. What the operating system answers to
  \<open>read()\<close> and \<open>write()\<close> is an input of the model; \<open>None\<close> as a result stands for a call
  that has not returned (it waits for input, or retries for ever).
\<close>

section \<open>read_all and write_all\<close>

text \<open>The outcome of one \<open>read()\<close>: bytes (none at the end of the stream), \<open>EAGAIN\<close>, or another error.\<close>

datatype rd = Data string | Again | Fail

datatype wr = Wrote nat | WAgain | WFail

partial_function (option) read_all ::
  "('w \<Rightarrow> nat \<Rightarrow> rd \<times> 'w) \<Rightarrow> nat \<Rightarrow> string \<Rightarrow> 'w \<Rightarrow> (string \<times> 'w) option" where
  "read_all rdf len got w =
     (if length got < len then
        (case rdf w (len - length got) of
           (Data bs, w') \<Rightarrow> if bs = [] then Some (got, w') else read_all rdf len (got @ bs) w'
         | (Again, w') \<Rightarrow> read_all rdf len got w'
         | (Fail, w') \<Rightarrow> Some (got, w'))
      else Some (got, w))"

text \<open>The result is the number of bytes that remain, 0 if no error occurred.\<close>

partial_function (option) write_all ::
  "('w \<Rightarrow> string \<Rightarrow> wr \<times> 'w) \<Rightarrow> string \<Rightarrow> 'w \<Rightarrow> (nat \<times> 'w) option" where
  "write_all wrf buf w =
     (if buf \<noteq> [] then
        (case wrf w buf of
           (Wrote n, w') \<Rightarrow> write_all wrf (drop n buf) w'
         | (WAgain, w') \<Rightarrow> write_all wrf buf w'
         | (WFail, w') \<Rightarrow> Some (length buf, w'))
      else Some (0, w))"

section \<open>The read-line buffer\<close>

text \<open>
  \<open>pend\<close> is the text between \<open>head\<close> and \<open>tail\<close>; \<open>inp\<close> is what the coming \<open>read()\<close> calls
  on the descriptor will return. Both an error and the end of the stream set \<open>no_more\<close> and
  count as a line feed.
\<close>

record rlb =
  pend :: string
  no_more :: bool
  inp :: "rd list"

definition rlb_init :: "rd list \<Rightarrow> rlb" where
  "rlb_init rs = \<lparr>pend = [], no_more = False, inp = rs\<rparr>"

fun rd_size :: "rd \<Rightarrow> nat" where
  "rd_size (Data bs) = Suc (length bs)"
| "rd_size _ = 1"

definition rlb_size :: "rlb \<Rightarrow> nat" where
  "rlb_size b = length (pend b) + sum_list (map rd_size (inp b))"

function rlb_get_char :: "rlb \<Rightarrow> (char \<times> rlb) option" where
  "rlb_get_char b =
     (case pend b of
        c # cs \<Rightarrow>
          if c = CR then rlb_get_char (b\<lparr>pend := cs\<rparr>) else Some (c, b\<lparr>pend := cs\<rparr>)
      | [] \<Rightarrow>
          (case inp b of
             [] \<Rightarrow> None
           | Again # rs \<Rightarrow> Some (LF, b\<lparr>inp := rs, no_more := True\<rparr>)
           | Fail # rs \<Rightarrow> Some (LF, b\<lparr>inp := rs, no_more := True\<rparr>)
           | Data [] # rs \<Rightarrow> Some (LF, b\<lparr>inp := rs, no_more := True\<rparr>)
           | Data (c # cs) # rs \<Rightarrow>
               if c = CR then rlb_get_char (b\<lparr>pend := cs, inp := rs\<rparr>)
               else Some (c, b\<lparr>pend := cs, inp := rs\<rparr>)))"
  by pat_completeness auto
termination
  by (relation "measure rlb_size") (auto simp: rlb_size_def)

declare rlb_get_char.simps [simp del]

text \<open>
  The abstract content of the buffer: the characters still to come without carriage returns,
  each with a flag that tells a line feed made up for the end of the stream.
\<close>

definition chars_of :: "string \<Rightarrow> (char \<times> bool) list" where
  "chars_of s = map (\<lambda>c. (c, False)) (filter (\<lambda>c. c \<noteq> CR) s)"

fun rd_events :: "rd list \<Rightarrow> (char \<times> bool) list" where
  "rd_events [] = []"
| "rd_events (Data bs # rs) = (if bs = [] then [(LF, True)] else chars_of bs) @ rd_events rs"
| "rd_events (_ # rs) = (LF, True) # rd_events rs"

definition events :: "rlb \<Rightarrow> (char \<times> bool) list" where
  "events b = chars_of (pend b) @ rd_events (inp b)"

lemma chars_of_simps [simp]:
  "chars_of [] = []"
  "chars_of (c # cs) = (if c = CR then chars_of cs else (c, False) # chars_of cs)"
  "chars_of (s @ t) = chars_of s @ chars_of t"
  by (simp_all add: chars_of_def)

lemma rlb_get_char_pend:
  "rlb_get_char \<lparr>pend = c # cs, no_more = m, inp = rs\<rparr> =
     (if c = CR then rlb_get_char \<lparr>pend = cs, no_more = m, inp = rs\<rparr>
      else Some (c, \<lparr>pend = cs, no_more = m, inp = rs\<rparr>))"
  by (subst rlb_get_char.simps) simp

lemma rlb_get_char_refill [simp]:
  "rlb_get_char \<lparr>pend = [], no_more = m, inp = []\<rparr> = None"
  "rlb_get_char \<lparr>pend = [], no_more = m, inp = Again # rs\<rparr> =
     Some (LF, \<lparr>pend = [], no_more = True, inp = rs\<rparr>)"
  "rlb_get_char \<lparr>pend = [], no_more = m, inp = Fail # rs\<rparr> =
     Some (LF, \<lparr>pend = [], no_more = True, inp = rs\<rparr>)"
  "rlb_get_char \<lparr>pend = [], no_more = m, inp = Data [] # rs\<rparr> =
     Some (LF, \<lparr>pend = [], no_more = True, inp = rs\<rparr>)"
  "rlb_get_char \<lparr>pend = [], no_more = m, inp = Data (c # cs) # rs\<rparr> =
     rlb_get_char \<lparr>pend = c # cs, no_more = m, inp = rs\<rparr>"
  by (subst rlb_get_char.simps, simp)+

text \<open>\<open>rlb_get_char\<close> pops the abstract content, and blocks exactly when nothing is left.\<close>

definition pops :: "rlb \<Rightarrow> bool" where
  "pops b \<longleftrightarrow>
     (case events b of
        [] \<Rightarrow> rlb_get_char b = None
      | (c, e) # es \<Rightarrow> \<exists>b'. rlb_get_char b = Some (c, b') \<and> events b' = es \<and>
          no_more b' = (no_more b \<or> e))"

lemma pops_same:
  "pops b' \<Longrightarrow> events b = events b' \<Longrightarrow> rlb_get_char b = rlb_get_char b' \<Longrightarrow>
     no_more b = no_more b' \<Longrightarrow> pops b"
  by (auto simp: pops_def split: list.splits)

lemma pops_pend:
  assumes "pops \<lparr>pend = [], no_more = m, inp = rs\<rparr>"
  shows "pops \<lparr>pend = p, no_more = m, inp = rs\<rparr>"
proof (induction p)
  case Nil
  show ?case by (rule assms)
next
  case (Cons c p)
  show ?case
  proof (cases "c = CR")
    case True
    with Cons show ?thesis
      by (elim pops_same) (simp_all add: events_def rlb_get_char_pend)
  next
    case False
    then show ?thesis by (simp add: pops_def events_def rlb_get_char_pend)
  qed
qed

lemma pops_empty: "pops \<lparr>pend = [], no_more = m, inp = rs\<rparr>"
proof (induction rs)
  case Nil
  show ?case by (simp add: pops_def events_def)
next
  case (Cons r rs)
  show ?case
  proof (cases r)
    case (Data bs)
    show ?thesis
    proof (cases bs)
      case Nil
      with Data show ?thesis by (simp add: pops_def events_def)
    next
      case (Cons c cs)
      with Data pops_pend [OF Cons.IH, of bs] show ?thesis
        by (elim pops_same) (simp_all add: events_def)
    qed
  qed (simp_all add: pops_def events_def)
qed

lemma rlb_pops: "pops b"
  by (cases b) (simp add: pops_pend pops_empty)

lemma rlb_get_char_None: "rlb_get_char b = None \<longleftrightarrow> events b = []"
  using rlb_pops [of b] by (auto simp: pops_def split: list.splits)

lemma rlb_get_char_Some:
  assumes "events b = (c, e) # es"
  obtains b' where "rlb_get_char b = Some (c, b')" and "events b' = es"
    and "no_more b' = (no_more b \<or> e)"
  using rlb_pops [of b] assms by (auto simp: pops_def)

lemma rlb_get_charD:
  assumes "rlb_get_char b = Some (c, b')"
  shows "\<exists>e. events b = (c, e) # events b' \<and> no_more b' = (no_more b \<or> e)"
proof (cases "events b")
  case Nil
  with assms show ?thesis by (simp add: rlb_get_char_None [THEN iffD2])
next
  case (Cons p es)
  obtain c' e where "p = (c', e)" by (cases p)
  with Cons rlb_get_char_Some [of b c' e es] assms show ?thesis by auto
qed

section \<open>rlb_read_line\<close>

text \<open>\<open>for (i = 0; i < size; i++)\<close>: the characters stored, up to and with the line feed.\<close>

fun rlb_fill :: "nat \<Rightarrow> rlb \<Rightarrow> (string \<times> rlb) option" where
  "rlb_fill 0 b = Some ([], b)"
| "rlb_fill (Suc k) b =
     (case rlb_get_char b of
        None \<Rightarrow> None
      | Some (c, b') \<Rightarrow>
          if c = LF then Some ([c], b')
          else (case rlb_fill k b' of None \<Rightarrow> None | Some (cs, b'') \<Rightarrow> Some (c # cs, b'')))"

text \<open>\<open>while ((ch = rlb_get_char(b)) != '\n') { }\<close>\<close>

function rlb_skip_line :: "rlb \<Rightarrow> rlb option" where
  "rlb_skip_line b =
     (case rlb_get_char b of
        None \<Rightarrow> None
      | Some (c, b') \<Rightarrow> if c = LF then Some b' else rlb_skip_line b')"
  by pat_completeness auto
termination
  by (relation "measure (\<lambda>b. length (events b))") (auto dest!: rlb_get_charD)

declare rlb_skip_line.simps [simp del]

text \<open>The returned length, the C string left in the caller's buffer, and the buffer afterwards.\<close>

definition rlb_read_line :: "nat \<Rightarrow> rlb \<Rightarrow> (size_t \<times> string \<times> rlb) option" where
  "rlb_read_line sz b =
     (if sz = 0 then Some (0, [], b)
      else if sz = 1 then Some (0, [], b)
      else
        (case rlb_fill sz b of
           None \<Rightarrow> None
         | Some (buf, b1) \<Rightarrow>
             (let i = (if last buf = LF then length buf - 1 else length buf)
              in if i = sz then
                   (case rlb_skip_line b1 of
                      None \<Rightarrow> None
                    | Some b2 \<Rightarrow> Some (of_nat sz, take (i - 1) buf, b2))
                 else if i = 0 \<and> no_more b1 then Some (-1, [], b1)
                 else Some (of_nat i, take i buf, b1))))"

section \<open>What rlb_read_line returns\<close>

text \<open>
  The specification works on the abstract content: a line is what comes before the next line
  feed, and a line of \<open>size\<close> characters or more is cut to \<open>size - 1\<close> and reported by the
  length \<open>size\<close>. An empty line at the end of the stream is \<open>-1\<close>.
\<close>

definition read_line_spec ::
  "nat \<Rightarrow> bool \<Rightarrow> (char \<times> bool) list \<Rightarrow> (size_t \<times> string \<times> (char \<times> bool) list \<times> bool) option" where
  "read_line_spec sz m es =
     (let s = map fst (takeWhile (\<lambda>p. fst p \<noteq> LF) es) in
      case dropWhile (\<lambda>p. fst p \<noteq> LF) es of
        [] \<Rightarrow> None
      | (_, e) # rest \<Rightarrow>
          if sz \<le> length s then Some (of_nat sz, take (sz - 1) s, rest, m \<or> e)
          else if s = [] \<and> (m \<or> e) then Some (-1, [], rest, m \<or> e)
          else Some (of_nat (length s), s, rest, m \<or> e))"

text \<open>A made-up character is always a line feed.\<close>

definition eof_ok :: "(char \<times> bool) list \<Rightarrow> bool" where
  "eof_ok es \<longleftrightarrow> (\<forall>p \<in> set es. snd p \<longrightarrow> fst p = LF)"

lemma eof_ok_chars_of [simp]: "eof_ok (chars_of s)"
  by (simp add: eof_ok_def chars_of_def)

lemma eof_ok_append [simp]: "eof_ok (xs @ ys) \<longleftrightarrow> eof_ok xs \<and> eof_ok ys"
  by (auto simp: eof_ok_def)

lemma eof_ok_Cons [simp]: "eof_ok (p # xs) \<longleftrightarrow> (snd p \<longrightarrow> fst p = LF) \<and> eof_ok xs"
  by (simp add: eof_ok_def)

lemma eof_ok_Nil [simp]: "eof_ok []"
  by (simp add: eof_ok_def)

lemma eof_ok_rd_events [simp]: "eof_ok (rd_events rs)"
  by (induction rs rule: rd_events.induct) auto

lemma eof_ok_events [simp]: "eof_ok (events b)"
  by (simp add: events_def)

text \<open>Both loops, on the abstract content.\<close>

fun fill_events :: "nat \<Rightarrow> (char \<times> bool) list \<Rightarrow> (string \<times> (char \<times> bool) list \<times> bool) option" where
  "fill_events 0 es = Some ([], es, False)"
| "fill_events (Suc k) [] = None"
| "fill_events (Suc k) ((c, e) # es) =
     (if c = LF then Some ([c], es, e)
      else map_option (\<lambda>(cs, r, f). (c # cs, r, e \<or> f)) (fill_events k es))"

fun skip_events :: "(char \<times> bool) list \<Rightarrow> ((char \<times> bool) list \<times> bool) option" where
  "skip_events [] = None"
| "skip_events ((c, e) # es) =
     (if c = LF then Some (es, e) else map_option (\<lambda>(r, f). (r, e \<or> f)) (skip_events es))"

lemma rlb_fill_events:
  "map_option (\<lambda>(s, b'). (s, events b', no_more b')) (rlb_fill k b) =
     map_option (\<lambda>(s, es, f). (s, es, no_more b \<or> f)) (fill_events k (events b))"
proof (induction k arbitrary: b)
  case 0
  show ?case by simp
next
  case (Suc k)
  show ?case
  proof (cases "events b")
    case Nil
    then show ?thesis by (simp add: rlb_get_char_None [THEN iffD2])
  next
    case (Cons p es)
    obtain c e where p: "p = (c, e)" by (cases p)
    with Cons obtain b' where b': "rlb_get_char b = Some (c, b')" "events b' = es"
      "no_more b' = (no_more b \<or> e)"
      using rlb_get_char_Some by metis
    show ?thesis
    proof (cases "c = LF")
      case True
      with Cons p b' show ?thesis by simp
    next
      case False
      have "map_option (\<lambda>(s, b''). (c # s, events b'', no_more b'')) (rlb_fill k b') =
          map_option (\<lambda>(s, x, m). (c # s, x, m))
            (map_option (\<lambda>(s, b'). (s, events b', no_more b')) (rlb_fill k b'))"
        by (cases "rlb_fill k b'") auto
      also have "\<dots> = map_option (\<lambda>(s, x, m). (c # s, x, m))
            (map_option (\<lambda>(s, es, f). (s, es, no_more b' \<or> f)) (fill_events k (events b')))"
        by (simp only: Suc.IH)
      finally show ?thesis
        using False Cons p b'
        by (auto simp: option.map_comp comp_def case_prod_beta disj_assoc split: option.splits)
    qed
  qed
qed

lemma rlb_skip_events:
  "map_option (\<lambda>b'. (events b', no_more b')) (rlb_skip_line b) =
     map_option (\<lambda>(es, f). (es, no_more b \<or> f)) (skip_events (events b))"
proof (induction b rule: rlb_skip_line.induct)
  case (1 b)
  show ?case
  proof (cases "events b")
    case Nil
    then show ?thesis
      by (subst rlb_skip_line.simps) (simp add: rlb_get_char_None [THEN iffD2])
  next
    case (Cons p es)
    obtain c e where p: "p = (c, e)" by (cases p)
    with Cons obtain b' where b': "rlb_get_char b = Some (c, b')" "events b' = es"
      "no_more b' = (no_more b \<or> e)"
      using rlb_get_char_Some by metis
    with 1 [OF b'(1) refl] Cons p show ?thesis
      by (subst rlb_skip_line.simps)
         (auto simp: option.map_comp comp_def case_prod_beta disj_assoc)
  qed
qed

lemma fill_events_long:
  "eof_ok es \<Longrightarrow> k \<le> length (takeWhile (\<lambda>p. fst p \<noteq> LF) es) \<Longrightarrow>
     fill_events k es = Some (map fst (take k es), drop k es, False)"
proof (induction k es rule: fill_events.induct)
  case (3 k c e es)
  then show ?case by (cases "c = LF") auto
qed auto

lemma fill_events_short:
  "eof_ok es \<Longrightarrow> length (takeWhile (\<lambda>p. fst p \<noteq> LF) es) < k \<Longrightarrow>
     fill_events k es =
       (case dropWhile (\<lambda>p. fst p \<noteq> LF) es of
          [] \<Rightarrow> None
        | (_, e) # rest \<Rightarrow> Some (map fst (takeWhile (\<lambda>p. fst p \<noteq> LF) es) @ [LF], rest, e))"
proof (induction k es rule: fill_events.induct)
  case (3 k c e es)
  then show ?case
    by (cases "c = LF"; cases "dropWhile (\<lambda>p. fst p \<noteq> LF) es")
       (auto simp del: dropWhile_eq_Nil_conv)
qed auto

lemma skip_events_eq:
  "eof_ok es \<Longrightarrow> skip_events es =
     (case dropWhile (\<lambda>p. fst p \<noteq> LF) es of [] \<Rightarrow> None | (_, e) # rest \<Rightarrow> Some (rest, e))"
  by (induction es rule: skip_events.induct) (auto split: list.splits)

lemma take_long_line:
  assumes "k \<le> length (takeWhile P es)"
  shows "take k es = take k (takeWhile P es)" and "dropWhile P (drop k es) = dropWhile P es"
proof -
  show "take k es = take k (takeWhile P es)"
    using assms by (subst takeWhile_eq_take) (simp add: min_absorb1)
  have "drop k es = drop k (takeWhile P es) @ dropWhile P es"
    using assms drop_append [of k "takeWhile P es" "dropWhile P es"] by simp
  moreover have "dropWhile P (drop k (takeWhile P es) @ dropWhile P es) = dropWhile P (dropWhile P es)"
    by (rule dropWhile_append2) (auto dest: in_set_dropD set_takeWhileD)
  ultimately show "dropWhile P (drop k es) = dropWhile P es" by simp
qed

lemma last_line_not_LF:
  assumes "k \<le> length (takeWhile (\<lambda>p. fst p \<noteq> LF) es)" and "0 < k"
  shows "last (map fst (take k es)) \<noteq> LF"
proof -
  let ?t = "take k (takeWhile (\<lambda>p. fst p \<noteq> LF) es)"
  have "?t \<noteq> []" using assms by (cases es) auto
  then have "last ?t \<in> set ?t" by (rule last_in_set)
  then have "fst (last ?t) \<noteq> LF" by (auto dest: in_set_takeD set_takeWhileD)
  with take_long_line(1) [OF assms(1)] \<open>?t \<noteq> []\<close> show ?thesis by (simp add: last_map)
qed

lemma read_line_eq_spec:
  assumes "2 \<le> sz"
  shows "map_option (\<lambda>(n, s, b'). (n, s, events b', no_more b')) (rlb_read_line sz b) =
    read_line_spec sz (no_more b) (events b)"
proof -
  let ?P = "\<lambda>p :: char \<times> bool. fst p \<noteq> LF"
  let ?es = "events b"
  show ?thesis
  proof (cases "sz \<le> length (takeWhile ?P ?es)")
    case True
    obtain b1 where b1: "rlb_fill sz b = Some (map fst (take sz ?es), b1)"
      "events b1 = drop sz ?es" "no_more b1 = no_more b"
      using rlb_fill_events [of sz b] fill_events_long [OF eof_ok_events True] by auto
    have sk: "map_option (\<lambda>b'. (events b', no_more b')) (rlb_skip_line b1) =
        map_option (\<lambda>(es, f). (es, no_more b \<or> f))
          (case dropWhile ?P ?es of [] \<Rightarrow> None | (_, e) # rest \<Rightarrow> Some (rest, e))"
      using rlb_skip_events [of b1] skip_events_eq [OF eof_ok_events, of b1] b1
      by (simp add: take_long_line(2) [OF True])
    have len: "length (take sz ?es) = sz"
      using True length_takeWhile_le [of ?P ?es] by simp
    have "take (sz - 1) (map fst (take sz ?es)) = take (sz - 1) (map fst (takeWhile ?P ?es))"
      using take_long_line(1) [OF True] by (simp add: take_map)
    moreover have "last (map fst (take sz ?es)) \<noteq> LF"
      using True assms by (intro last_line_not_LF) auto
    ultimately show ?thesis
      using assms True b1 sk len
      by (auto simp: rlb_read_line_def read_line_spec_def Let_def simp del: dropWhile_eq_Nil_conv
          split: list.splits option.splits)
  next
    case False
    then have fill: "fill_events sz ?es = (case dropWhile ?P ?es of
          [] \<Rightarrow> None
        | (_, e) # rest \<Rightarrow> Some (map fst (takeWhile ?P ?es) @ [LF], rest, e))"
      by (intro fill_events_short) simp_all
    show ?thesis
    proof (cases "dropWhile ?P ?es")
      case Nil
      have "rlb_fill sz b = None" using rlb_fill_events [of sz b, unfolded fill Nil] by simp
      with assms show ?thesis by (simp add: rlb_read_line_def read_line_spec_def Nil)
    next
      case (Cons p rest)
      obtain c e where p: "p = (c, e)" by (cases p)
      obtain b1 where "rlb_fill sz b = Some (map fst (takeWhile ?P ?es) @ [LF], b1)"
        "events b1 = rest" "no_more b1 = (no_more b \<or> e)"
        using rlb_fill_events [of sz b, unfolded fill Cons p] by auto
      with assms False p show ?thesis
        by (simp add: rlb_read_line_def read_line_spec_def Let_def Cons)
    qed
  qed
qed

text \<open>
  C20. \<open>rlb_read_line\<close> refines the line specification: the line, the length (or \<open>-1\<close> as a
  64-bit \<open>size_t\<close>) and what is left depend only on the characters to come, not on how
  \<open>read()\<close> happened to split them, for every buffer size the callers use (two or more).
\<close>

theorem rlb_read_line_refines:
  assumes "2 \<le> sz"
  shows "map_option (\<lambda>(n, s, b'). (n, s, events b', no_more b')) (rlb_read_line sz b) =
    read_line_spec sz (no_more b) (events b)"
  using assms by (rule read_line_eq_spec)

lemma read_line_ev_unit: "events (rlb_init [Data ''NO'', Data [CHR ''O'', CHR ''P'', CR, LF], Data ''x'']) =
    [(CHR ''N'', False), (CHR ''O'', False), (CHR ''O'', False), (CHR ''P'', False), (LF, False), (CHR ''x'', False)]"
  by (simp add: events_def rlb_init_def)

theorem rlb_read_line_refines_witness:
  "map_option (\<lambda>(n, s, b'). (n, s, events b', no_more b'))
     (rlb_read_line 1024 (rlb_init [Data ''NO'', Data [CHR ''O'', CHR ''P'', CR, LF], Data ''x''])) =
   Some (4, ''NOOP'', [(CHR ''x'', False)], False)"
  using rlb_read_line_refines [of 1024 "rlb_init [Data ''NO'', Data [CHR ''O'', CHR ''P'', CR, LF], Data ''x'']"]
  unfolding read_line_ev_unit by (simp add: rlb_init_def read_line_spec_def)

text \<open>The bytes stored in the caller's buffer, with the NUL, fit it.\<close>

lemma rlb_read_line_fits:
  assumes "2 \<le> sz" and "rlb_read_line sz b = Some (n, s, b')"
  shows "length s < sz"
  using read_line_eq_spec [OF assms(1), of b] assms
  by (auto simp: read_line_spec_def Let_def split: list.splits if_splits)

lemma rlb_read_line_Some:
  assumes "2 \<le> sz" and "events b = map (\<lambda>c. (c, False)) s @ (LF, False) # es"
    and "LF \<notin> set s" and "length s < sz" and "\<not> no_more b"
  obtains b' where "rlb_read_line sz b = Some (of_nat (length s), s, b')"
    and "events b' = es" and "\<not> no_more b'"
proof -
  have t: "takeWhile (\<lambda>p. fst p \<noteq> LF) (events b) = map (\<lambda>c. (c, False)) s"
    and d: "dropWhile (\<lambda>p. fst p \<noteq> LF) (events b) = (LF, False) # es"
    using assms(2,3) by (auto simp: takeWhile_append dropWhile_append takeWhile_eq_all_conv)
  from read_line_eq_spec [OF assms(1), of b] t d assms(4,5) that show thesis
    by (auto simp: read_line_spec_def comp_def)
qed

section \<open>What write_all and read_all deliver\<close>

text \<open>
  The documented behaviour of \<open>write()\<close>, for any way \<open>dl\<close> of reading off what has been
  delivered: it accepts a prefix of the buffer and says how long, or accepts nothing.
\<close>

definition write_law :: "('w \<Rightarrow> string \<Rightarrow> wr \<times> 'w) \<Rightarrow> ('w \<Rightarrow> string) \<Rightarrow> bool" where
  "write_law wrf dl \<longleftrightarrow>
     (\<forall>w buf. case wrf w buf of
        (Wrote n, w') \<Rightarrow> n \<le> length buf \<and> dl w' = dl w @ take n buf
      | (_, w') \<Rightarrow> dl w' = dl w)"

text \<open>
  A caller that is not made to wait for ever: retries run out, and a write that succeeds makes
  progress.
\<close>

definition write_progress :: "('w \<Rightarrow> string \<Rightarrow> wr \<times> 'w) \<Rightarrow> ('w \<Rightarrow> nat) \<Rightarrow> bool" where
  "write_progress wrf m \<longleftrightarrow>
     (\<forall>w buf. buf \<noteq> [] \<longrightarrow> (case wrf w buf of
        (Wrote n, w') \<Rightarrow> 0 < n \<and> m w' \<le> m w
      | (WAgain, w') \<Rightarrow> m w' < m w
      | (WFail, w') \<Rightarrow> True))"

lemma write_all_partial:
  assumes ret: "write_all wrf buf w = Some r" and law: "write_law wrf dl"
  shows "fst r \<le> length buf \<and> dl (snd r) = dl w @ take (length buf - fst r) buf"
proof -
  have "write_law wrf dl \<longrightarrow>
      fst r \<le> length buf \<and> dl (snd r) = dl w @ take (length buf - fst r) buf"
  proof (rule write_all.raw_induct [where P = "\<lambda>wrf buf w r. write_law wrf dl \<longrightarrow>
       fst r \<le> length buf \<and> dl (snd r) = dl w @ take (length buf - fst r) buf", OF _ ret])
    fix f wrf buf w r
    assume IH: "\<And>wrf buf w r. f wrf buf w = Some r \<Longrightarrow> write_law wrf dl \<longrightarrow>
        fst r \<le> length buf \<and> dl (snd r) = dl w @ take (length buf - fst r) buf"
      and eq: "(if buf \<noteq> [] then (case wrf w buf of
           (Wrote n, w') \<Rightarrow> f wrf (drop n buf) w'
         | (WAgain, w') \<Rightarrow> f wrf buf w'
         | (WFail, w') \<Rightarrow> Some (length buf, w')) else Some (0, w)) = Some r"
    show "write_law wrf dl \<longrightarrow>
        fst r \<le> length buf \<and> dl (snd r) = dl w @ take (length buf - fst r) buf"
    proof
      assume law: "write_law wrf dl"
      obtain v w1 where v: "wrf w buf = (v, w1)" by (cases "wrf w buf")
      with law have at: "case v of Wrote n \<Rightarrow> n \<le> length buf \<and> dl w1 = dl w @ take n buf
          | _ \<Rightarrow> dl w1 = dl w"
        unfolding write_law_def by (auto dest!: spec [of _ w] spec [of _ buf] split: wr.splits)
      show "fst r \<le> length buf \<and> dl (snd r) = dl w @ take (length buf - fst r) buf"
      proof (cases v)
        case (Wrote n)
        show ?thesis
        proof (cases "buf = []")
          case False
          with eq v Wrote have "f wrf (drop n buf) w1 = Some r" by simp
          with IH law have r: "fst r \<le> length buf - n"
            "dl (snd r) = dl w1 @ take (length buf - n - fst r) (drop n buf)"
            by fastforce+
          have "n \<le> length buf" using at Wrote by simp
          with r(1) have len: "length buf - fst r = n + (length buf - n - fst r)" by arith
          have "take (length buf - fst r) buf =
              take n buf @ take (length buf - n - fst r) (drop n buf)"
            unfolding len take_add by simp
          with r at Wrote show ?thesis by simp
        qed (use eq in auto)
      next
        case WAgain
        with eq v at IH [of wrf buf w1 r] law show ?thesis by (cases "buf = []") auto
      next
        case WFail
        with eq v at show ?thesis by (cases "buf = []") auto
      qed
    qed
  qed
  with law show ?thesis by simp
qed

lemma write_all_returns:
  assumes "write_progress wrf m"
  shows "write_all wrf buf w \<noteq> None"
proof (induction "m w + length buf" arbitrary: w buf rule: less_induct)
  case less
  show ?case
  proof (cases "buf = []")
    case True
    then show ?thesis by (subst write_all.simps) simp
  next
    case False
    obtain v w1 where v: "wrf w buf = (v, w1)" by (cases "wrf w buf")
    have "case v of Wrote n \<Rightarrow> 0 < n \<and> m w1 \<le> m w | WAgain \<Rightarrow> m w1 < m w | WFail \<Rightarrow> True"
      using assms False v unfolding write_progress_def
      by (auto dest!: spec [of _ w] spec [of _ buf] split: wr.splits)
    moreover have "write_all wrf (drop n buf) w1 \<noteq> None" if "0 < n" "m w1 \<le> m w" for n
      using that False by (intro less) (cases buf; simp)
    moreover have "write_all wrf buf w1 \<noteq> None" if "m w1 < m w"
      using that by (intro less) simp
    ultimately show ?thesis
      using False v by (subst write_all.simps) (auto split: wr.splits)
  qed
qed

text \<open>A descriptor on which no write fails takes everything.\<close>

lemma write_all_complete:
  assumes ret: "write_all wrf buf w = Some r" and ok: "\<forall>w bs. fst (wrf w bs) \<noteq> WFail"
  shows "fst r = 0"
proof -
  have "(\<forall>w bs. fst (wrf w bs) \<noteq> WFail) \<longrightarrow> fst r = 0"
  proof (rule write_all.raw_induct [where P = "\<lambda>wrf buf w r.
       (\<forall>w bs. fst (wrf w bs) \<noteq> WFail) \<longrightarrow> fst r = 0", OF _ ret])
    fix f wrf buf w r
    assume IH: "\<And>wrf buf w r. f wrf buf w = Some r \<Longrightarrow>
        (\<forall>w bs. fst (wrf w bs) \<noteq> WFail) \<longrightarrow> fst r = 0"
      and eq: "(if buf \<noteq> [] then (case wrf w buf of
           (Wrote n, w') \<Rightarrow> f wrf (drop n buf) w'
         | (WAgain, w') \<Rightarrow> f wrf buf w'
         | (WFail, w') \<Rightarrow> Some (length buf, w')) else Some (0, w)) = Some r"
    show "(\<forall>w bs. fst (wrf w bs) \<noteq> WFail) \<longrightarrow> fst r = 0"
    proof
      assume k: "\<forall>w bs. fst (wrf w bs) \<noteq> WFail"
      obtain v w1 where v: "wrf w buf = (v, w1)" by (cases "wrf w buf")
      with k have "v \<noteq> WFail" by (metis fst_conv)
      with eq v IH k show "fst r = 0" by (cases "buf = []"; cases v) auto
    qed
  qed
  with ok show ?thesis by blast
qed

lemma write_all_sends:
  assumes "write_law wrf dl" and "write_progress wrf m" and "\<forall>w bs. fst (wrf w bs) \<noteq> WFail"
  obtains w' where "write_all wrf buf w = Some (0, w')" and "dl w' = dl w @ buf"
proof -
  obtain r where r: "write_all wrf buf w = Some r" using write_all_returns [OF assms(2)] by blast
  with write_all_complete [OF r assms(3)] write_all_partial [OF r assms(1)] that [of "snd r"]
  show thesis by (cases r) simp
qed

text \<open>
  \<open>write_all\<close> returns when the descriptor makes progress, and what has then been
  delivered is exactly the buffer up to the number of bytes reported as remaining: nothing is
  lost, repeated or reordered over short writes and retries.
\<close>

theorem write_all_delivers:
  assumes "write_progress wrf m" and "write_law wrf dl"
  shows "\<exists>k w'. write_all wrf buf w = Some (k, w') \<and> k \<le> length buf \<and>
    dl w' = dl w @ take (length buf - k) buf"
proof -
  obtain r where r: "write_all wrf buf w = Some r"
    using write_all_returns [OF assms(1)] by blast
  from write_all_partial [OF r assms(2)] r show ?thesis by (cases r) auto
qed

text \<open>A descriptor that takes two bytes at a time.\<close>

definition two_bytes :: "string \<Rightarrow> string \<Rightarrow> wr \<times> string" where
  "two_bytes w buf = (Wrote (min 2 (length buf)), w @ take 2 buf)"

theorem write_all_delivers_witness:
  "\<exists>k w'. write_all two_bytes ''hello'' [] = Some (k, w') \<and> k \<le> length ''hello'' \<and>
     w' = [] @ take (length ''hello'' - k) ''hello''"
proof -
  have "write_progress two_bytes (\<lambda>w. 0)"
    by (auto simp: write_progress_def two_bytes_def)
  moreover have "write_law two_bytes (\<lambda>w. w)"
    by (auto simp: write_law_def two_bytes_def min_def)
  ultimately show ?thesis by (rule write_all_delivers)
qed

section \<open>send_mark\<close>

text \<open>The buffers handed to \<open>write_all\<close>, three per line of the message.\<close>

definition mark_prefix :: "nat \<Rightarrow> string" where
  "mark_prefix code =
     [digit_char (code div 100 mod 10), digit_char (code div 10 mod 10), digit_char (code mod 10)]"

function send_mark_lines :: "string \<Rightarrow> string \<Rightarrow> string list" where
  "send_mark_lines pfx msg =
     (let p = dropWhile (\<lambda>c. c \<noteq> LF) msg;
          last_line = (p = [] \<or> tl p = []);
          line = takeWhile (\<lambda>c. c \<noteq> LF) msg
      in [pfx @ [if last_line then CHR '' '' else CHR ''-''], line, [CR, LF]] @
         (if last_line then [] else send_mark_lines pfx (tl p)))"
  by pat_completeness auto
termination
proof (relation "measure (\<lambda>(pfx, msg). length msg)")
  fix pfx msg :: string and x xa
  assume x: "x = dropWhile (\<lambda>c. c \<noteq> LF) msg" and xa: "xa = (x = [] \<or> tl x = [])" "\<not> xa"
  have "length x \<le> length msg" unfolding x by (rule length_dropWhile_le)
  moreover have "length (tl x) < length x" using xa by (cases x) auto
  ultimately show "((pfx, tl x), (pfx, msg)) \<in> measure (\<lambda>(pfx, msg). length msg)" by simp
qed simp

declare send_mark_lines.simps [simp del]

definition send_mark :: "nat \<Rightarrow> string \<Rightarrow> string list" where
  "send_mark code msg = send_mark_lines (mark_prefix code) msg"

definition mark_bytes :: "nat \<Rightarrow> string \<Rightarrow> string" where
  "mark_bytes code msg = concat (send_mark code msg)"

end
