(* ===== verification/CMemory.thy ===== *)
theory CMemory
  imports Prelude
begin

text \<open>
  C character arrays as the client program uses them: a list of cells, each holding a
  character or still indeterminate (what \<open>malloc\<close> and \<open>realloc\<close> hand out). Reading an
  indeterminate cell, touching a cell outside the array and using a null pointer are faults of
  the model. The
  doubling loop \<open>while (need >= cap) buf = realloc(buf, cap <<= 1)\<close> is kept with the wrap-around
  of \<open>size_t\<close>, so that not ending is a value.
\<close>

section \<open>Arrays\<close>

datatype mem_fault = OVERRUN | INDETERMINATE | NULL_POINTER

type_synonym mem = "char option list"

definition malloc :: "nat \<Rightarrow> mem" where
  "malloc n = replicate n None"

definition realloc :: "mem \<Rightarrow> nat \<Rightarrow> mem" where
  "realloc m n = take n m @ replicate (n - length m) None"

text \<open>\<open>memcpy(m + i, s, strlen(s))\<close>\<close>

definition store :: "mem \<Rightarrow> nat \<Rightarrow> string \<Rightarrow> mem_fault + mem" where
  "store m i s =
     (if i + length s \<le> length m
      then Inr (take i m @ map Some s @ drop (i + length s) m)
      else Inl OVERRUN)"

text \<open>The C string that starts at the first cell.\<close>

fun load_str :: "mem \<Rightarrow> mem_fault + string" where
  "load_str [] = Inl OVERRUN"
| "load_str (None # m) = Inl INDETERMINATE"
| "load_str (Some c # m) = (if c = NUL then Inr [] else bind_res (load_str m) (\<lambda>s. Inr (c # s)))"

text \<open>Tests of the leading characters joined by \<open>&&\<close>, which stop at the first that fails.\<close>

fun check_chars :: "(char \<Rightarrow> bool) list \<Rightarrow> mem \<Rightarrow> mem_fault + bool" where
  "check_chars [] m = Inr True"
| "check_chars (p # ps) [] = Inl OVERRUN"
| "check_chars (p # ps) (None # m) = Inl INDETERMINATE"
| "check_chars (p # ps) (Some c # m) = (if p c then check_chars ps m else Inr False)"

lemma length_malloc [simp]: "length (malloc n) = n"
  by (simp add: malloc_def)

lemma length_realloc [simp]: "length (realloc m n) = n"
  by (simp add: realloc_def)

lemma take_realloc: "k \<le> length m \<Longrightarrow> k \<le> n \<Longrightarrow> take k (realloc m n) = take k m"
  by (simp add: realloc_def min_def)

lemma store_fits:
  "i + length s \<le> length m \<Longrightarrow> store m i s = Inr (take i m @ map Some s @ drop (i + length s) m)"
  by (simp add: store_def)

lemma store_eq_Inr:
  "store m i s = Inr m' \<longleftrightarrow>
     i + length s \<le> length m \<and> m' = take i m @ map Some s @ drop (i + length s) m"
  by (auto simp: store_def)

lemma store_length: "store m i s = Inr m' \<Longrightarrow> length m' = length m"
  by (auto simp: store_eq_Inr)

lemma store_obtain:
  assumes "i + length s \<le> length m"
  obtains m' where "store m i s = Inr m'" and "length m' = length m"
    and "\<And>j. j \<le> i \<Longrightarrow> take j m' = take j m" and "take (i + length s) m' = take i m @ map Some s"
proof -
  let ?m = "take i m @ map Some s @ drop (i + length s) m"
  have i: "min (length m) i = i" using assms by simp
  have "store m i s = Inr ?m" using assms by (rule store_fits)
  moreover from this have "length ?m = length m" by (rule store_length)
  moreover have "take j ?m = take j m" if "j \<le> i" for j using that i by (simp add: min_def)
  moreover have "take (i + length s) ?m = take i m @ map Some s" using i by simp
  ultimately show thesis by (rule that)
qed

lemma load_str_map: "NUL \<notin> set s \<Longrightarrow> load_str (map Some s @ Some NUL # m) = Inr s"
  by (induction s) auto

lemma load_str_cstr: "load_str (map Some s @ Some NUL # m) = Inr (cstr s)"
  by (induction s) (auto simp: cstr_def)

lemma load_str_free: "load_str m = Inr s \<Longrightarrow> NUL \<notin> set s"
  by (induction m arbitrary: s rule: load_str.induct) (auto simp: bind_res_eq_Inr split: if_splits)

lemma length_cstr: "length (cstr s) \<le> length s"
  by (simp add: cstr_def length_takeWhile_le)

lemma check_chars_map:
  "length ps \<le> length s \<Longrightarrow>
     check_chars ps (map Some s @ m) = Inr (list_all (\<lambda>(p, c). p c) (zip ps s))"
  by (induction ps arbitrary: s) (auto simp: neq_Nil_conv Suc_le_length_iff)

section \<open>Doubling the capacity\<close>

partial_function (option) grow :: "size_t \<Rightarrow> size_t \<Rightarrow> size_t option" where
  "grow need cap = (if cap \<le> need then grow need (push_bit 1 cap) else Some cap)"

lemma shift_size: "push_bit 1 (c :: size_t) = 2 * c"
  by (simp add: push_bit_eq_mult)

lemma unat_double: "unat (c :: size_t) < 2 ^ 63 \<Longrightarrow> unat (push_bit 1 c) = 2 * unat c"
  by (simp add: shift_size unat_word_ariths(2) mod_less)

text \<open>A capacity above the need is reached when both are below \<open>2 ^ 63\<close>.\<close>

lemma grow_ends:
  assumes "0 < cap" and "unat need < 2 ^ 63"
  obtains c where "grow need cap = Some c" and "need < c" and "cap \<le> c"
proof -
  have "\<exists>c. grow need cap = Some c \<and> need < c \<and> cap \<le> c"
    using assms(1)
  proof (induction "2 ^ 64 - unat cap" arbitrary: cap rule: less_induct)
    case less
    show ?case
    proof (cases "cap \<le> need")
      case True
      with assms(2) have u: "unat (push_bit 1 cap) = 2 * unat cap"
        by (intro unat_double) (simp add: word_le_nat_alt)
      have pos: "0 < unat cap" using less.prems by (simp add: word_less_nat_alt)
      with u have "0 < push_bit 1 cap" and le: "cap \<le> push_bit 1 cap"
        by (simp_all only: word_less_nat_alt word_le_nat_alt) simp_all
      moreover have "unat cap < 2 ^ 64" using unsigned_less [of cap] by simp
      with u pos have "2 ^ 64 - unat (push_bit 1 cap) < 2 ^ 64 - unat cap" by simp
      ultimately obtain c where "grow need (push_bit 1 cap) = Some c" "need < c"
        "push_bit 1 cap \<le> c"
        using less.hyps by blast
      with True le show ?thesis by (subst grow.simps) auto
    next
      case False
      then show ?thesis by (subst grow.simps) auto
    qed
  qed
  with that show thesis by blast
qed

text \<open>A need of \<open>2 ^ 63\<close> or more that no power of two exceeds: the loop never ends.\<close>

lemma grow_never:
  assumes "cap = push_bit k 64" and "2 ^ 63 \<le> unat need"
  shows "grow need cap = None"
proof -
  have le: "push_bit k (64 :: size_t) \<le> need" for k
  proof (cases "k < 58")
    case True
    have "unat (push_bit k (64 :: size_t)) = take_bit 64 (64 * 2 ^ k)"
      by (simp only: unsigned_push_bit_eq) (simp add: push_bit_eq_mult)
    also have "\<dots> \<le> 2 ^ 6 * 2 ^ k"
      by (rule order.trans [OF take_bit_nat_less_eq_self]) simp
    also have "\<dots> \<le> 2 ^ 6 * (2 ^ 57 :: nat)"
      using True by (intro mult_le_mono power_increasing) auto
    finally have "unat (push_bit k (64 :: size_t)) \<le> 2 ^ 63" by simp
    with assms(2) show ?thesis by (simp add: word_le_nat_alt)
  next
    case False
    then have "push_bit k (64 :: size_t) = push_bit (k - 58) (push_bit 58 64)"
      by (simp only: push_bit_push_bit) simp
    also have "push_bit 58 (64 :: size_t) = 0" by simp
    finally have "push_bit k (64 :: size_t) = 0" by simp
    then show ?thesis by simp
  qed
  have "need = need \<longrightarrow> (\<forall>k. cap \<noteq> push_bit k 64)" if "grow need cap = Some r" for r
  proof (rule grow.raw_induct [where P = "\<lambda>n c r. n = need \<longrightarrow> (\<forall>k. c \<noteq> push_bit k 64)",
      OF _ that])
    fix f n c r
    assume IH: "\<And>n c r. f n c = Some r \<Longrightarrow> n = need \<longrightarrow> (\<forall>k. c \<noteq> push_bit k 64)"
      and eq: "(if c \<le> n then f n (push_bit 1 c) else Some c) = Some r"
    have "c \<noteq> push_bit k 64" if n: "n = need" for k
    proof
      assume c: "c = push_bit k 64"
      with le n eq have "f need (push_bit 1 c) = Some r" by simp
      with IH have "push_bit 1 c \<noteq> push_bit (Suc k) 64" by blast
      with c show False by (simp add: push_bit_push_bit)
    qed
    then show "n = need \<longrightarrow> (\<forall>k. c \<noteq> push_bit k 64)" by blast
  qed
  with assms(1) show ?thesis by (cases "grow need cap") auto
qed

end
