(* ===== verification/Xfer.thy ===== *)
theory Xfer
  imports IoUtils CMemory
begin

text \<open>
  The transfer library of the client, \<^verbatim>\<open>client/xfer.c\<close>: the bodies of its threads. A thread
  runs to its end in one step of the model and hands its callback to the main loop of the user
  interface; \<open>None\<close> is a thread that has not ended (it waits for input or loops for ever), and
  a memory fault of the thread is a value. First the reply reader \<open>read_mark_thr\<close> with its
  buffers, then the whole-connection readers and writers, then the connection set-up.
\<close>

section \<open>read_mark_thr\<close>

definition READLINE_LINE_BUF_SIZE :: nat where
  "READLINE_LINE_BUF_SIZE = 1024"

text \<open>The growing buffer of a reader: \<open>cap\<close>, \<open>len\<close>, \<open>buf\<close>.\<close>

record xbuf =
  xcap :: size_t
  xlen :: size_t
  xmem :: mem

definition xbuf_init :: xbuf where
  "xbuf_init = \<lparr>xcap = 64, xlen = 0, xmem = malloc 64\<rparr>"

text \<open>What \<open>rlb_read_line\<close> leaves in the line array; the cells behind the NUL keep their content.\<close>

definition line_after :: "mem \<Rightarrow> string \<Rightarrow> mem" where
  "line_after line s = map Some s @ Some NUL # drop (length s + 1) line"

definition append_line :: "mem \<Rightarrow> size_t \<Rightarrow> xbuf \<Rightarrow> (mem_fault + xbuf) option" where
  "append_line line lnsz g =
     (case grow (xlen g + lnsz - 3) (xcap g) of
        None \<Rightarrow> None
      | Some cap \<Rightarrow>
          (let m = realloc (xmem g) (unat cap);
               len = xlen g + (lnsz - 4)
           in Some
             (bind_res (load_str (drop 4 line)) (\<lambda>s.
              bind_res (store m (unat (xlen g)) (s @ [NUL])) (\<lambda>m.
              bind_res (store m (unat len) [LF]) (\<lambda>m.
                Inr \<lparr>xcap = cap, xlen = len + 1, xmem = m\<rparr>))))))"

text \<open>The test for the last line of a reply, and its code.\<close>

definition mark_tests :: "(char \<Rightarrow> bool) list" where
  "mark_tests = [isdigit, isdigit, isdigit, \<lambda>c. c = CHR '' '']"

definition mark_code :: "string \<Rightarrow> nat" where
  "mark_code s = digit_val (s ! 0) * 100 + digit_val (s ! 1) * 10 + digit_val (s ! 2)"

partial_function (option) read_mark_loop ::
  "mem \<Rightarrow> xbuf \<Rightarrow> rlb \<Rightarrow> (mem_fault + nat \<times> xbuf \<times> rlb) option" where
  "read_mark_loop line g b =
     (case rlb_read_line READLINE_LINE_BUF_SIZE b of
        None \<Rightarrow> None
      | Some (lnsz, s, b') \<Rightarrow>
          (let line' = line_after line s in
           if 4 \<le> lnsz then
             (case append_line line' lnsz g of
                None \<Rightarrow> None
              | Some (Inl e) \<Rightarrow> Some (Inl e)
              | Some (Inr g') \<Rightarrow>
                  (case check_chars mark_tests line' of
                     Inl e \<Rightarrow> Some (Inl e)
                   | Inr final \<Rightarrow>
                       if final then Some (Inr (mark_code s, g', b'))
                       else read_mark_loop line' g' b'))
           else read_mark_loop line' g b'))"

text \<open>The arguments queued for the callback, if there is one, and the read-line buffer.\<close>

definition read_mark_thr :: "bool \<Rightarrow> rlb \<Rightarrow> (mem_fault + (nat \<times> mem) option \<times> rlb) option" where
  "read_mark_thr has_next b =
     map_option (\<lambda>r. bind_res r (\<lambda>(code, g, b').
       bind_res (store (xmem g) (unat (xlen g)) [NUL]) (\<lambda>m.
         Inr (if has_next then Some (code, m) else None, b'))))
       (read_mark_loop (malloc READLINE_LINE_BUF_SIZE) xbuf_init b)"

text \<open>What the callback reads: the code and the C string in the buffer.\<close>

definition read_mark_cb :: "nat \<times> mem \<Rightarrow> mem_fault + nat \<times> string" where
  "read_mark_cb p = bind_res (load_str (snd p)) (\<lambda>s. Inr (fst p, s))"

section \<open>The buffer of a reader\<close>

text \<open>
  The invariant of the growing buffer: the array has \<open>cap\<close> cells, one is left behind \<open>len\<close>,
  and no more than \<open>n\<close> bytes have been counted.
\<close>

definition fits :: "nat \<Rightarrow> xbuf \<Rightarrow> bool" where
  "fits n g \<longleftrightarrow> length (xmem g) = unat (xcap g) \<and> unat (xlen g) < unat (xcap g) \<and> unat (xlen g) \<le> n"

definition holds :: "string \<Rightarrow> xbuf \<Rightarrow> bool" where
  "holds t g \<longleftrightarrow> fits (length t) g \<and> unat (xlen g) = length t \<and>
     take (length t) (xmem g) = map Some t"

lemma fits_init: "fits 0 xbuf_init"
  by (simp add: fits_def xbuf_init_def)

lemma holds_init: "holds [] xbuf_init"
  by (simp add: holds_def fits_init) (simp add: xbuf_init_def)

lemma fits_mono: "fits n g \<Longrightarrow> n \<le> n' \<Longrightarrow> fits n' g"
  by (auto simp: fits_def)

lemma unat_add_small:
  "unat (a :: size_t) + unat b < 2 ^ 64 \<Longrightarrow> unat (a + b) = unat a + unat b"
  by (simp add: unat_word_ariths(1))

lemma unat_of_nat_small: "n < 2 ^ 64 \<Longrightarrow> unat (of_nat n :: size_t) = n"
  by (simp add: unat_of_nat take_bit_nat_eq_self)

lemma unat_minus_small: "k \<le> unat (a :: size_t) \<Longrightarrow> unat (a - of_nat k) = unat a - k"
proof -
  assume k: "k \<le> unat a"
  then have "k < 2 ^ 64" using unsigned_less [of a, where 'a = nat] by simp
  then have u: "unat (of_nat k :: size_t) = k" by (rule unat_of_nat_small)
  with k have "(of_nat k :: size_t) \<le> a" by (simp add: word_le_nat_alt)
  then show ?thesis using u by (simp add: unat_sub_if' word_le_nat_alt)
qed

text \<open>One line of \<open>k\<close> bytes, with no growth beyond \<open>2 ^ 62\<close>: what the copies do.\<close>

lemma append_line_grow:
  assumes "fits n g" and "4 \<le> k" and "n + k < 2 ^ 62" and "load_str (drop 4 line) = Inr s"
    and "length s \<le> k - 4"
  obtains cap m where
    "append_line line (of_nat k) g =
       Some (Inr \<lparr>xcap = cap, xlen = xlen g + of_nat (k - 4) + 1, xmem = m\<rparr>)"
    and "fits (n + k) \<lparr>xcap = cap, xlen = xlen g + of_nat (k - 4) + 1, xmem = m\<rparr>"
    and "take (unat (xlen g)) m = take (unat (xlen g)) (xmem g)"
    and "length s = k - 4 \<longrightarrow> take (unat (xlen g) + k - 3) m = take (unat (xlen g)) (xmem g) @ map Some s @ [Some LF]"
    and "length s < k - 4 \<longrightarrow> take (unat (xlen g) + length s + 1) m = take (unat (xlen g)) (xmem g) @ map Some (s @ [NUL])"
    and "unat (xlen g + of_nat (k - 4) + 1) = unat (xlen g) + k - 3"
proof -
  let ?l = "unat (xlen g)"
  have l: "?l \<le> n" "?l < unat (xcap g)" "length (xmem g) = unat (xcap g)"
    using assms(1) by (auto simp: fits_def)
  have k: "unat (of_nat k :: size_t) = k" using assms(3) by (intro unat_of_nat_small) simp
  have "unat (xlen g + of_nat k) = ?l + k"
    using l assms(3) k by (subst unat_add_small) auto
  moreover then have "unat (xlen g + of_nat k - of_nat 3) = ?l + k - 3"
    using assms(2) by (subst unat_minus_small) auto
  ultimately have need: "unat (xlen g + of_nat k - 3) = ?l + k - 3" by simp
  obtain cap where cap: "grow (xlen g + of_nat k - 3) (xcap g) = Some cap"
    "xlen g + of_nat k - 3 < cap" "xcap g \<le> cap"
    by (rule grow_ends [of "xcap g" "xlen g + of_nat k - 3"])
       (use l assms(3) need in \<open>auto simp: word_less_nat_alt\<close>)
  then have c: "?l + k - 3 < unat cap" "unat (xcap g) \<le> unat cap"
    using need by (auto simp: word_less_nat_alt word_le_nat_alt)
  have k4: "(of_nat k - 4 :: size_t) = of_nat (k - 4)" using assms(2) by (simp add: of_nat_diff)
  have "unat (of_nat (k - 4) :: size_t) = k - 4" using assms(3) by (intro unat_of_nat_small) simp
  then have len: "unat (xlen g + of_nat (k - 4)) = ?l + (k - 4)"
    using l assms(3) by (subst unat_add_small) auto
  then have len1: "unat (xlen g + of_nat (k - 4) + 1) = ?l + k - 3"
    using l assms(2,3) by (subst unat_add_small) auto
  let ?r = "realloc (xmem g) (unat cap)"
  obtain m1 where m1: "store ?r ?l (s @ [NUL]) = Inr m1" "length m1 = unat cap"
    "take ?l m1 = take ?l ?r" "take (?l + length (s @ [NUL])) m1 = take ?l ?r @ map Some (s @ [NUL])"
  proof (rule store_obtain [of ?l "s @ [NUL]" ?r])
    show "?l + length (s @ [NUL]) \<le> length ?r" using c assms(2,5) by simp
  qed (use that in simp)
  obtain m where m: "store m1 (?l + (k - 4)) [LF] = Inr m" "length m = unat cap"
    "\<And>j. j \<le> ?l + (k - 4) \<Longrightarrow> take j m = take j m1"
    "take (?l + (k - 4) + 1) m = take (?l + (k - 4)) m1 @ [Some LF]"
  proof (rule store_obtain [of "?l + (k - 4)" "[LF]" m1])
    show "?l + (k - 4) + length [LF] \<le> length m1" using c assms(2) m1(2) by simp
  qed (use that m1(2) in simp)
  have ap: "append_line line (of_nat k) g =
      Some (Inr \<lparr>xcap = cap, xlen = xlen g + of_nat (k - 4) + 1, xmem = m\<rparr>)"
    using cap(1) assms(4) m1(1) m(1) by (simp add: append_line_def Let_def k4 len)
  have tk: "take ?l ?r = take ?l (xmem g)" using l c by (intro take_realloc) auto
  have A: "take ?l m = take ?l (xmem g)" using m(3) [of ?l] m1(3) tk by simp
  have B: "take (?l + k - 3) m = take ?l (xmem g) @ map Some s @ [Some LF]"
    if s: "length s = k - 4"
  proof -
    have "take (?l + (k - 4)) m1 = take (?l + (k - 4)) (take (?l + length (s @ [NUL])) m1)"
      using s by simp
    also have "\<dots> = take ?l (xmem g) @ map Some s" unfolding m1(4) tk using s l by simp
    finally have "take (?l + (k - 4)) m1 = take ?l (xmem g) @ map Some s" .
    moreover have "?l + (k - 4) + 1 = ?l + k - 3" using assms(2) by arith
    ultimately show ?thesis using m(4) by (simp only: append_assoc)
  qed
  have C: "take (?l + length s + 1) m = take ?l (xmem g) @ map Some (s @ [NUL])"
    if "length s < k - 4"
    using m(3) [of "?l + length s + 1"] m1(4) tk that by simp
  have "fits (n + k) \<lparr>xcap = cap, xlen = xlen g + of_nat (k - 4) + 1, xmem = m\<rparr>"
    using m(2) len1 c l assms(2) by (simp add: fits_def)
  from that [OF ap this A _ _ len1] B C show thesis by simp
qed

text \<open>
  The callback will find a C string: up to \<open>len\<close> the buffer is text without NUL, or there is a
  NUL after text without NUL (the text of an over-long line or of one that has a NUL itself).
\<close>

definition readable :: "xbuf \<Rightarrow> bool" where
  "readable g \<longleftrightarrow> (\<exists>t r. NUL \<notin> set t \<and>
     (take (unat (xlen g)) (xmem g) = map Some t \<or> take (unat (xlen g)) (xmem g) = map Some t @ Some NUL # r))"

lemma cstr_free: "NUL \<notin> set (cstr s)"
  by (auto simp: cstr_def dest: set_takeWhileD)

lemma readable_append:
  assumes "readable g" and "fits n g" and "4 \<le> k" and "n + k < 2 ^ 62"
    and "load_str (drop 4 line) = Inr s" and "length s \<le> k - 4"
  obtains g' where "append_line line (of_nat k) g = Some (Inr g')" and "fits (n + k) g'"
    and "readable g'"
proof -
  obtain cap m where a: "append_line line (of_nat k) g =
       Some (Inr \<lparr>xcap = cap, xlen = xlen g + of_nat (k - 4) + 1, xmem = m\<rparr>)"
    and f: "fits (n + k) \<lparr>xcap = cap, xlen = xlen g + of_nat (k - 4) + 1, xmem = m\<rparr>"
    and A: "take (unat (xlen g)) m = take (unat (xlen g)) (xmem g)"
    and B: "length s = k - 4 \<longrightarrow> take (unat (xlen g) + k - 3) m =
        take (unat (xlen g)) (xmem g) @ map Some s @ [Some LF]"
    and C: "length s < k - 4 \<longrightarrow> take (unat (xlen g) + length s + 1) m =
        take (unat (xlen g)) (xmem g) @ map Some (s @ [NUL])"
    and l: "unat (xlen g + of_nat (k - 4) + 1) = unat (xlen g) + k - 3"
    by (rule append_line_grow [OF assms(2-6)])
  let ?l = "unat (xlen g)" and ?l' = "unat (xlen g) + k - 3"
  have free: "NUL \<notin> set s" using assms(5) by (rule load_str_free)
  obtain t r where t: "NUL \<notin> set t"
    "take ?l (xmem g) = map Some t \<or> take ?l (xmem g) = map Some t @ Some NUL # r"
    using assms(1) by (auto simp: readable_def)
  have split: "take ?l' m = take j m @ drop j (take ?l' m)" if "j \<le> ?l'" for j
    using that by (metis append_take_drop_id min.absorb1 take_take)
  have "\<exists>t r. NUL \<notin> set t \<and> (take ?l' m = map Some t \<or> take ?l' m = map Some t @ Some NUL # r)"
  proof (cases "take ?l (xmem g) = map Some t")
    case True
    show ?thesis
    proof (cases "length s < k - 4")
      case True': True
      have "take ?l' m = map Some (t @ s) @ Some NUL # drop (?l + length s + 1) (take ?l' m)"
        using split [of "?l + length s + 1"] C True True' by simp
      moreover have "NUL \<notin> set (t @ s)" using t free by simp
      ultimately show ?thesis by blast
    next
      case False
      then have "take ?l' m = map Some (t @ s @ [LF])" using B True assms(6) by simp
      moreover have "NUL \<notin> set (t @ s @ [LF])" using t free by simp
      ultimately show ?thesis by blast
    qed
  next
    case False
    then have "take ?l' m = map Some t @ Some NUL # (r @ drop ?l (take ?l' m))"
      using split [of ?l] A t(2) assms(3) by simp
    with t(1) show ?thesis by blast
  qed
  with l have "readable \<lparr>xcap = cap, xlen = xlen g + of_nat (k - 4) + 1, xmem = m\<rparr>"
    by (simp add: readable_def)
  with a f show thesis by (rule that)
qed

section \<open>Lines of a reply\<close>

definition final_line :: "string \<Rightarrow> bool" where
  "final_line s \<longleftrightarrow> 4 \<le> length s \<and> isdigit (s ! 0) \<and> isdigit (s ! 1) \<and> isdigit (s ! 2) \<and> s ! 3 = CHR '' ''"

lemma check_final:
  assumes "4 \<le> length s"
  shows "check_chars mark_tests (line_after line s) = Inr (final_line s)"
proof -
  have "check_chars mark_tests (line_after line s) = Inr (list_all (\<lambda>(p, c). p c) (zip mark_tests s))"
    unfolding line_after_def using assms by (intro check_chars_map) (simp add: mark_tests_def)
  moreover obtain a b c d r where "s = a # b # c # d # r"
    using assms by (auto simp: numeral_eq_Suc Suc_le_length_iff)
  ultimately show ?thesis using assms
    by (auto simp: mark_tests_def final_line_def numeral_eq_Suc)
qed

lemma load_line:
  assumes "4 \<le> length s"
  shows "load_str (drop 4 (line_after line s)) = Inr (cstr (drop 4 s))"
proof -
  have "drop 4 (line_after line s) = map Some (drop 4 s) @ Some NUL # drop (length s + 1) line"
    using assms by (simp add: line_after_def drop_map)
  then show ?thesis by (simp add: load_str_cstr)
qed

text \<open>A connection on which no end of the stream shows: what one line consumes.\<close>

definition open_conn :: "rlb \<Rightarrow> bool" where
  "open_conn b \<longleftrightarrow> \<not> no_more b \<and> (\<forall>p \<in> set (events b). \<not> snd p)"

lemma read_line_open:
  assumes "open_conn b" and "rlb_read_line READLINE_LINE_BUF_SIZE b = Some (n, s, b')"
  obtains k where "n = of_nat k" and "k \<le> 1024" and "k = length s \<or> k = 1024 \<and> length s = 1023"
    and "k + length (events b') < length (events b)" and "open_conn b'"
proof -
  let ?es = "events b" and ?P = "\<lambda>p :: char \<times> bool. fst p \<noteq> LF"
  have spec: "read_line_spec 1024 False ?es = Some (n, s, events b', no_more b')"
    using read_line_eq_spec [of 1024 b] assms
    by (simp add: READLINE_LINE_BUF_SIZE_def open_conn_def)
  obtain c e rest where d: "dropWhile ?P ?es = (c, e) # rest"
    using spec by (auto simp: read_line_spec_def Let_def split: list.splits)
  have es: "?es = takeWhile ?P ?es @ (c, e) # rest" using d takeWhile_dropWhile_id by metis
  then have ne: "\<not> e" "\<forall>p \<in> set rest. \<not> snd p"
    using assms(1) unfolding open_conn_def
    by (metis in_set_conv_decomp snd_conv, metis Un_iff set_append set_ConsD list.set_intros(2))
  let ?t = "length (takeWhile ?P ?es)"
  have len: "length ?es = ?t + Suc (length rest)" using arg_cong [OF es, of length] by simp
  have "n = of_nat 1024 \<and> length s = 1023 \<and> 1024 \<le> ?t \<or> n = of_nat (length s) \<and> length s = ?t \<and> ?t \<le> 1024"
    and "events b' = rest" and "\<not> no_more b'"
    using spec ne d by (auto simp: read_line_spec_def Let_def split: if_splits)
  with len ne that [of 1024] that [of "length s"] show thesis
    by (auto simp: open_conn_def)
qed

text \<open>One round of the loop, on an open connection: a line is added or passed over.\<close>

lemma read_mark_round:
  assumes "open_conn b" and "readable g" and "fits n g" and "n + length (events b) < 2 ^ 62"
    and "rlb_read_line READLINE_LINE_BUF_SIZE b = Some (lnsz, s, b')"
  obtains (short) "\<not> 4 \<le> lnsz" "open_conn b'" "n + length (events b') < 2 ^ 62"
      "length (events b') < length (events b)"
  | (line) g' n' where "4 \<le> lnsz" "append_line (line_after line s) lnsz g = Some (Inr g')"
      "check_chars mark_tests (line_after line s) = Inr (final_line s)"
      "readable g'" "fits n' g'" "open_conn b'" "n' + length (events b') < 2 ^ 62"
      "length (events b') < length (events b)"
proof -
  obtain k where k: "lnsz = of_nat k" "k \<le> 1024" "k = length s \<or> k = 1024 \<and> length s = 1023"
    "k + length (events b') < length (events b)" "open_conn b'"
    using read_line_open [OF assms(1,5)] .
  have u: "unat lnsz = k" using k(1,2) by (simp add: unat_of_nat_small)
  show thesis
  proof (cases "4 \<le> lnsz")
    case False
    with k assms(4) show thesis by (intro short) auto
  next
    case True
    then have "4 \<le> k" using u by (simp add: word_le_nat_alt)
    with k have s4: "4 \<le> length s" by auto
    have "length (cstr (drop 4 s)) \<le> k - 4" using length_cstr [of "drop 4 s"] k by auto
    then obtain g' where "append_line (line_after line s) (of_nat k) g = Some (Inr g')"
      "fits (n + k) g'" "readable g'"
      using readable_append [OF assms(2,3) \<open>4 \<le> k\<close> _ load_line [OF s4]] k(4) assms(4) by auto
    then show thesis using True k assms(4) check_final [OF s4]
      by (intro line) (auto simp: add.assoc)
  qed
qed

lemma read_mark_loop_safe:
  assumes "open_conn b" and "readable g" and "fits n g" and "n + length (events b) < 2 ^ 62"
  shows "read_mark_loop line g b = None \<or>
    (\<exists>code g' b' n'. read_mark_loop line g b = Some (Inr (code, g', b')) \<and> readable g' \<and> fits n' g')"
  using assms
proof (induction "length (events b)" arbitrary: line g b n rule: less_induct)
  case less
  show ?case
  proof (cases "rlb_read_line READLINE_LINE_BUF_SIZE b")
    case None
    then show ?thesis by (subst read_mark_loop.simps) simp
  next
    case (Some r)
    then obtain lnsz s b' where r: "rlb_read_line READLINE_LINE_BUF_SIZE b = Some (lnsz, s, b')"
      by (cases r) auto
    from less.prems r show ?thesis
    proof (cases rule: read_mark_round [where line = line])
      case short
      with r have eq: "read_mark_loop line g b = read_mark_loop (line_after line s) g b'"
        by (subst read_mark_loop.simps) (simp add: Let_def)
      from short less.hyps [of b' g n "line_after line s"] less.prems(2,3)
      show ?thesis unfolding eq by simp
    next
      case (line g' n')
      show ?thesis
      proof (cases "final_line s")
        case True
        with line r have "read_mark_loop line g b = Some (Inr (mark_code s, g', b'))"
          by (subst read_mark_loop.simps) (simp add: Let_def)
        with line show ?thesis by auto
      next
        case False
        with line r have eq: "read_mark_loop line g b = read_mark_loop (line_after line s) g' b'"
          by (subst read_mark_loop.simps) (simp add: Let_def)
        from less.hyps [of b' g' n' "line_after line s"] line show ?thesis unfolding eq by simp
      qed
    qed
  qed
qed

lemma readable_init: "readable xbuf_init"
  by (simp add: readable_def xbuf_init_def)

text \<open>The last store, and the string the callback finds.\<close>

lemma readable_close:
  assumes "readable g" and "fits n g"
  obtains m s where "store (xmem g) (unat (xlen g)) [NUL] = Inr m" and "load_str m = Inr s"
    and "\<And>t. NUL \<notin> set t \<Longrightarrow> take (unat (xlen g)) (xmem g) = map Some t \<Longrightarrow> s = t"
proof -
  let ?l = "unat (xlen g)"
  have "?l + length [NUL] \<le> length (xmem g)" using assms(2) by (simp add: fits_def)
  then have st: "store (xmem g) ?l [NUL] = Inr (take ?l (xmem g) @ map Some [NUL] @ drop (?l + length [NUL]) (xmem g))"
    by (rule store_fits)
  obtain t r where t: "NUL \<notin> set t"
    "take ?l (xmem g) = map Some t \<or> take ?l (xmem g) = map Some t @ Some NUL # r"
    using assms(1) by (auto simp: readable_def)
  have ld: "load_str (take ?l (xmem g) @ map Some [NUL] @ drop (?l + length [NUL]) (xmem g)) = Inr t"
    using t by (auto simp: load_str_map)
  have "t = t'" if "NUL \<notin> set t'" "take ?l (xmem g) = map Some t'" for t'
    using ld load_str_map [OF that(1)] that(2) by simp
  with st ld that show thesis by blast
qed

section \<open>What the reply reader returns\<close>

text \<open>
  The specification, on whole lines: lines of fewer than four characters are skipped, the text
  behind the first four characters of the others is collected, each with a line feed, up to
  the first line that starts with three digits and a space. The result is the code of that
  line, the text, and the lines that follow.
\<close>

fun mark_text :: "string list \<Rightarrow> (nat \<times> string \<times> string list) option" where
  "mark_text [] = None"
| "mark_text (l # ls) =
     (if 4 \<le> length l then
        if final_line l then Some (mark_code l, drop 4 l @ [LF], ls)
        else map_option (\<lambda>(c, t, r). (c, drop 4 l @ [LF] @ t, r)) (mark_text ls)
      else mark_text ls)"

definition line_events :: "string list \<Rightarrow> (char \<times> bool) list" where
  "line_events ls = concat (map (\<lambda>l. map (\<lambda>c. (c, False)) l @ [(LF, False)]) ls)"

definition plain_line :: "string \<Rightarrow> bool" where
  "plain_line l \<longleftrightarrow> LF \<notin> set l \<and> NUL \<notin> set l \<and> length l < 1024"

lemma line_events_simps [simp]:
  "line_events [] = []"
  "line_events (l # ls) = map (\<lambda>c. (c, False)) l @ (LF, False) # line_events ls"
  "line_events (ls @ ls') = line_events ls @ line_events ls'"
  by (simp_all add: line_events_def)

lemma holds_append:
  assumes "holds t g" and "NUL \<notin> set t" and "4 \<le> length l" and "NUL \<notin> set l"
    and "length t + length l < 2 ^ 62"
  obtains g' where "append_line (line_after line l) (of_nat (length l)) g = Some (Inr g')"
    and "holds (t @ drop 4 l @ [LF]) g'"
proof -
  let ?s = "drop 4 l" and ?k = "length l"
  have h: "fits (length t) g" "unat (xlen g) = length t" "take (length t) (xmem g) = map Some t"
    using assms(1) by (auto simp: holds_def)
  have "NUL \<notin> set ?s" using assms(4) by (auto dest: in_set_dropD)
  then have ld: "load_str (drop 4 (line_after line l)) = Inr ?s"
    using load_line [OF assms(3)] cstr_id by metis
  obtain cap m where a: "append_line (line_after line l) (of_nat ?k) g =
       Some (Inr \<lparr>xcap = cap, xlen = xlen g + of_nat (?k - 4) + 1, xmem = m\<rparr>)"
    and f: "fits (length t + ?k) \<lparr>xcap = cap, xlen = xlen g + of_nat (?k - 4) + 1, xmem = m\<rparr>"
    and B: "length ?s = ?k - 4 \<longrightarrow> take (unat (xlen g) + ?k - 3) m =
        take (unat (xlen g)) (xmem g) @ map Some ?s @ [Some LF]"
    and l: "unat (xlen g + of_nat (?k - 4) + 1) = unat (xlen g) + ?k - 3"
    by (rule append_line_grow [OF h(1) assms(3,5) ld]) simp
  have n: "length (t @ ?s @ [LF]) = length t + ?k - 3" using assms(3) by simp
  have "holds (t @ ?s @ [LF]) \<lparr>xcap = cap, xlen = xlen g + of_nat (?k - 4) + 1, xmem = m\<rparr>"
    unfolding holds_def n using f l B h(2,3) by (simp add: fits_def)
  with a show thesis by (rule that)
qed

lemma read_mark_loop_reads:
  assumes "events b = line_events ls @ es" and "\<not> no_more b" and "\<forall>l \<in> set ls. plain_line l"
    and "mark_text ls = Some (c, t, r)" and "holds t0 g" and "NUL \<notin> set t0"
    and "length t0 + length (line_events ls) < 2 ^ 62"
  shows "\<exists>g' b'. read_mark_loop line g b = Some (Inr (c, g', b')) \<and> holds (t0 @ t) g' \<and>
    NUL \<notin> set t \<and> events b' = line_events r @ es \<and> \<not> no_more b'"
  using assms
proof (induction ls arbitrary: line g b t0 t)
  case Nil
  then show ?case by simp
next
  case (Cons l ls)
  have pl: "LF \<notin> set l" "NUL \<notin> set l" "length l < 1024"
    using Cons.prems(3) by (auto simp: plain_line_def)
  obtain b' where b': "rlb_read_line 1024 b = Some (of_nat (length l), l, b')"
    "events b' = line_events ls @ es" "\<not> no_more b'"
    by (rule rlb_read_line_Some [of 1024 b l "line_events ls @ es"])
       (use Cons.prems(1,2) pl in auto)
  have n4: "(4 :: size_t) \<le> of_nat (length l) \<longleftrightarrow> 4 \<le> length l"
    using pl(3) by (simp add: word_le_nat_alt unat_of_nat_small)
  show ?case
  proof (cases "4 \<le> length l")
    case False
    with b' n4 have "read_mark_loop line g b = read_mark_loop (line_after line l) g b'"
      by (subst read_mark_loop.simps) (simp add: Let_def READLINE_LINE_BUF_SIZE_def)
    moreover from False Cons.prems b' have "mark_text ls = Some (c, t, r)" by simp
    ultimately show ?thesis
      using Cons.IH [of b' t t0 g "line_after line l"] Cons.prems b' by simp
  next
    case True
    have "length t0 + length l < 2 ^ 62" using Cons.prems(7) by simp
    then obtain g' where g': "append_line (line_after line l) (of_nat (length l)) g = Some (Inr g')"
      "holds (t0 @ drop 4 l @ [LF]) g'"
      using holds_append [OF Cons.prems(5,6) True pl(2)] by blast
    have step: "read_mark_loop line g b =
        (if final_line l then Some (Inr (mark_code l, g', b'))
         else read_mark_loop (line_after line l) g' b')"
      using b'(1) n4 True g'(1) check_final [OF True]
      by (subst read_mark_loop.simps) (simp add: Let_def READLINE_LINE_BUF_SIZE_def)
    have free: "NUL \<notin> set (drop 4 l @ [LF])" using pl(2) by (auto dest: in_set_dropD)
    show ?thesis
    proof (cases "final_line l")
      case fin: True
      with Cons.prems(4) True have "c = mark_code l" "t = drop 4 l @ [LF]" "r = ls" by auto
      with step fin g' b' free show ?thesis by simp
    next
      case nfin: False
      with Cons.prems(4) True obtain t' where t': "mark_text ls = Some (c, t', r)"
        "t = drop 4 l @ [LF] @ t'" by auto
      have "\<exists>g'' b''. read_mark_loop (line_after line l) g' b' = Some (Inr (c, g'', b'')) \<and>
          holds ((t0 @ drop 4 l @ [LF]) @ t') g'' \<and> NUL \<notin> set t' \<and>
          events b'' = line_events r @ es \<and> \<not> no_more b''"
        using Cons.prems b' t' g'(2) free True by (intro Cons.IH) auto
      with step nfin t'(2) free show ?thesis by auto
    qed
  qed
qed

lemma holds_readable: "holds t g \<Longrightarrow> NUL \<notin> set t \<Longrightarrow> readable g"
  by (auto simp: holds_def readable_def)

lemma read_mark_reads:
  assumes "events b = line_events ls @ es" and "\<not> no_more b" and "\<forall>l \<in> set ls. plain_line l"
    and "mark_text ls = Some (c, t, r)" and "length (line_events ls) < 2 ^ 62"
  shows "\<exists>m b'. read_mark_thr True b = Some (Inr (Some (c, m), b')) \<and> read_mark_cb (c, m) = Inr (c, t) \<and>
    events b' = line_events r @ es \<and> \<not> no_more b'"
proof -
  obtain g b' where g: "read_mark_loop (malloc READLINE_LINE_BUF_SIZE) xbuf_init b = Some (Inr (c, g, b'))"
    "holds t g" "NUL \<notin> set t" "events b' = line_events r @ es" "\<not> no_more b'"
    using read_mark_loop_reads [OF assms(1-4) holds_init, of "malloc READLINE_LINE_BUF_SIZE"] assms(5)
    by auto
  obtain m s where "store (xmem g) (unat (xlen g)) [NUL] = Inr m" "load_str m = Inr s"
    "\<And>t. NUL \<notin> set t \<Longrightarrow> take (unat (xlen g)) (xmem g) = map Some t \<Longrightarrow> s = t"
    using readable_close [OF holds_readable [OF g(2,3)], of "length t"] g(2)
    by (auto simp: holds_def)
  moreover from this(3) [OF g(3)] g(2) have "s = t" by (simp add: holds_def)
  ultimately show ?thesis
    using g by (simp add: read_mark_thr_def read_mark_cb_def)
qed

text \<open>
  C16. The reply reader implements its specification: on lines without NUL that fit the line
  buffer, however \<open>read()\<close> splits them, the callback gets the code of the first final line
  and the text of the lines up to it, and the lines that follow stay in the buffer.
\<close>

theorem read_mark_refines:
  assumes "events b = line_events ls @ es" and "\<not> no_more b" and "\<forall>l \<in> set ls. plain_line l"
    and "mark_text ls = Some (c, t, r)" and "length (line_events ls) < 2 ^ 62"
  shows "\<exists>m b'. read_mark_thr True b = Some (Inr (Some (c, m), b')) \<and> read_mark_cb (c, m) = Inr (c, t) \<and>
    events b' = line_events r @ es \<and> \<not> no_more b'"
  using assms by (rule read_mark_reads)

text \<open>A reply of two lines after a stray short line, in three pieces, and the next reply.\<close>

definition two_replies :: rlb where
  "two_replies = rlb_init [Data ''x'', Data (LF # ''220-Hel''), Data (''lo'' @ CR # LF # ''220 there'' @ [CR, LF]),
     Data (''331 Pass'' @ [LF])]"

lemma two_replies_events:
  "events two_replies = line_events [''x'', ''220-Hello'', ''220 there'', ''331 Pass''] @ []"
  by (simp add: two_replies_def events_def rlb_init_def)

theorem read_mark_refines_witness:
  "\<exists>m b'. read_mark_thr True two_replies = Some (Inr (Some (220, m), b')) \<and>
    read_mark_cb (220, m) = Inr (220, ''Hello'' @ LF # ''there'' @ [LF]) \<and>
    events b' = line_events [''331 Pass''] @ [] \<and> \<not> no_more b'"
proof (rule read_mark_refines)
  show "events two_replies = line_events [''x'', ''220-Hello'', ''220 there'', ''331 Pass''] @ []"
    by (rule two_replies_events)
  show "mark_text [''x'', ''220-Hello'', ''220 there'', ''331 Pass''] =
      Some (220, ''Hello'' @ LF # ''there'' @ [LF], [''331 Pass''])"
    by (simp add: final_line_def mark_code_def isdigit_def digit_val_def less_eq_char_def numeral_eq_Suc)
qed (simp_all add: plain_line_def two_replies_def rlb_init_def)

lemma reader_in_bounds:
  assumes "open_conn b" and "length (events b) < 2 ^ 62"
  shows "case read_mark_thr n b of
      None \<Rightarrow> True
    | Some (Inl e) \<Rightarrow> False
    | Some (Inr (q, b')) \<Rightarrow> if n then \<exists>p s. q = Some p \<and> read_mark_cb p = Inr (fst p, s) else q = None"
proof (cases "read_mark_loop (malloc READLINE_LINE_BUF_SIZE) xbuf_init b")
  case None
  then show ?thesis by (simp add: read_mark_thr_def)
next
  case (Some r)
  with read_mark_loop_safe [OF assms(1) readable_init fits_init, of "malloc READLINE_LINE_BUF_SIZE"] assms(2)
  obtain c g b' n' where l: "read_mark_loop (malloc READLINE_LINE_BUF_SIZE) xbuf_init b = Some (Inr (c, g, b'))"
    "readable g" "fits n' g" by auto
  obtain m s where "store (xmem g) (unat (xlen g)) [NUL] = Inr m" "load_str m = Inr s"
    using readable_close [OF l(2,3)] by metis
  then show ?thesis by (simp add: read_mark_thr_def read_mark_cb_def l(1))
qed

text \<open>
  C17. On a connection that stays open the reply reader never touches a cell outside its
  buffers or an indeterminate one, whatever the server sends (lines of any length, NUL bytes,
  up to \<open>2 ^ 62\<close> bytes), and its callback finds a C string.
\<close>

theorem read_mark_in_bounds:
  assumes "open_conn b" and "length (events b) < 2 ^ 62"
  shows "case read_mark_thr True b of
      None \<Rightarrow> True
    | Some (Inl e) \<Rightarrow> False
    | Some (Inr (q, b')) \<Rightarrow> (\<exists>p s. q = Some p \<and> read_mark_cb p = Inr (fst p, s))"
  using reader_in_bounds [OF assms, of True] by (simp only: if_True)

theorem read_mark_in_bounds_witness:
  "case read_mark_thr True two_replies of
      None \<Rightarrow> True
    | Some (Inl e) \<Rightarrow> False
    | Some (Inr (q, b')) \<Rightarrow> (\<exists>p s. q = Some p \<and> read_mark_cb p = Inr (fst p, s))"
  by (rule read_mark_in_bounds)
     (simp_all add: open_conn_def two_replies_events, simp_all add: two_replies_def rlb_init_def)

section \<open>A connection that is closed before the last line\<close>

text \<open>\<open>rlb_read_line\<close> returns \<open>-1\<close>, which as a \<open>size_t\<close> passes the test \<open>lnsz >= 4\<close>.\<close>

lemma read_line_closed:
  assumes "events b = (LF, True) # es"
  obtains b' where "rlb_read_line READLINE_LINE_BUF_SIZE b = Some (-1, [], b')" and "events b' = es"
proof -
  have "map_option (\<lambda>(n, s, b'). (n, s, events b', no_more b')) (rlb_read_line 1024 b) =
      Some (-1, [], es, True)"
    using read_line_eq_spec [of 1024 b] assms by (simp add: read_line_spec_def)
  with that show thesis by (auto simp: READLINE_LINE_BUF_SIZE_def)
qed

lemma minus_one_ge: "4 \<le> (-1 :: size_t)"
  by simp

text \<open>
  C38. When the server closes the connection before its reply has begun, the thread never
  ends: the \<open>-1\<close> makes the doubling loop run for ever, whatever could still arrive.
\<close>

theorem read_mark_closed_hangs:
  assumes "events b = (LF, True) # es"
  shows "read_mark_thr n b = None"
proof -
  obtain b' where "rlb_read_line READLINE_LINE_BUF_SIZE b = Some (-1, [], b')"
    using read_line_closed [OF assms] .
  moreover have "grow (0 + -1 - 3) (64 :: size_t) = None"
    by (rule grow_never [of _ 0]) simp_all
  ultimately have "read_mark_loop (malloc READLINE_LINE_BUF_SIZE) xbuf_init b = None"
    by (subst read_mark_loop.simps) (simp add: append_line_def xbuf_init_def Let_def)
  then show ?thesis by (simp add: read_mark_thr_def)
qed

theorem read_mark_closed_hangs_witness: "read_mark_thr True (rlb_init [Data [], Data ''220 x'']) = None"
  by (rule read_mark_closed_hangs) (simp add: events_def rlb_init_def)

lemma append_line_cap:
  "append_line line n g = Some (Inr g') \<Longrightarrow> grow (xlen g + n - 3) (xcap g) = Some (xcap g')"
  by (auto simp: append_line_def Let_def bind_res_eq_Inr split: option.splits)

text \<open>
  C37. When the connection is closed after the first line of a longer reply, and that line has 32 to
  60 characters of text behind its code, the thread copies the old line once more and writes behind
  its heap buffer of 64 bytes. (After a shorter line \<open>len + (-1) - 3\<close> wraps to a huge number, and
  the loop that grows the buffer never ends.)
\<close>

theorem read_mark_overruns:
  assumes "events b = line_events [pfx @ x] @ (LF, True) # es" and "\<not> no_more b"
    and "plain_line (pfx @ x)" and "length pfx = 4" and "\<not> final_line (pfx @ x)"
    and "32 \<le> length x" and "length x \<le> 60"
  shows "read_mark_thr n b = Some (Inl OVERRUN)"
proof -
  let ?l = "pfx @ x" and ?m = "malloc READLINE_LINE_BUF_SIZE"
  have pl: "LF \<notin> set ?l" "NUL \<notin> set ?l" "length ?l < 1024" using assms(3) by (simp_all add: plain_line_def)
  have k: "length ?l = 4 + length x" using assms(4) by simp
  obtain b1 where b1: "rlb_read_line 1024 b = Some (of_nat (length ?l), ?l, b1)" "events b1 = (LF, True) # es"
    by (rule rlb_read_line_Some [of 1024 b ?l "(LF, True) # es"]) (use assms(1,2) pl in auto)
  obtain b2 where b2: "rlb_read_line READLINE_LINE_BUF_SIZE b1 = Some (-1, [], b2)"
    using read_line_closed [OF b1(2)] .
  obtain g where g: "append_line (line_after ?m ?l) (of_nat (length ?l)) xbuf_init = Some (Inr g)"
    "holds ([] @ drop 4 ?l @ [LF]) g"
    by (rule holds_append [OF holds_init _ _ pl(2)]) (use k assms(7) in simp_all)
  have n: "unat (of_nat (length ?l) :: size_t) = 4 + length x"
    unfolding k by (rule unat_of_nat_small) (use assms(7) in simp)
  have "unat (of_nat (length ?l) - of_nat 3 :: size_t) = 1 + length x"
    using n by (subst unat_minus_small) simp_all
  then have "\<not> 64 \<le> (0 + of_nat (length ?l) - 3 :: size_t)" using assms(7) by (simp add: word_le_nat_alt)
  then have "grow (0 + of_nat (length ?l) - 3) 64 = Some 64" by (subst grow.simps) simp
  with append_line_cap [OF g(1)] have cap: "xcap g = 64" by (simp add: xbuf_init_def)
  have len: "unat (xlen g) = 1 + length x" and mem: "length (xmem g) = 64"
    using g(2) assms(4) cap by (simp_all add: holds_def fits_def)
  have "unat (xlen g - of_nat 4) = length x - 3"
    using len assms(6) by (subst unat_minus_small) simp_all
  then have "\<not> 64 \<le> xlen g + -1 - 3" using assms(7) by (simp add: word_le_nat_alt)
  then have gr: "grow (xlen g + -1 - 3) (xcap g) = Some 64" unfolding cap by (subst grow.simps) simp
  have "drop 4 (line_after Y []) = drop 4 Y" for Y
    by (simp add: line_after_def drop_Cons')
  with load_line [of ?l ?m] k have "load_str (drop 4 (line_after (line_after ?m ?l) [])) = Inr (cstr (drop 4 ?l))"
    by simp
  also have "cstr (drop 4 ?l) = x" using pl(2) assms(4) by (simp add: cstr_id)
  finally have "load_str (drop 4 (line_after (line_after ?m ?l) [])) = Inr x" .
  moreover have "store (realloc (xmem g) (unat (64 :: size_t))) (unat (xlen g)) (x @ [NUL]) = Inl OVERRUN"
    using len assms(6) by (simp add: store_def)
  ultimately have over: "append_line (line_after (line_after ?m ?l) []) (-1) g = Some (Inl OVERRUN)"
    using gr by (simp add: append_line_def Let_def)
  have "read_mark_loop (line_after ?m ?l) g b1 = Some (Inl OVERRUN)"
    using b2 over by (subst read_mark_loop.simps) (simp add: Let_def)
  moreover have "(4 :: size_t) \<le> of_nat (length ?l)" using n by (simp add: word_le_nat_alt)
  moreover have "check_chars mark_tests (line_after ?m ?l) = Inr False"
    using check_final [of ?l ?m] assms(5) k by simp
  ultimately have "read_mark_loop ?m xbuf_init b = Some (Inl OVERRUN)"
    using b1(1) g(1) by (subst read_mark_loop.simps) (simp add: Let_def READLINE_LINE_BUF_SIZE_def)
  then show ?thesis by (simp add: read_mark_thr_def)
qed

theorem read_mark_overruns_witness:
  "read_mark_thr True (rlb_init [Data (''220-'' @ replicate 40 (CHR ''x'') @ [LF]), Data []]) =
     Some (Inl OVERRUN)"
  by (rule read_mark_overruns [where pfx = "''220-''" and x = "replicate 40 (CHR ''x'')" and es = "[]"])
     (simp_all add: events_def rlb_init_def plain_line_def final_line_def chars_of_def)

section \<open>Replies travel from the server to the client\<close>

text \<open>The text of a reply as the client gets it: the message, ended by a line feed.\<close>

definition ended :: "string \<Rightarrow> string" where
  "ended msg = (if msg \<noteq> [] \<and> last msg = LF then msg else msg @ [LF])"

text \<open>A message whose lines fit the line buffer of the client with the four characters before them.\<close>

definition sendable :: "string \<Rightarrow> bool" where
  "sendable msg \<longleftrightarrow> NUL \<notin> set msg \<and> CR \<notin> set msg \<and> (\<forall>l \<in> set (split_at LF msg). length l < 1020)"

lemma final_line_Cons: "final_line (a # b # c # d # l) \<longleftrightarrow> isdigit a \<and> isdigit b \<and> isdigit c \<and> d = CHR '' ''"
  by (simp add: final_line_def numeral_eq_Suc)

lemma mark_code_Cons: "mark_code (a # b # c # l) = digit_val a * 100 + digit_val b * 10 + digit_val c"
  by (simp add: mark_code_def numeral_eq_Suc)

lemma mark_prefix_lines:
  assumes "code < 1000"
  shows "final_line (mark_prefix code @ CHR '' '' # l)" and "\<not> final_line (mark_prefix code @ CHR ''-'' # l)"
    and "mark_code (mark_prefix code @ c # l) = code" and "length (mark_prefix code) = 3"
proof -
  have "code div 100 < 10" using assms by (simp add: less_mult_imp_div_less)
  then have "code div 100 mod 10 = code div 100" by simp
  moreover have "code div 100 = code div 10 div 10" by (simp add: div_mult2_eq [symmetric])
  ultimately have "code div 100 mod 10 * 100 + code div 10 mod 10 * 10 + code mod 10 = code"
    using div_mult_mod_eq [of "code div 10" 10] div_mult_mod_eq [of code 10] by linarith
  moreover have "mark_code (mark_prefix code @ c # l) =
      code div 100 mod 10 * 100 + code div 10 mod 10 * 10 + code mod 10"
    unfolding mark_prefix_def append_Cons mark_code_Cons by simp
  ultimately show "mark_code (mark_prefix code @ c # l) = code" by (rule trans [rotated])
qed (simp_all add: final_line_Cons mark_prefix_def)

lemma digit_char_plain:
  assumes "k < 10"
  shows "digit_char k \<noteq> LF" and "digit_char k \<noteq> CR" and "digit_char k \<noteq> NUL"
proof -
  have "of_char (digit_char k) = 48 + k" using assms by (rule of_char_digit)
  then show "digit_char k \<noteq> LF" and "digit_char k \<noteq> CR" and "digit_char k \<noteq> NUL" by auto
qed

lemma mark_prefix_plain: "LF \<notin> set (mark_prefix c)" "CR \<notin> set (mark_prefix c)" "NUL \<notin> set (mark_prefix c)"
  using digit_char_plain by (auto simp: mark_prefix_def dest: sym)

lemma chars_of_free: "CR \<notin> set s \<Longrightarrow> chars_of s = map (\<lambda>c. (c, False)) s"
  by (induction s) auto

lemma send_mark_lines_text:
  assumes "code < 1000" and "sendable msg"
  shows "\<exists>ls. chars_of (concat (send_mark_lines (mark_prefix code) msg)) = line_events ls \<and>
    (\<forall>l \<in> set ls. plain_line l) \<and> (\<forall>more. mark_text (ls @ more) = Some (code, ended msg, more))"
  using assms(2)
proof (induction "length msg" arbitrary: msg rule: less_induct)
  case less
  let ?p = "mark_prefix code" and ?l = "takeWhile (\<lambda>c. c \<noteq> LF) msg" and ?d = "dropWhile (\<lambda>c. c \<noteq> LF) msg"
  have msg: "msg = ?l @ ?d" by simp
  have ld: "?l \<in> set (split_at LF msg)" and dl: "\<And>ys. ?d = LF # ys \<Longrightarrow> split_at LF msg = ?l # split_at LF ys"
  proof -
    have free: "LF \<notin> set ?l" by (auto dest: set_takeWhileD)
    show dl: "\<And>ys. ?d = LF # ys \<Longrightarrow> split_at LF msg = ?l # split_at LF ys"
      using split_at_append_sep [OF free] msg by metis
    show "?l \<in> set (split_at LF msg)"
    proof (cases ?d)
      case Nil
      then have "msg = ?l" using msg by (metis append_Nil2)
      then show ?thesis using split_at_no_sep [OF free] by (metis list.set_intros(1))
    next
      case (Cons c ys)
      then have "c = LF" using hd_dropWhile [of "\<lambda>c. c \<noteq> LF" msg] by (metis list.sel(1) list.simps(3))
      with dl Cons show ?thesis by simp
    qed
  qed
  have l: "NUL \<notin> set ?l" "CR \<notin> set ?l" "LF \<notin> set ?l" "length ?l < 1020"
    using less.prems ld by (auto simp: sendable_def dest: set_takeWhileD)
  have pc: "plain_line (?p @ c # ?l)" if "c = CHR '' '' \<or> c = CHR ''-''" for c
    using that l mark_prefix_plain [of code] mark_prefix_lines(4) [OF assms(1)] by (auto simp: plain_line_def)
  have ev: "chars_of (?p @ c # ?l @ [CR, LF]) = line_events [?p @ c # ?l]" if "c = CHR '' '' \<or> c = CHR ''-''" for c
    using that l(2) mark_prefix_plain(2) [of code] by (auto simp: chars_of_free)
  have dr: "drop 4 (?p @ c # ?l) = ?l" and p4: "4 \<le> length (?p @ c # ?l)" for c
    using mark_prefix_lines(4) [OF assms(1)] by (simp_all add: numeral_eq_Suc)
  show ?case
  proof (cases "?d = [] \<or> tl ?d = []")
    case True
    have "?d \<noteq> [] \<Longrightarrow> ?d = [LF]" using True hd_dropWhile [of "\<lambda>c. c \<noteq> LF" msg]
      by (cases ?d) (auto simp del: dropWhile_eq_Nil_conv)
    then have "ended msg = ?l @ [LF]"
    proof (cases "?d = []")
      case d: True
      with msg have "msg = ?l" by (metis append_Nil2)
      with l(3) have "\<not> (msg \<noteq> [] \<and> last msg = LF)" by (metis last_in_set)
      with \<open>msg = ?l\<close> show ?thesis unfolding ended_def by auto
    next
      case False
      then have "msg = ?l @ [LF]" using \<open>?d \<noteq> [] \<Longrightarrow> ?d = [LF]\<close> msg by metis
      then show ?thesis unfolding ended_def by (metis last_snoc snoc_eq_iff_butlast)
    qed
    moreover have "send_mark_lines ?p msg = [?p @ [CHR '' ''], ?l, [CR, LF]]"
      using True by (subst send_mark_lines.simps) (simp add: Let_def del: dropWhile_eq_Nil_conv)
    ultimately show ?thesis
      using ev [of "CHR '' ''"] pc [of "CHR '' ''"] mark_prefix_lines(1,3) [OF assms(1)] p4 dr
      by (intro exI [of _ "[?p @ CHR '' '' # ?l]"]) simp
  next
    case False
    then obtain ys where d: "?d = LF # ys" "ys \<noteq> []"
      using hd_dropWhile [of "\<lambda>c. c \<noteq> LF" msg] by (cases ?d) (auto simp del: dropWhile_eq_Nil_conv)
    have m: "msg = ?l @ LF # ys" using msg d by metis
    have "set ys \<subseteq> set msg" by (subst m) auto
    then have "sendable ys" using less.prems dl [OF d(1)] by (auto simp: sendable_def)
    moreover have "length ys < length msg" by (subst m) simp
    ultimately obtain ls where ls: "chars_of (concat (send_mark_lines ?p ys)) = line_events ls"
      "\<forall>l \<in> set ls. plain_line l" "\<forall>more. mark_text (ls @ more) = Some (code, ended ys, more)"
      using less.hyps by blast
    have "send_mark_lines ?p msg = [?p @ [CHR ''-''], ?l, [CR, LF]] @ send_mark_lines ?p ys"
      using d by (subst send_mark_lines.simps) (simp add: Let_def del: dropWhile_eq_Nil_conv)
    moreover have "ended msg = ?l @ [LF] @ ended ys"
      using d(2) by (subst m) (auto simp: ended_def)
    ultimately show ?thesis
      using ev [of "CHR ''-''"] pc [of "CHR ''-''"] mark_prefix_lines(2) [OF assms(1)] p4 dr ls
      by (intro exI [of _ "(?p @ CHR ''-'' # ?l) # ls"]) simp
  qed
qed

text \<open>
  The contract of a reply channel: \<open>recv\<close> takes exactly what \<open>emit\<close> wrote off the front of
  what is to come and returns the code and the message in its received form. It is what the
  client program relies on, and it extends to any number of replies sent one after the other.
\<close>

fun receive_n :: "('b \<Rightarrow> ('a \<times> 'b) option) \<Rightarrow> nat \<Rightarrow> 'b \<Rightarrow> ('a list \<times> 'b) option" where
  "receive_n recv 0 b = Some ([], b)"
| "receive_n recv (Suc n) b =
     (case recv b of
        None \<Rightarrow> None
      | Some (r, b') \<Rightarrow> map_option (\<lambda>(rs, b''). (r # rs, b'')) (receive_n recv n b'))"

locale reply_channel =
  fixes emit :: "nat \<Rightarrow> string \<Rightarrow> string"
    and recv :: "'b \<Rightarrow> ((nat \<times> string) \<times> 'b) option"
    and ready :: "'b \<Rightarrow> string \<Rightarrow> bool"
    and good :: "nat \<Rightarrow> string \<Rightarrow> bool"
    and norm :: "string \<Rightarrow> string"
  assumes recv_emit: "good c m \<Longrightarrow> ready b (emit c m @ rest) \<Longrightarrow>
    \<exists>b'. recv b = Some ((c, norm m), b') \<and> ready b' rest"
begin

lemma recv_all:
  assumes "list_all (\<lambda>(c, m). good c m) rs" and "ready b (concat (map (\<lambda>(c, m). emit c m) rs) @ rest)"
  shows "\<exists>b'. receive_n recv (length rs) b = Some (map (\<lambda>(c, m). (c, norm m)) rs, b') \<and> ready b' rest"
  using assms
proof (induction rs arbitrary: b)
  case Nil
  then show ?case by simp
next
  case (Cons r rs)
  obtain c m where r: "r = (c, m)" by (cases r)
  with Cons.prems recv_emit [of c m b] obtain b' where b': "recv b = Some ((c, norm m), b')"
    "ready b' (concat (map (\<lambda>(c, m). emit c m) rs) @ rest)"
    by auto
  with Cons.IH [of b'] Cons.prems(1) r show ?case by auto
qed

end

text \<open>The receiving end of the client: the thread, then the callback it queues.\<close>

definition read_reply :: "rlb \<Rightarrow> ((nat \<times> string) \<times> rlb) option" where
  "read_reply b =
     (case read_mark_thr True b of
        Some (Inr (Some p, b')) \<Rightarrow>
          (case read_mark_cb p of Inr r \<Rightarrow> Some (r, b') | Inl e \<Rightarrow> None)
      | _ \<Rightarrow> None)"

definition reply_ready :: "(char \<times> bool) list \<Rightarrow> rlb \<Rightarrow> string \<Rightarrow> bool" where
  "reply_ready es b s \<longleftrightarrow> events b = chars_of s @ es \<and> \<not> no_more b \<and> length (chars_of s) < 2 ^ 62"

definition reply_good :: "nat \<Rightarrow> string \<Rightarrow> bool" where
  "reply_good c m \<longleftrightarrow> c < 1000 \<and> sendable m"

interpretation replies: reply_channel mark_bytes read_reply "reply_ready es" reply_good ended for es
proof unfold_locales
  fix c m b rest
  assume g: "reply_good c m" and r: "reply_ready es b (mark_bytes c m @ rest)"
  obtain ls where ls: "chars_of (mark_bytes c m) = line_events ls" "\<forall>l \<in> set ls. plain_line l"
    "\<forall>more. mark_text (ls @ more) = Some (c, ended m, more)"
    using send_mark_lines_text [of c m] g by (auto simp: mark_bytes_def send_mark_def reply_good_def)
  have "events b = line_events ls @ (chars_of rest @ es)" using r ls(1) by (simp add: reply_ready_def)
  moreover have "mark_text ls = Some (c, ended m, [])" using ls(3) [rule_format, of "[]"] by simp
  moreover have "length (line_events ls) < 2 ^ 62" using r ls(1) by (simp add: reply_ready_def)
  ultimately obtain p b' where "read_mark_thr True b = Some (Inr (Some (c, p), b'))"
    "read_mark_cb (c, p) = Inr (c, ended m)" "events b' = chars_of rest @ es" "\<not> no_more b'"
    using read_mark_reads [of b ls "chars_of rest @ es" c "ended m" "[]"] ls(2) r
    by (auto simp: reply_ready_def)
  then show "\<exists>b'. read_reply b = Some ((c, ended m), b') \<and> reply_ready es b' rest"
    using r by (simp add: read_reply_def reply_ready_def)
qed

text \<open>
  C5. Replies survive the journey: what the server writes with \<open>send_mark\<close>, one reply after
  another, the client reads back in order, each with its code and its message (ended by a line
  feed), however the network splits the bytes, and what follows the replies is left untouched.
\<close>

theorem replies_roundtrip:
  assumes "list_all (\<lambda>(c, m). reply_good c m) rs"
    and "events b = chars_of (concat (map (\<lambda>(c, m). mark_bytes c m) rs)) @ es" and "\<not> no_more b"
    and "length (chars_of (concat (map (\<lambda>(c, m). mark_bytes c m) rs))) < 2 ^ 62"
  shows "\<exists>b'. receive_n read_reply (length rs) b = Some (map (\<lambda>(c, m). (c, ended m)) rs, b') \<and>
    events b' = es \<and> \<not> no_more b'"
  using replies.recv_all [OF assms(1), of es b "[]"] assms(2-4) by (auto simp: reply_ready_def)

lemma mark_bytes_2:
  "mark_bytes 150 (CHR ''a'' # LF # ''b'') = ''150-a'' @ [CR, LF] @ ''150 b'' @ [CR, LF]"
  "mark_bytes 226 ''ok'' = ''226 ok'' @ [CR, LF]"
  by (simp_all add: mark_bytes_def send_mark_def send_mark_lines.simps Let_def mark_prefix_def dec_simps)

theorem replies_roundtrip_witness:
  "\<exists>b'. receive_n read_reply (Suc (Suc 0))
      (rlb_init [Data ''150-'', Data (CHR ''a'' # CR # LF # ''150 b'' @ [CR]), Data (LF # ''226 ok'' @ [CR, LF]), Data []]) =
    Some ([(150, ''a'' @ LF # ''b'' @ [LF]), (226, ''ok'' @ [LF])], b') \<and> events b' = [(LF, True)] \<and> \<not> no_more b'"
proof -
  have "list_all (\<lambda>(c, m). reply_good c m) [(150, CHR ''a'' # LF # ''b''), (226, ''ok'')]"
    by (simp add: reply_good_def sendable_def)
  from replies_roundtrip [OF this,
      of "rlb_init [Data ''150-'', Data (CHR ''a'' # CR # LF # ''150 b'' @ [CR]), Data (LF # ''226 ok'' @ [CR, LF]), Data []]"
         "[(LF, True)]"]
  show ?thesis by (simp add: mark_bytes_2 events_def rlb_init_def ended_def del: receive_n.simps)
qed

end
