(* ===== verification/PathUtils.thy ===== *)
theory PathUtils
  imports Prelude
begin

text \<open>
  The path arithmetic of the server, \<^verbatim>\<open>server/path_utils.c\<close>: \<open>path_cat\<close> with its
  fixed-size buffer (every read and write of the buffer is checked against its bounds),
  \<open>path_change\<close> and \<open>path_exists\<close>. The specification is a walk over path components:
  \<open>resolve\<close> on the list of items of a path, printed by \<open>render\<close>.
\<close>

section \<open>path_cat\<close>

datatype path_error = NULL_RESULT | OUT_OF_BOUNDS

text \<open>The characters an item may hold; the inner loop of \<open>path_cat\<close> stops on any other.\<close>

definition path_char :: "char \<Rightarrow> bool" where
  "path_char c \<longleftrightarrow>
     (CHR ''0'' \<le> c \<and> c \<le> CHR ''9'') \<or>
     (CHR ''A'' \<le> c \<and> c \<le> CHR ''Z'') \<or>
     (CHR ''a'' \<le> c \<and> c \<le> CHR ''z'') \<or>
     c = CHR ''-'' \<or> c = CHR ''.'' \<or> c = CHR ''_''"

text \<open>Find the current item: the characters up to the next slash or the end.\<close>

fun scan_item :: "string \<Rightarrow> path_error + string \<times> string" where
  "scan_item [] = Inr ([], [])"
| "scan_item (c # cs) =
     (if c = SLASH then Inr ([], c # cs)
      else if \<not> path_char c then Inl NULL_RESULT
      else bind_res (scan_item cs) (\<lambda>(item, rest). Inr (c # item, rest)))"

text \<open>
  The buffer is its first \<open>len\<close> characters; \<open>cap\<close> is the size it was allocated with.
  A write at \<open>buf[len]\<close> needs \<open>len < cap\<close>, a read of \<open>buf[len - 1]\<close> needs \<open>0 < len\<close>.
\<close>

definition push_char :: "nat \<Rightarrow> string \<Rightarrow> char \<Rightarrow> path_error + string" where
  "push_char cap buf c = (if length buf < cap then Inr (buf @ [c]) else Inl OUT_OF_BOUNDS)"

fun push_item :: "nat \<Rightarrow> string \<Rightarrow> string \<Rightarrow> path_error + string" where
  "push_item cap buf [] = Inr buf"
| "push_item cap buf (c # cs) = bind_res (push_char cap buf c) (\<lambda>b. push_item cap b cs)"

text \<open>\<open>while (buf[len - 1] != '/') len--;\<close>\<close>

function trim_to_slash :: "string \<Rightarrow> path_error + string" where
  "trim_to_slash buf =
     (if buf = [] then Inl OUT_OF_BOUNDS
      else if last buf = SLASH then Inr buf
      else trim_to_slash (butlast buf))"
  by pat_completeness auto
termination
  by (relation "measure length") auto

declare trim_to_slash.simps [simp del]

definition process_item :: "nat \<Rightarrow> string \<Rightarrow> string \<Rightarrow> path_error + string" where
  "process_item cap buf item =
     (if item = [] \<or> item = ''.'' then Inr buf
      else if item = ''..'' then
        bind_res (trim_to_slash buf) (\<lambda>b. Inr (if length b > 1 then butlast b else b))
      else
        bind_res (if length buf > 1 then push_char cap buf SLASH else Inr buf)
          (\<lambda>b. push_item cap b item))"

lemma scan_item_length: "scan_item s = Inr (item, rest) \<Longrightarrow> length item + length rest = length s"
  by (induction s arbitrary: item rest)
     (auto simp: bind_res_eq_Inr split: if_splits)

text \<open>The \<open>for\<close> loop over the items of \<open>rel\<close>: it ends when an item ends at the NUL.\<close>

function path_loop :: "nat \<Rightarrow> string \<Rightarrow> string \<Rightarrow> path_error + string" where
  "path_loop cap buf s =
     bind_res (scan_item s) (\<lambda>(item, rest).
       bind_res (process_item cap buf item) (\<lambda>b.
         case rest of [] \<Rightarrow> Inr b | _ # rest' \<Rightarrow> path_loop cap b rest'))"
  by pat_completeness auto
termination
  by (relation "measure (\<lambda>(cap, buf, s). length s)") (auto dest: scan_item_length)

declare path_loop.simps [simp del]

definition path_cat :: "string \<Rightarrow> string \<Rightarrow> path_error + string" where
  "path_cat wd rel =
     (if wd = [] \<or> hd wd \<noteq> SLASH then Inl NULL_RESULT
      else
        let cap = length wd + length rel + 2;
            buf = (if rel = [] \<or> hd rel = SLASH then ''/'' else wd)
        in bind_res (if rel = [] then Inr buf else path_loop cap buf rel)
             (\<lambda>b. if length b < cap then Inr b else Inl OUT_OF_BOUNDS))"

definition path_change :: "string \<Rightarrow> string \<Rightarrow> bool \<times> string" where
  "path_change wd rel = (case path_cat wd rel of Inr p \<Rightarrow> (True, p) | Inl _ \<Rightarrow> (False, wd))"

section \<open>path_exists\<close>

datatype path_requirement = PATH_REQUIREMENT_NONE | PATH_REQUIREMENT_DIR | PATH_REQUIREMENT_REGULAR

datatype file_kind = KDir | KRegular | KOther

text \<open>\<open>lstat\<close> is the operating system's: the kind of the entry, or \<open>None\<close> on failure.\<close>

definition path_exists :: "(string \<Rightarrow> file_kind option) \<Rightarrow> string \<Rightarrow> path_requirement \<Rightarrow> bool" where
  "path_exists lstat path r =
     (let p = tl path in
      if p = [] then True
      else case lstat p of
        None \<Rightarrow> False
      | Some k \<Rightarrow>
          (case r of
             PATH_REQUIREMENT_NONE \<Rightarrow> True
           | PATH_REQUIREMENT_DIR \<Rightarrow> k = KDir
           | PATH_REQUIREMENT_REGULAR \<Rightarrow> k = KRegular))"

section \<open>Canonical paths\<close>

text \<open>
  A canonical path is what the server keeps in \<open>wd\<close> and \<open>rnfr\<close> and what it hands to the
  operating system (less the leading slash): a slash before every item, no empty item, no
  \<open>.\<close> or \<open>..\<close>, and only the characters \<open>path_cat\<close> lets through.
\<close>

definition legal_item :: "string \<Rightarrow> bool" where
  "legal_item i \<longleftrightarrow> i \<noteq> [] \<and> i \<noteq> ''.'' \<and> i \<noteq> ''..'' \<and> list_all path_char i"

definition render :: "string list \<Rightarrow> string" where
  "render cs = (if cs = [] then ''/'' else concat (map (\<lambda>c. SLASH # c) cs))"

definition items :: "string \<Rightarrow> string list" where
  "items p = filter (\<lambda>i. i \<noteq> []) (split_at SLASH p)"

definition canonical :: "string \<Rightarrow> bool" where
  "canonical p \<longleftrightarrow> list_all legal_item (items p) \<and> p = render (items p)"

text \<open>One item of a relative path moves the current directory.\<close>

definition apply_item :: "string list \<Rightarrow> string \<Rightarrow> string list" where
  "apply_item cs i =
     (if i = [] \<or> i = ''.'' then cs else if i = ''..'' then butlast cs else cs @ [i])"

definition resolve :: "string list \<Rightarrow> string \<Rightarrow> string list" where
  "resolve cs rel =
     foldl apply_item (if rel = [] \<or> hd rel = SLASH then [] else cs) (split_at SLASH rel)"

definition rel_char :: "char \<Rightarrow> bool" where
  "rel_char c \<longleftrightarrow> path_char c \<or> c = SLASH"

lemma path_char_not_slash [simp]: "\<not> path_char SLASH"
  by (simp add: path_char_def less_eq_char_def)

lemma rel_char_slash [simp]: "rel_char SLASH"
  by (simp add: rel_char_def)

lemma rel_char_other: "c \<noteq> SLASH \<Longrightarrow> rel_char c = path_char c"
  by (simp add: rel_char_def)

lemma path_char_neq_slash: "path_char c \<Longrightarrow> c \<noteq> SLASH"
  by auto

lemma legal_item_no_slash: "legal_item i \<Longrightarrow> SLASH \<notin> set i"
  by (auto simp: legal_item_def list_all_iff)

lemma render_Nil [simp]: "render [] = ''/''"
  by (simp add: render_def)

lemma render_snoc: "render (cs @ [i]) = (if cs = [] then [] else render cs) @ SLASH # i"
  by (simp add: render_def)

lemma render_not_Nil [simp]: "render cs \<noteq> []"
  by (cases cs) (auto simp: render_def)

lemma hd_render [simp]: "hd (render cs) = SLASH"
  by (cases cs) (auto simp: render_def)

lemma render_length_gt_1: "list_all legal_item cs \<Longrightarrow> length (render cs) > 1 \<longleftrightarrow> cs \<noteq> []"
  by (cases cs) (auto simp: render_def legal_item_def)

lemma split_concat_items:
  "list_all legal_item cs \<Longrightarrow> cs \<noteq> [] \<Longrightarrow>
     split_at SLASH (concat (map (\<lambda>c. SLASH # c) cs)) = [] # cs"
proof (induction cs)
  case Nil
  then show ?case by simp
next
  case (Cons c cs)
  have c: "SLASH \<notin> set c"
    using Cons.prems by (auto dest: legal_item_no_slash)
  show ?case
  proof (cases cs)
    case Nil
    with c show ?thesis by (simp add: split_at_no_sep)
  next
    case (Cons d ds)
    with Cons.IH Cons.prems
    have IH: "split_at SLASH (concat (map (\<lambda>c. SLASH # c) (d # ds))) = [] # d # ds"
      by auto
    from IH have "split_at SLASH (d @ concat (map (\<lambda>c. SLASH # c) ds)) = d # ds"
      by simp
    with Cons c show ?thesis
      using split_at_append_sep [OF c, of "d @ concat (map (\<lambda>c. SLASH # c) ds)"] by simp
  qed
qed

lemma items_render [simp]: "list_all legal_item cs \<Longrightarrow> items (render cs) = cs"
proof (cases "cs = []")
  case True
  then show ?thesis by (simp add: items_def)
next
  case False
  assume cs: "list_all legal_item cs"
  then have "filter (\<lambda>i. i \<noteq> []) cs = cs"
    by (auto simp: filter_id_conv list_all_iff legal_item_def)
  with False cs show ?thesis
    by (simp add: items_def render_def split_concat_items)
qed

lemma canonical_render [simp, intro]: "list_all legal_item cs \<Longrightarrow> canonical (render cs)"
  by (simp add: canonical_def)

lemma canonical_root [simp]: "canonical ''/''"
  using canonical_render [of "[]"] by simp

lemma canonicalE:
  assumes "canonical p"
  obtains cs where "list_all legal_item cs" and "p = render cs"
  using assms by (auto simp: canonical_def)

section \<open>Memory safety of path_cat\<close>

text \<open>The inner loop splits off the text before the next slash, or rejects it.\<close>

lemma scan_item_eq:
  "scan_item s =
     (if list_all path_char (takeWhile (\<lambda>c. c \<noteq> SLASH) s)
      then Inr (takeWhile (\<lambda>c. c \<noteq> SLASH) s, dropWhile (\<lambda>c. c \<noteq> SLASH) s)
      else Inl NULL_RESULT)"
  by (induction s) auto

lemma scan_item_not_oob [simp]: "scan_item s \<noteq> Inl OUT_OF_BOUNDS"
  by (simp add: scan_item_eq)

lemma push_item_eq:
  "length buf + length cs \<le> cap \<Longrightarrow> push_item cap buf cs = Inr (buf @ cs)"
  by (induction cs arbitrary: buf) (auto simp: push_char_def)

lemma trim_to_slash_append:
  "SLASH \<notin> set i \<Longrightarrow> trim_to_slash (b @ SLASH # i) = Inr (b @ [SLASH])"
proof (induction i rule: rev_induct)
  case Nil
  then show ?case by (simp add: trim_to_slash.simps)
next
  case (snoc x xs)
  then have "trim_to_slash (b @ SLASH # xs @ [x]) = trim_to_slash (b @ SLASH # xs)"
    by (subst trim_to_slash.simps) (auto simp: butlast_append)
  with snoc show ?case by simp
qed

text \<open>A buffer that starts with a slash is never read before its start.\<close>

definition rooted :: "string \<Rightarrow> bool" where
  "rooted b \<longleftrightarrow> b \<noteq> [] \<and> hd b = SLASH"

lemma rooted_append: "rooted b \<Longrightarrow> rooted (b @ c)"
  by (auto simp: rooted_def)

lemma trim_to_slash_rooted:
  assumes "rooted b"
  obtains b' where "trim_to_slash b = Inr b'" and "rooted b'" and "length b' \<le> length b"
proof -
  have "SLASH \<in> set b" using assms by (cases b) (auto simp: rooted_def)
  then obtain u v where b: "b = u @ SLASH # v" and v: "SLASH \<notin> set v"
    by (metis split_list_last)
  have "rooted (u @ [SLASH])"
    using assms b by (cases u) (auto simp: rooted_def)
  with trim_to_slash_append [OF v, of u] b show thesis
    by (intro that [of "u @ [SLASH]"]) auto
qed

lemma process_item_rooted:
  assumes b: "rooted b" and cap: "length b + length item + 1 \<le> cap"
  obtains b' where "process_item cap b item = Inr b'" and "rooted b'"
    and "length b' \<le> length b + length item + 1"
proof -
  obtain t where t: "trim_to_slash b = Inr t" "rooted t" "length t \<le> length b"
    using trim_to_slash_rooted [OF b] by blast
  have "rooted (butlast t)" if "length t > 1"
    using that t(2) by (cases t) (auto simp: rooted_def)
  with t b cap show thesis
    by (intro that [of "case process_item cap b item of Inr x \<Rightarrow> x | Inl _ \<Rightarrow> []"])
       (auto simp: process_item_def push_item_eq push_char_def rooted_append)
qed

lemma path_loop_rooted:
  assumes "rooted b" and "length b + length s + 1 \<le> cap"
  shows "path_loop cap b s = Inl NULL_RESULT \<or>
    (\<exists>b'. path_loop cap b s = Inr b' \<and> rooted b' \<and> length b' \<le> length b + length s + 1)"
  using assms
proof (induction cap b s rule: path_loop.induct)
  case (1 cap b s)
  show ?case
  proof (cases "scan_item s")
    case (Inl e)
    then have "e = NULL_RESULT" by (cases e) auto
    with Inl show ?thesis by (subst path_loop.simps) simp
  next
    case (Inr ir)
    obtain item rest where ir: "ir = (item, rest)" by (cases ir)
    have len: "length item + length rest = length s"
      using Inr ir by (simp add: scan_item_length)
    from len 1(3) have "length b + length item + 1 \<le> cap" by simp
    then obtain b' where b': "process_item cap b item = Inr b'" "rooted b'"
      "length b' \<le> length b + length item + 1"
      using process_item_rooted [OF 1(2)] by blast
    show ?thesis
    proof (cases rest)
      case Nil
      with Inr ir b' len 1(3) show ?thesis by (subst path_loop.simps) auto
    next
      case (Cons c rest')
      then have "length b' + length rest' + 1 \<le> cap" using b'(3) len 1(3) by simp
      with 1(1) [OF Inr ir [symmetric] b'(1) Cons] b'(2)
      have "path_loop cap b' rest' = Inl NULL_RESULT \<or>
        (\<exists>x. path_loop cap b' rest' = Inr x \<and> rooted x \<and> length x \<le> length b' + length rest' + 1)"
        by (simp add: ir)
      moreover have "path_loop cap b s = path_loop cap b' rest'"
        using Inr ir b' Cons by (subst path_loop.simps) simp
      ultimately show ?thesis using b'(3) len Cons by auto
    qed
  qed
qed

lemma path_cat_no_overrun: "path_cat wd rel \<noteq> Inl OUT_OF_BOUNDS"
proof (cases "wd = [] \<or> hd wd \<noteq> SLASH \<or> rel = []")
  case True
  then show ?thesis by (auto simp: path_cat_def Let_def)
next
  case False
  let ?buf = "if rel = [] \<or> hd rel = SLASH then ''/'' else wd"
  have "rooted ?buf" using False by (auto simp: rooted_def)
  moreover have "length ?buf + length rel + 1 \<le> length wd + length rel + 2"
    using False by (cases wd) auto
  ultimately have "path_loop (length wd + length rel + 2) ?buf rel = Inl NULL_RESULT \<or>
    (\<exists>b. path_loop (length wd + length rel + 2) ?buf rel = Inr b \<and> length b \<le> length ?buf + length rel + 1)"
    using path_loop_rooted by blast
  moreover have "length ?buf \<le> length wd" using False by (cases wd) auto
  ultimately show ?thesis using False by (auto simp: path_cat_def Let_def)
qed

text \<open>
  C25. \<open>path_cat\<close> never reads or writes outside its buffer, whatever the arguments: the
  allocation of \<open>strlen(wd) + strlen(rel) + 2\<close> bytes is enough for every item, its slash and
  the terminating NUL, and the search for the last slash stops inside the buffer.
\<close>

theorem path_cat_in_bounds: "path_cat wd rel \<noteq> Inl OUT_OF_BOUNDS"
  by (rule path_cat_no_overrun)

section \<open>path_cat is the walk over items\<close>

lemma render_apply_item_push:
  assumes "list_all legal_item cs" and "legal_item i"
  shows "(if length (render cs) > 1 then render cs @ [SLASH] else render cs) @ i = render (cs @ [i])"
  using assms render_length_gt_1 [of cs] by (auto simp: render_snoc)

lemma trim_to_slash_render:
  assumes "list_all legal_item (cs @ [i])"
  shows "trim_to_slash (render (cs @ [i])) = Inr ((if cs = [] then [] else render cs) @ [SLASH])"
proof -
  have "SLASH \<notin> set i" using assms legal_item_no_slash by simp
  then show ?thesis unfolding render_snoc by (rule trim_to_slash_append)
qed

lemma process_item_up:
  assumes "list_all legal_item cs"
  shows "process_item cap (render cs) ''..'' = Inr (render (butlast cs))"
proof (cases cs rule: rev_cases)
  case Nil
  have "trim_to_slash ''/'' = Inr ''/''" by (simp add: trim_to_slash.simps)
  with Nil show ?thesis by (simp add: process_item_def)
next
  case (snoc ds i)
  show ?thesis
    using trim_to_slash_render [of ds i] assms snoc
    by (auto simp: process_item_def)
qed

lemma process_item_render:
  assumes cs: "list_all legal_item cs" and i: "list_all path_char i"
    and cap: "length (render cs) + length i + 1 \<le> cap"
  shows "process_item cap (render cs) i = Inr (render (apply_item cs i))"
proof (cases "i = [] \<or> i = ''.'' \<or> i = ''..''")
  case True
  with process_item_up [OF cs] show ?thesis
    by (auto simp: process_item_def apply_item_def)
next
  case False
  with i have "legal_item i" by (simp add: legal_item_def)
  with False cap render_apply_item_push [OF cs \<open>legal_item i\<close>] show ?thesis
    by (auto simp: process_item_def apply_item_def push_char_def push_item_eq)
qed

lemma apply_item_legal:
  "list_all legal_item cs \<Longrightarrow> list_all path_char i \<Longrightarrow> list_all legal_item (apply_item cs i)"
  by (auto simp: apply_item_def legal_item_def list_all_iff dest: in_set_butlastD)

lemma apply_item_length:
  "length (render (apply_item cs i)) \<le> length (render cs) + length i + 1"
  by (cases cs rule: rev_cases) (auto simp: apply_item_def render_def)

lemma takeWhile_rel_char:
  "list_all rel_char s \<Longrightarrow> list_all path_char (takeWhile (\<lambda>c. c \<noteq> SLASH) s)"
  by (induction s) (auto simp: rel_char_def)

lemma split_at_dropWhile:
  "split_at c s =
     takeWhile (\<lambda>x. x \<noteq> c) s #
     (case dropWhile (\<lambda>x. x \<noteq> c) s of [] \<Rightarrow> [] | _ # rest \<Rightarrow> split_at c rest)"
  by (induction s) auto

lemma list_all_rel_char_split:
  "list_all rel_char s \<longleftrightarrow>
     list_all path_char (takeWhile (\<lambda>c. c \<noteq> SLASH) s) \<and>
     (case dropWhile (\<lambda>c. c \<noteq> SLASH) s of [] \<Rightarrow> True | _ # rest \<Rightarrow> list_all rel_char rest)"
proof (induction s)
  case Nil
  then show ?case by simp
next
  case (Cons c s)
  then show ?case by (cases "c = SLASH") (simp_all add: rel_char_other)
qed

lemma path_loop_render:
  assumes "list_all legal_item cs" and "length (render cs) + length s + 1 \<le> cap"
  shows "path_loop cap (render cs) s =
    (if list_all rel_char s then Inr (render (foldl apply_item cs (split_at SLASH s)))
     else Inl NULL_RESULT)"
  using assms
proof (induction "length s" arbitrary: cs s rule: less_induct)
  case less
  let ?i = "takeWhile (\<lambda>c. c \<noteq> SLASH) s"
  let ?r = "dropWhile (\<lambda>c. c \<noteq> SLASH) s"
  have len: "length ?i + length ?r = length s"
    by (metis length_append takeWhile_dropWhile_id)
  show ?case
  proof (cases "list_all path_char ?i")
    case False
    then have "scan_item s = Inl NULL_RESULT" by (simp add: scan_item_eq)
    with False show ?thesis
      by (subst path_loop.simps) (simp add: list_all_rel_char_split [of s])
  next
    case True
    let ?cs = "apply_item cs ?i"
    have cs: "list_all legal_item ?cs" using less.prems(1) True by (rule apply_item_legal)
    have item: "process_item cap (render cs) ?i = Inr (render ?cs)"
      using less.prems len True by (intro process_item_render) auto
    have loop: "path_loop cap (render cs) s =
        (case ?r of [] \<Rightarrow> Inr (render ?cs) | _ # r' \<Rightarrow> path_loop cap (render ?cs) r')"
      using True item by (subst path_loop.simps) (simp add: scan_item_eq)
    show ?thesis
    proof (cases ?r)
      case Nil
      then show ?thesis
        using loop [unfolded Nil] True list_all_rel_char_split [of s, unfolded Nil]
          split_at_dropWhile [of SLASH s, unfolded Nil] by simp
    next
      case (Cons c r')
      have "length (render ?cs) + length r' + 1 \<le> cap"
        using apply_item_length [of cs ?i] less.prems(2) len Cons by simp
      then have "path_loop cap (render ?cs) r' =
          (if list_all rel_char r' then Inr (render (foldl apply_item ?cs (split_at SLASH r')))
           else Inl NULL_RESULT)"
        using len Cons cs by (intro less.hyps) auto
      then show ?thesis
        using loop [unfolded Cons] True list_all_rel_char_split [of s, unfolded Cons]
          split_at_dropWhile [of SLASH s, unfolded Cons] by simp
    qed
  qed
qed

lemma foldl_apply_item_legal:
  "list_all legal_item cs \<Longrightarrow> list_all (list_all path_char) is \<Longrightarrow>
     list_all legal_item (foldl apply_item cs is)"
  by (induction "is" arbitrary: cs) (auto simp: apply_item_legal)

lemma split_rel_items:
  assumes "list_all rel_char s"
  shows "list_all (list_all path_char) (split_at SLASH s)"
  unfolding list_all_iff
proof (intro ballI)
  fix i c
  assume i: "i \<in> set (split_at SLASH s)" and c: "c \<in> set i"
  have "c \<in> set s" using split_at_item_chars [OF i] c by blast
  moreover have "c \<noteq> SLASH" using split_at_item_free [OF i] c by auto
  ultimately show "path_char c" using assms by (auto simp: list_all_iff rel_char_def)
qed

lemma resolve_legal:
  "list_all legal_item cs \<Longrightarrow> list_all rel_char rel \<Longrightarrow> list_all legal_item (resolve cs rel)"
  by (simp add: resolve_def foldl_apply_item_legal split_rel_items)

lemma path_cat_render:
  assumes "list_all legal_item cs"
  shows "path_cat (render cs) rel =
    (if list_all rel_char rel then Inr (render (resolve cs rel)) else Inl NULL_RESULT)"
proof (cases "rel = []")
  case True
  then show ?thesis by (simp add: path_cat_def Let_def resolve_def apply_item_def)
next
  case False
  let ?cs = "if hd rel = SLASH then [] else cs"
  let ?cap = "length (render cs) + length rel + 2"
  have legal: "list_all legal_item ?cs" using assms by simp
  have cap: "length (render ?cs) + length rel + 1 \<le> ?cap"
    by (cases cs) (auto simp: render_def)
  have nb: "path_cat (render cs) rel \<noteq> Inl OUT_OF_BOUNDS" by (rule path_cat_no_overrun)
  have "path_cat (render cs) rel =
      bind_res (path_loop ?cap (render ?cs) rel)
        (\<lambda>b. if length b < ?cap then Inr b else Inl OUT_OF_BOUNDS)"
    using False by (simp add: path_cat_def Let_def)
  with path_loop_render [OF legal cap] nb False show ?thesis
    by (auto simp: resolve_def split: if_splits)
qed

text \<open>
  C2. From a canonical working directory \<open>path_cat\<close> computes exactly the walk over the items
  of \<open>rel\<close> (empty items and \<open>.\<close> stay, \<open>..\<close> goes up and stops at the root, every other item
  goes down; an absolute or empty \<open>rel\<close> starts at the root), and it is \<open>NULL\<close> exactly when
  \<open>rel\<close> holds a character other than a letter, a digit, \<open>-\<close>, \<open>.\<close>, \<open>_\<close> or \<open>/\<close>.
\<close>

theorem path_cat_refines:
  assumes "list_all legal_item cs"
  shows "path_cat (render cs) rel =
    (if list_all rel_char rel then Inr (render (resolve cs rel)) else Inl NULL_RESULT)"
  using assms by (rule path_cat_render)

theorem path_cat_refines_witness:
  "path_cat ''/quq/qvq'' ''qwq/../../qxq/'' = Inr ''/quq/qxq''"
  using path_cat_refines [of "[''quq'', ''qvq'']" "''qwq/../../qxq/''"]
  by (simp add: legal_item_def path_char_def rel_char_def less_eq_char_def resolve_def apply_item_def render_def)

section \<open>Confinement, round trip and composition\<close>

lemma path_cat_canonical:
  assumes "canonical wd" and "path_cat wd rel = Inr d"
  shows "canonical d"
  using assms path_cat_render resolve_legal by (metis canonicalE canonical_render sum.inject(2) sum.simps(4))

lemma canonical_chars: "canonical p \<Longrightarrow> list_all rel_char p"
proof (erule canonicalE)
  fix cs
  assume "list_all legal_item cs" and "p = render cs"
  then show "list_all rel_char p"
    by (cases "cs = []") (auto simp: render_def legal_item_def list_all_iff rel_char_def)
qed

lemma canonical_rooted: "canonical p \<Longrightarrow> rooted p"
  by (erule canonicalE) (simp add: rooted_def)

lemma canonical_not_Nil [simp]: "canonical p \<Longrightarrow> p \<noteq> []"
  using canonical_rooted by (auto simp: rooted_def)

lemma foldl_apply_item_append:
  "list_all legal_item is \<Longrightarrow> foldl apply_item cs is = cs @ is"
  by (induction "is" arbitrary: cs) (auto simp: apply_item_def legal_item_def)

lemma resolve_render: "list_all legal_item cs \<Longrightarrow> resolve ds (render cs) = cs"
proof (cases "cs = []")
  case False
  assume cs: "list_all legal_item cs"
  with False have "split_at SLASH (render cs) = [] # cs"
    by (simp add: render_def split_concat_items)
  moreover have "foldl apply_item [] ([] # cs) = cs"
    using foldl_apply_item_append [OF cs, of "[]"] by (simp add: apply_item_def)
  ultimately show ?thesis by (simp add: resolve_def)
qed (simp add: resolve_def apply_item_def)

lemma path_cat_absolute: "canonical wd \<Longrightarrow> canonical d \<Longrightarrow> path_cat wd d = Inr d"
  using canonical_chars [of d]
  by (auto simp: path_cat_render resolve_render elim!: canonicalE)

lemma path_cat_up:
  assumes "list_all legal_item cs"
  shows "path_cat (render cs) ''..'' = Inr (render (butlast cs))"
  using assms
  by (simp add: path_cat_render rel_char_def path_char_def resolve_def apply_item_def)

lemma path_cat_up_canonical:
  assumes "canonical d"
  obtains u where "path_cat d ''..'' = Inr u" and "canonical u"
  using assms path_cat_up path_cat_canonical by (metis canonicalE)

lemma split_at_append: "split_at c (xs @ c # ys) = split_at c xs @ split_at c ys"
proof (induction xs)
  case (Cons x xs)
  then show ?case by (cases "split_at c xs") auto
qed simp

lemma resolve_append:
  "b \<noteq> [] \<Longrightarrow> hd b \<noteq> SLASH \<Longrightarrow> resolve cs (a @ SLASH # b) = resolve (resolve cs a) b"
  by (cases a; cases "split_at SLASH (tl a)") (auto simp: resolve_def split_at_append)

text \<open>
  What the command handlers rely on when they keep a working directory: a root that is a good
  path, results that are good paths, good paths that resolve to themselves, a parent that
  always exists. A session that only ever moves by such a resolver stays on good paths.
\<close>

locale path_resolver =
  fixes cat :: "string \<Rightarrow> string \<Rightarrow> 'e + string"
    and good :: "string \<Rightarrow> bool"
    and root :: string
  assumes good_root: "good root"
    and cat_good: "good wd \<Longrightarrow> cat wd rel = Inr d \<Longrightarrow> good d"
    and cat_good_id: "good wd \<Longrightarrow> good d \<Longrightarrow> cat wd d = Inr d"
    and cat_up: "good d \<Longrightarrow> \<exists>u. cat d ''..'' = Inr u"
begin

lemma up_good: "good d \<Longrightarrow> \<exists>u. cat d ''..'' = Inr u \<and> good u"
  using cat_up cat_good by blast

lemma cat_idem: "good wd \<Longrightarrow> cat wd rel = Inr d \<Longrightarrow> good wd' \<Longrightarrow> cat wd' d = Inr d"
  using cat_good cat_good_id by blast

lemma walk_good:
  "good wd \<Longrightarrow> good (foldl (\<lambda>w r. case cat w r of Inr d \<Rightarrow> d | Inl _ \<Rightarrow> w) wd rels)"
  by (induction rels arbitrary: wd) (auto split: sum.splits dest: cat_good)

lemma walk_root: "good (foldl (\<lambda>w r. case cat w r of Inr d \<Rightarrow> d | Inl _ \<Rightarrow> w) root rels)"
  by (rule walk_good [OF good_root])

end

interpretation paths: path_resolver path_cat canonical "''/''"
  by unfold_locales (auto intro: path_cat_canonical path_cat_absolute elim: path_cat_up_canonical)

lemma path_change_fold:
  "snd (path_change w r) = (case path_cat w r of Inr d \<Rightarrow> d | Inl _ \<Rightarrow> w)"
  by (simp add: path_change_def split: sum.splits)

text \<open>
  C19. Confinement: however a client moves, by any sequence of path arguments at all, the
  working directory it ends in is canonical (no empty, \<open>.\<close> or \<open>..\<close> item, no character
  outside the permitted ones), and the resolution of any further argument is either refused
  or canonical too: no path argument names a place above the served root.
\<close>

theorem path_cat_confined:
  assumes "path_cat (foldl (\<lambda>w r. snd (path_change w r)) ''/'' rels) rel = Inr d"
  shows "canonical d \<and> ''..'' \<notin> set (items d) \<and> set d \<subseteq> {c. rel_char c}"
proof -
  have "canonical d"
    using paths.walk_root [of rels] assms
    by (auto simp: path_change_fold intro: paths.cat_good)
  then have "list_all legal_item (items d)" and "list_all rel_char d"
    by (simp_all add: canonical_def canonical_chars)
  with \<open>canonical d\<close> show ?thesis by (auto simp: list_all_iff legal_item_def)
qed

lemma up_up_resolves: "path_cat ''/'' ''../..//a/./../..'' = Inr ''/''"
  using path_cat_render [of "[]" "''../..//a/./../..''"]
  by (simp add: legal_item_def path_char_def rel_char_def less_eq_char_def resolve_def
      apply_item_def render_def)

theorem path_cat_confined_witness:
  "canonical ''/'' \<and> ''..'' \<notin> set (items ''/'') \<and> set ''/'' \<subseteq> {c. rel_char c}"
  using path_cat_confined [of "[]" "''../..//a/./../..''" "''/''"] up_up_resolves by simp

text \<open>
  Going to a path in two steps is going there in one: resolving \<open>b\<close> from where \<open>a\<close> leads
  is resolving \<open>a/b\<close>, errors included, for every relative \<open>b\<close>.
\<close>

theorem path_cat_compose:
  assumes "canonical wd" and "path_cat wd a = Inr d" and "b \<noteq> []" and "hd b \<noteq> SLASH"
  shows "path_cat d b = path_cat wd (a @ SLASH # b)"
proof -
  obtain cs where cs: "list_all legal_item cs" "wd = render cs"
    using assms(1) by (rule canonicalE)
  with assms(2) have a: "list_all rel_char a" and d: "d = render (resolve cs a)"
    by (auto simp: path_cat_render split: if_splits)
  have "list_all legal_item (resolve cs a)" using cs(1) a by (rule resolve_legal)
  with cs a d assms(3,4) show ?thesis
    by (simp add: path_cat_render resolve_append)
qed

theorem path_cat_compose_witness:
  "path_cat ''/quq'' ''../b'' = path_cat ''/'' ''quq/../b''"
proof -
  have wd: "path_cat ''/'' ''quq'' = Inr ''/quq''"
    using path_cat_render [of "[]" "''quq''"]
    by (simp add: path_char_def rel_char_def less_eq_char_def resolve_def apply_item_def render_def)
  show ?thesis
    using path_cat_compose [OF canonical_root wd, of "''../b''"] by simp
qed

end
