(* ===== verification/Platform.thy ===== *)
theory Platform
  imports IoUtils PathUtils
begin

text \<open>
  The state of one server session, \<^verbatim>\<open>server/client.h\<close>, and the operating system under it.
  The system is a parameter: a record of its calls over an abstract state \<open>'w\<close> of the outside
  world, with \<open>'f\<close> for what a \<open>FILE *\<close> points to. The sockets of \<^verbatim>\<open>io_utils.c\<close>
  (\<open>sock_ephemeral\<close>, \<open>ephemeral\<close>) are here because they use it.
\<close>

section \<open>Operating system calls\<close>

text \<open>
  A call that sets \<open>errno\<close> returns \<open>None\<close> on success and the text of \<open>strerror(errno)\<close> on
  failure; a call whose result is a flag returns \<open>True\<close> on success.
\<close>

datatype accepted = AConn nat | AAgain | AFail

text \<open>
  The calls of the data thread that may never return: a \<open>read()\<close> from a blocking connection
  whose peer sends nothing and stays connected, a \<open>read()\<close> behind \<open>fread\<close>. \<open>os_hangs c w\<close> says
  that the call \<open>c\<close>, made in the world \<open>w\<close>, never does. A \<open>write()\<close> that never returns and one
  that answers \<open>EAGAIN\<close> for ever come to the same, an endless loop of \<open>write_all\<close>. The other
  calls return.
\<close>

datatype 'f call = READ nat | FREAD 'f

record ('w, 'f) os =
  os_lstat :: "'w \<Rightarrow> string \<Rightarrow> file_kind option"
  os_mkdir :: "string \<Rightarrow> 'w \<Rightarrow> string option \<times> 'w"
  os_rmdir :: "string \<Rightarrow> 'w \<Rightarrow> string option \<times> 'w"
  os_unlink :: "string \<Rightarrow> 'w \<Rightarrow> string option \<times> 'w"
  os_rename :: "string \<Rightarrow> string \<Rightarrow> 'w \<Rightarrow> string option \<times> 'w"
  os_truncate :: "string \<Rightarrow> size_t \<Rightarrow> 'w \<Rightarrow> 'w"
  os_fopen :: "string \<Rightarrow> string \<Rightarrow> 'w \<Rightarrow> 'f option \<times> 'w"
  os_popen :: "string \<Rightarrow> 'w \<Rightarrow> 'f option \<times> 'w"
  os_fseek :: "'f \<Rightarrow> size_t \<Rightarrow> 'w \<Rightarrow> 'w"
  os_fread :: "'f \<Rightarrow> nat \<Rightarrow> 'w \<Rightarrow> string \<times> 'w"
  os_fwrite :: "'f \<Rightarrow> string \<Rightarrow> 'w \<Rightarrow> 'w"
  os_feof :: "'f \<Rightarrow> 'w \<Rightarrow> bool"
  os_ferror :: "'f \<Rightarrow> 'w \<Rightarrow> bool"
  os_fclose :: "'f \<Rightarrow> 'w \<Rightarrow> 'w"
  os_pclose :: "'f \<Rightarrow> 'w \<Rightarrow> 'w"
  os_pthread_create :: "'w \<Rightarrow> bool \<times> 'w"
  os_socket :: "'w \<Rightarrow> nat option \<times> 'w"
  os_bind :: "nat \<Rightarrow> 'w \<Rightarrow> bool \<times> 'w"
  os_listen :: "nat \<Rightarrow> 'w \<Rightarrow> bool \<times> 'w"
  os_nonblock :: "nat \<Rightarrow> 'w \<Rightarrow> bool \<times> 'w"
  os_getsockname :: "nat \<Rightarrow> 'w \<Rightarrow> u8 list \<times> u8 list"
  os_connect :: "nat \<Rightarrow> u8 list \<Rightarrow> u16 \<Rightarrow> 'w \<Rightarrow> bool \<times> 'w"
  os_accept :: "nat \<Rightarrow> 'w \<Rightarrow> accepted \<times> 'w"
  os_read :: "nat \<Rightarrow> nat \<Rightarrow> 'w \<Rightarrow> rd \<times> 'w"
  os_write :: "nat \<Rightarrow> 'w \<Rightarrow> string \<Rightarrow> wr \<times> 'w"
  os_poll_hup :: "nat \<Rightarrow> 'w \<Rightarrow> bool \<times> 'w"
  os_peek_closed :: "nat \<Rightarrow> 'w \<Rightarrow> bool \<times> 'w"
  os_close :: "nat \<Rightarrow> 'w \<Rightarrow> 'w"
  os_hangs :: "'f call \<Rightarrow> 'w \<Rightarrow> bool"

section \<open>Ephemeral sockets\<close>

text \<open>A descriptor, \<open>-1\<close> without a socket, \<open>-2\<close> if it cannot be bound (it is closed then).\<close>

definition sock_ephemeral :: "('w, 'f, 'z) os_scheme \<Rightarrow> 'w \<Rightarrow> int \<times> 'w" where
  "sock_ephemeral os w =
     (case os_socket os w of
        (None, w1) \<Rightarrow> (-1, w1)
      | (Some fd, w1) \<Rightarrow>
          (case os_bind os fd w1 of
             (False, w2) \<Rightarrow> (-2, os_close os fd w2)
           | (True, w2) \<Rightarrow> (int fd, w2)))"

text \<open>
  The address is that of the control connection \<open>sock_conn\<close>, the port that of the new socket,
  both as the bytes in network order.
\<close>

definition ephemeral ::
  "('w, 'f, 'z) os_scheme \<Rightarrow> nat \<Rightarrow> 'w \<Rightarrow> (int + u8 list \<times> nat) \<times> 'w" where
  "ephemeral os sock_conn w =
     (case sock_ephemeral os w of (sock_eph, w1) \<Rightarrow>
        if sock_eph < 0 then (Inl sock_eph, w1)
        else
          let o_port = snd (os_getsockname os (nat sock_eph) w1);
              o_addr = fst (os_getsockname os sock_conn w1)
          in (Inr (o_addr @ o_port, nat sock_eph), w1))"

section \<open>The session record\<close>

datatype client_state = CLST_CONN | CLST_WAIT_PASS | CLST_READY | CLST_PORT | CLST_PASV

text \<open>The enumerators' values; the code compares states as integers.\<close>

fun state_val :: "client_state \<Rightarrow> nat" where
  "state_val CLST_CONN = 0"
| "state_val CLST_WAIT_PASS = 1"
| "state_val CLST_READY = 2"
| "state_val CLST_PORT = 16"
| "state_val CLST_PASV = 32"

lemma state_val_inj [simp]: "state_val a = state_val b \<longleftrightarrow> a = b"
  by (cases a; cases b) simp_all

instantiation client_state :: linorder
begin

definition less_eq_client_state :: "client_state \<Rightarrow> client_state \<Rightarrow> bool" where
  "less_eq_client_state a b \<longleftrightarrow> state_val a \<le> state_val b"

definition less_client_state :: "client_state \<Rightarrow> client_state \<Rightarrow> bool" where
  "less_client_state a b \<longleftrightarrow> state_val a < state_val b"

instance
  by standard (auto simp: less_eq_client_state_def less_client_state_def)

end

lemma state_less_iff:
  "s < CLST_READY \<longleftrightarrow> s = CLST_CONN \<or> s = CLST_WAIT_PASS"
  "s < CLST_WAIT_PASS \<longleftrightarrow> s = CLST_CONN"
  "CLST_READY \<le> s \<longleftrightarrow> s = CLST_READY \<or> s = CLST_PORT \<or> s = CLST_PASV"
  by (cases s; simp add: less_client_state_def less_eq_client_state_def)+

lemma state_ready [simp]:
  "CLST_READY \<le> CLST_PORT" "CLST_READY \<le> CLST_PASV"
  "\<not> CLST_READY \<le> CLST_CONN" "\<not> CLST_READY \<le> CLST_WAIT_PASS"
  "\<not> CLST_PORT < CLST_READY" "\<not> CLST_PASV < CLST_READY" 
  "CLST_CONN < CLST_READY" "CLST_WAIT_PASS < CLST_READY"
  by (simp_all add: state_less_iff)

datatype dat_type = DATA_UNDEFINED | DATA_SEND_FILE | DATA_RECV_FILE | DATA_SEND_PIPE

datatype cmd_result = CMD_RESULT_DONE | CMD_RESULT_SHUTDOWN

record 'f client =
  sock_ctl :: nat
  buf_ctl :: rlb
  state :: client_state
  username :: "string option"
  xferred_files_bytes :: int
  xferred_files_num :: int
  wd :: string
  rnfr :: "string option"
  rest_offs :: size_t
  addr :: "u8 list"
  port :: u16
  thr_dat_running :: bool
  dat_fp :: "'f option"
  dat_ty :: dat_type

section \<open>The data thread and the whole session\<close>

text \<open>
  Where the data thread is. \<open>A_START\<close> to \<open>A_LOOP\<close> are \<open>active_data\<close> (before the wait on
  \<open>cond_dat\<close>, waiting, woken, connecting, in the loop), \<open>P_LOOP\<close> is the loop of
  \<open>passive_data\<close>, \<open>T_HANGS\<close> is in a call of \<open>process_block\<close> that never returns, the rest is
  the common \<open>cleanup\<close>.
\<close>

datatype thr_pc =
  A_START | A_WAIT | A_WOKEN | A_CONNECT | A_LOOP | P_LOOP | T_HANGS | T_CLOSE | T_READY | T_MARK | T_DONE

text \<open>Its local variables.\<close>

record 'f dthr =
  pc :: thr_pc
  t_sock :: "nat option"
  conn_fd :: "nat option"
  t_fp :: "'f option"
  t_ty :: dat_type
  st :: nat
  accept_sleep :: int
  process_sleep :: int

text \<open>What must not happen: \<open>panic()\<close>, I/O on a \<open>NULL\<close> file, joining a thread that is not there.\<close>

datatype fault = PANIC string | NULL_FILE | BAD_JOIN

record ('w, 'f) sess =
  cl :: "'f client"
  thr :: "'f dthr option"
  out :: "(nat \<times> string) list"
  ext :: 'w
  fault :: "fault option"

text \<open>\<open>mark\<close> and \<open>markf\<close>: a reply on the control connection, newest last; \<open>char s[256]\<close>.\<close>

definition mark :: "nat \<Rightarrow> string \<Rightarrow> ('w, 'f) sess \<Rightarrow> ('w, 'f) sess" where
  "mark code str s = s\<lparr>out := out s @ [(code, str)]\<rparr>"

definition markf :: "nat \<Rightarrow> string \<Rightarrow> ('w, 'f) sess \<Rightarrow> ('w, 'f) sess" where
  "markf code str = mark code (snprintf 256 str)"

lemma mark_sel [simp]:
  "cl (mark c m s) = cl s" "thr (mark c m s) = thr s" "ext (mark c m s) = ext s"
  "fault (mark c m s) = fault s" "out (mark c m s) = out s @ [(c, m)]"
  by (simp_all add: mark_def)

lemma markf_sel [simp]:
  "cl (markf c m s) = cl s" "thr (markf c m s) = thr s" "ext (markf c m s) = ext s"
  "fault (markf c m s) = fault s" "out (markf c m s) = out s @ [(c, snprintf 256 m)]"
  by (simp_all add: markf_def)

definition upd_cl :: "('f client \<Rightarrow> 'f client) \<Rightarrow> ('w, 'f) sess \<Rightarrow> ('w, 'f) sess" where
  "upd_cl f s = s\<lparr>cl := f (cl s)\<rparr>"

lemma upd_cl_sel [simp]:
  "cl (upd_cl f s) = f (cl s)" "thr (upd_cl f s) = thr s" "ext (upd_cl f s) = ext s"
  "fault (upd_cl f s) = fault s" "out (upd_cl f s) = out s"
  by (simp_all add: upd_cl_def)

end
