(* ===== verification/XferData.thy ===== *)
theory XferData
  imports Xfer Platform
begin

text \<open>
  The data side of the client's transfer library, \<^verbatim>\<open>client/xfer.c\<close>: reading a whole connection
  into memory or into a file, sending a whole file, writing a string, and setting up and closing a
  connection. The reads of a descriptor are a list of what the coming \<open>read()\<close> calls return, as
  for the read-line buffer; a thread queues callbacks with numbers, which are results of the
  model.
\<close>

section \<open>read_all_thr\<close>

definition READALL_BLOCK_BUF_SIZE :: nat where
  "READALL_BLOCK_BUF_SIZE = 65536"

text \<open>The bytes of a block that was read, or \<open>None\<close> when \<open>read()\<close> returned 0 or \<open>-1\<close>.\<close>

fun got_block :: "rd \<Rightarrow> string option" where
  "got_block (Data bs) = (if bs = [] then None else Some bs)"
| "got_block _ = None"

definition append_block :: "string \<Rightarrow> xbuf \<Rightarrow> (mem_fault + xbuf) option" where
  "append_block bs g =
     (let len = xlen g + of_nat (length bs) in
      case grow len (xcap g) of
        None \<Rightarrow> None
      | Some cap \<Rightarrow>
          Some (bind_res (store (realloc (xmem g) (unat cap)) (unat (xlen g)) bs) (\<lambda>m.
            Inr \<lparr>xcap = cap, xlen = len, xmem = m\<rparr>)))"

fun read_all_loop :: "rd list \<Rightarrow> xbuf \<Rightarrow> (mem_fault + xbuf \<times> rd list) option" where
  "read_all_loop [] g = None"
| "read_all_loop (r # rs) g =
     (case got_block r of
        None \<Rightarrow> Some (Inr (g, rs))
      | Some bs \<Rightarrow>
          (case append_block bs g of
             None \<Rightarrow> None
           | Some (Inl e) \<Rightarrow> Some (Inl e)
           | Some (Inr g') \<Rightarrow> read_all_loop rs g'))"

definition read_all_thr :: "bool \<Rightarrow> rd list \<Rightarrow> (mem_fault + (size_t \<times> mem) option \<times> rd list) option" where
  "read_all_thr has_next rs =
     map_option (\<lambda>r. bind_res r (\<lambda>(g, rs').
       bind_res (store (xmem g) (unat (xlen g)) [NUL]) (\<lambda>m.
         Inr (if has_next then Some (xlen g, m) else None, rs'))))
       (read_all_loop rs xbuf_init)"

text \<open>What the callback reads: the length and the C string.\<close>

definition read_all_cb :: "size_t \<times> mem \<Rightarrow> mem_fault + size_t \<times> string" where
  "read_all_cb p = bind_res (load_str (snd p)) (\<lambda>s. Inr (fst p, s))"

section \<open>Files\<close>

text \<open>
  \<open>read_all_to_thr\<close>: one \<open>write()\<close> per block, of which only the error is looked at. The
  results are the lengths queued for the callback, the world and the rest of the input.
\<close>

fun read_all_to_loop ::
  "('w \<Rightarrow> string \<Rightarrow> wr \<times> 'w) \<Rightarrow> rd list \<Rightarrow> size_t \<Rightarrow> 'w \<Rightarrow> (size_t list \<times> 'w \<times> rd list) option" where
  "read_all_to_loop wrf [] len w = None"
| "read_all_to_loop wrf (r # rs) len w =
     (case got_block r of
        None \<Rightarrow> Some ([], w, rs)
      | Some bs \<Rightarrow>
          (let len' = len + of_nat (length bs) in
           case wrf w bs of
             (Wrote n, w') \<Rightarrow>
               map_option (\<lambda>(q, r). (len' # q, r)) (read_all_to_loop wrf rs len' w')
           | (_, w') \<Rightarrow> Some ([], w', rs)))"

definition read_all_to_thr ::
  "('w \<Rightarrow> string \<Rightarrow> wr \<times> 'w) \<Rightarrow> bool \<Rightarrow> rd list \<Rightarrow> 'w \<Rightarrow> (size_t list \<times> 'w \<times> rd list) option" where
  "read_all_to_thr wrf has_next rs w =
     map_option (\<lambda>(q, r). (if has_next then q @ [-1] else [], r)) (read_all_to_loop wrf rs 0 w)"

text \<open>\<open>write_all_from_thr\<close>: the reads are those of the local file.\<close>

fun write_all_from_loop ::
  "('w \<Rightarrow> string \<Rightarrow> wr \<times> 'w) \<Rightarrow> rd list \<Rightarrow> size_t \<Rightarrow> 'w \<Rightarrow> (size_t list \<times> 'w \<times> rd list) option" where
  "write_all_from_loop wrf [] len w = None"
| "write_all_from_loop wrf (r # rs) len w =
     (case got_block r of
        None \<Rightarrow> Some ([], w, rs)
      | Some bs \<Rightarrow>
          (let len' = len + of_nat (length bs) in
           case write_all wrf bs w of
             None \<Rightarrow> None
           | Some (k, w') \<Rightarrow>
               if k \<noteq> 0 then Some ([], w', rs)
               else map_option (\<lambda>(q, r). (len' # q, r)) (write_all_from_loop wrf rs len' w')))"

definition write_all_from_thr ::
  "('w \<Rightarrow> string \<Rightarrow> wr \<times> 'w) \<Rightarrow> bool \<Rightarrow> rd list \<Rightarrow> 'w \<Rightarrow> (size_t list \<times> 'w \<times> rd list) option" where
  "write_all_from_thr wrf has_next rs w =
     map_option (\<lambda>(q, r). (if has_next then q @ [-1] else [], r)) (write_all_from_loop wrf rs 0 w)"

section \<open>Writing a string\<close>

definition XFER_ERR_SOCKET :: int where "XFER_ERR_SOCKET = -1"
definition XFER_ERR_THREAD :: int where "XFER_ERR_THREAD = -2"
definition XFER_ERR_CONNECT :: int where "XFER_ERR_CONNECT = -3"
definition XFER_ERR_IO :: int where "XFER_ERR_IO = -4"

text \<open>\<open>strdup\<close> copies the C string in the caller's buffer; the length given is not used.\<close>

definition write_thr ::
  "('w \<Rightarrow> string \<Rightarrow> wr \<times> 'w) \<Rightarrow> bool \<Rightarrow> string \<Rightarrow> 'w \<Rightarrow> (int option \<times> 'w) option" where
  "write_thr wrf has_next str w =
     map_option (\<lambda>(k, w').
       (if has_next then Some (if k \<noteq> 0 then XFER_ERR_IO else 0) else None, w')) (write_all wrf str w)"

text \<open>
  The operations start their thread and return; when no thread can be created they call
  \<open>next\<close> at once with an error, without looking whether there is one.
\<close>

datatype 'r launch = Running 'r | NextNow int | NullCall

definition launch :: "bool \<Rightarrow> bool \<Rightarrow> 'r \<Rightarrow> 'r launch" where
  "launch created has_next r =
     (if created then Running r else if has_next then NextNow XFER_ERR_THREAD else NullCall)"

definition xfer_write_all ::
  "bool \<Rightarrow> ('w \<Rightarrow> string \<Rightarrow> wr \<times> 'w) \<Rightarrow> bool \<Rightarrow> string \<Rightarrow> size_t \<Rightarrow> 'w \<Rightarrow> (int option \<times> 'w) option launch" where
  "xfer_write_all created wrf has_next buf len w =
     launch created has_next (write_thr wrf has_next (cstr buf) w)"

definition xfer_write ::
  "bool \<Rightarrow> ('w \<Rightarrow> string \<Rightarrow> wr \<times> 'w) \<Rightarrow> bool \<Rightarrow> string \<Rightarrow> 'w \<Rightarrow> (int option \<times> 'w) option launch" where
  "xfer_write created wrf has_next str w =
     xfer_write_all created wrf has_next str (of_nat (length (cstr str))) w"

definition xfer_read_mark ::
  "bool \<Rightarrow> bool \<Rightarrow> rlb \<Rightarrow> (mem_fault + (nat \<times> mem) option \<times> rlb) option launch" where
  "xfer_read_mark created has_next b = launch created has_next (read_mark_thr has_next b)"

definition xfer_read_all ::
  "bool \<Rightarrow> bool \<Rightarrow> rd list \<Rightarrow> (mem_fault + (size_t \<times> mem) option \<times> rd list) option launch" where
  "xfer_read_all created has_next rs = launch created has_next (read_all_thr has_next rs)"

definition xfer_read_all_to ::
  "bool \<Rightarrow> ('w \<Rightarrow> string \<Rightarrow> wr \<times> 'w) \<Rightarrow> bool \<Rightarrow> rd list \<Rightarrow> 'w \<Rightarrow> (size_t list \<times> 'w \<times> rd list) option launch" where
  "xfer_read_all_to created wrf has_next rs w = launch created has_next (read_all_to_thr wrf has_next rs w)"

definition xfer_write_all_from ::
  "bool \<Rightarrow> ('w \<Rightarrow> string \<Rightarrow> wr \<times> 'w) \<Rightarrow> bool \<Rightarrow> rd list \<Rightarrow> 'w \<Rightarrow> (size_t list \<times> 'w \<times> rd list) option launch" where
  "xfer_write_all_from created wrf has_next rs w = launch created has_next (write_all_from_thr wrf has_next rs w)"

section \<open>Gathering a connection in memory\<close>

lemma append_block_holds:
  assumes "holds t g" and "length t + length bs < 2 ^ 62"
  obtains g' where "append_block bs g = Some (Inr g')" and "holds (t @ bs) g'"
proof -
  have h: "length (xmem g) = unat (xcap g)" "unat (xlen g) < unat (xcap g)" "unat (xlen g) = length t"
    "take (length t) (xmem g) = map Some t"
    using assms(1) by (auto simp: holds_def fits_def)
  have u: "unat (of_nat (length bs) :: size_t) = length bs"
    using assms(2) by (intro unat_of_nat_small) simp
  then have len: "unat (xlen g + of_nat (length bs)) = length (t @ bs)"
    using h(3) assms(2) by (subst unat_add_small) simp_all
  obtain cap where cap: "grow (xlen g + of_nat (length bs)) (xcap g) = Some cap"
    "xlen g + of_nat (length bs) < cap" "xcap g \<le> cap"
    by (rule grow_ends [of "xcap g" "xlen g + of_nat (length bs)"])
       (use h len assms(2) in \<open>auto simp: word_less_nat_alt\<close>)
  then have c: "length (t @ bs) < unat cap" "unat (xcap g) \<le> unat cap"
    using len by (auto simp: word_less_nat_alt word_le_nat_alt)
  obtain m where m: "store (realloc (xmem g) (unat cap)) (length t) bs = Inr m" "length m = unat cap"
    "take (length t + length bs) m = take (length t) (realloc (xmem g) (unat cap)) @ map Some bs"
  proof (rule store_obtain [of "length t" bs "realloc (xmem g) (unat cap)"])
    show "length t + length bs \<le> length (realloc (xmem g) (unat cap))" using c by simp
  qed (use that in simp)
  have "take (length t) (realloc (xmem g) (unat cap)) = map Some t"
    using h c by (subst take_realloc) auto
  with m(3) have mem: "take (length (t @ bs)) m = map Some (t @ bs)" by simp
  have "append_block bs g = Some (Inr \<lparr>xcap = cap, xlen = xlen g + of_nat (length bs), xmem = m\<rparr>)"
    using cap(1) m(1) h(3) by (simp add: append_block_def Let_def)
  moreover have "holds (t @ bs) \<lparr>xcap = cap, xlen = xlen g + of_nat (length bs), xmem = m\<rparr>"
    unfolding holds_def fits_def using m(2) mem len c by simp
  ultimately show thesis by (rule that)
qed

lemma got_block_Data: "bs \<noteq> [] \<Longrightarrow> got_block (Data bs) = Some bs"
  by simp

lemma read_all_loop_gathers:
  assumes "[] \<notin> set chunks" and "got_block e = None" and "holds t g"
    and "length t + length (concat chunks) < 2 ^ 62"
  shows "\<exists>g'. read_all_loop (map Data chunks @ e # rs) g = Some (Inr (g', rs)) \<and> holds (t @ concat chunks) g'"
  using assms
proof (induction chunks arbitrary: t g)
  case Nil
  then show ?case by simp
next
  case (Cons bs chunks)
  have "length t + length bs < 2 ^ 62" using Cons.prems(4) by simp
  then obtain g' where g': "append_block bs g = Some (Inr g')" "holds (t @ bs) g'"
    using append_block_holds [OF Cons.prems(3)] by blast
  with Cons.IH [OF _ Cons.prems(2) g'(2)] Cons.prems show ?case by auto
qed

lemma gathered:
  assumes "[] \<notin> set chunks" and "got_block e = None" and "length (concat chunks) < 2 ^ 62"
  shows "\<exists>m. read_all_thr True (map Data chunks @ e # rs) =
      Some (Inr (Some (of_nat (length (concat chunks)), m), rs)) \<and>
    take (Suc (length (concat chunks))) m = map Some (concat chunks @ [NUL]) \<and>
    read_all_cb (of_nat (length (concat chunks)), m) =
      Inr (of_nat (length (concat chunks)), cstr (concat chunks))"
proof -
  let ?c = "concat chunks"
  obtain g where g: "read_all_loop (map Data chunks @ e # rs) xbuf_init = Some (Inr (g, rs))" "holds ?c g"
    using read_all_loop_gathers [OF assms(1,2) holds_init] assms(3) by auto
  then have h: "unat (xlen g) = length ?c" "length ?c < length (xmem g)" "take (length ?c) (xmem g) = map Some ?c"
    by (auto simp: holds_def fits_def)
  have "of_nat (unat (xlen g)) = xlen g" by simp
  with h(1) have len: "xlen g = of_nat (length ?c)" by simp
  let ?m = "map Some (?c @ [NUL]) @ drop (Suc (length ?c)) (xmem g)"
  have st: "store (xmem g) (unat (xlen g)) [NUL] = Inr ?m"
    using h by (subst store_fits) simp_all
  then have "read_all_thr True (map Data chunks @ e # rs) = Some (Inr (Some (of_nat (length ?c), ?m), rs))"
    using g(1) len by (simp add: read_all_thr_def)
  moreover have "load_str ?m = Inr (cstr ?c)" by (simp add: load_str_cstr)
  ultimately show ?thesis by (intro exI [of _ ?m]) (simp add: read_all_cb_def)
qed

text \<open>Whatever the connection delivers, no cell outside the array is touched.\<close>

definition gathered_bytes :: "rd list \<Rightarrow> string" where
  "gathered_bytes rs = concat (map (\<lambda>r. case r of Data bs \<Rightarrow> bs | _ \<Rightarrow> []) rs)"

lemma read_all_loop_safe:
  assumes "holds t g" and "length t + length (gathered_bytes rs) < 2 ^ 62"
  shows "read_all_loop rs g = None \<or> (\<exists>g' rs' t'. read_all_loop rs g = Some (Inr (g', rs')) \<and> holds t' g')"
  using assms
proof (induction rs arbitrary: t g)
  case (Cons r rs)
  show ?case
  proof (cases "got_block r")
    case None
    with Cons.prems(1) show ?thesis by auto
  next
    case (Some bs)
    then have r: "r = Data bs" by (cases r) (auto split: if_splits)
    with Cons.prems(2) have "length t + length bs < 2 ^ 62" by (simp add: gathered_bytes_def)
    then obtain g' where g': "append_block bs g = Some (Inr g')" "holds (t @ bs) g'"
      using append_block_holds [OF Cons.prems(1)] by blast
    have "length (t @ bs) + length (gathered_bytes rs) < 2 ^ 62"
      using Cons.prems(2) r by (simp add: gathered_bytes_def)
    from Cons.IH [OF g'(2) this] Some g'(1) show ?thesis by simp
  qed
qed simp

lemma gatherer_in_bounds:
  assumes "length (gathered_bytes rs) < 2 ^ 62"
  shows "read_all_thr n rs = None \<or>
    (\<exists>q rs'. read_all_thr n rs = Some (Inr (q, rs')) \<and> (q = None \<longleftrightarrow> \<not> n))"
proof (cases "read_all_loop rs xbuf_init")
  case None
  then show ?thesis by (simp add: read_all_thr_def)
next
  case (Some r)
  with read_all_loop_safe [OF holds_init, of rs] assms obtain g rs' t where
    g: "read_all_loop rs xbuf_init = Some (Inr (g, rs'))" "holds t g" by auto
  then have "unat (xlen g) + length [NUL] \<le> length (xmem g)" by (auto simp: holds_def fits_def)
  then obtain m where "store (xmem g) (unat (xlen g)) [NUL] = Inr m" by (simp add: store_def)
  with g(1) show ?thesis by (simp add: read_all_thr_def)
qed

text \<open>
  \<open>read_all_thr\<close> gathers a connection: when blocks arrive and then the end of the stream
  (or an error, which is not told apart), the callback gets their total length and an array that
  holds exactly their bytes and a NUL, and no cell outside the array is touched.
\<close>

theorem read_all_gathers:
  assumes "[] \<notin> set chunks" and "got_block e = None" and "length (concat chunks) < 2 ^ 62"
  shows "\<exists>m. read_all_thr True (map Data chunks @ e # rs) =
      Some (Inr (Some (of_nat (length (concat chunks)), m), rs)) \<and>
    take (Suc (length (concat chunks))) m = map Some (concat chunks @ [NUL]) \<and>
    read_all_cb (of_nat (length (concat chunks)), m) =
      Inr (of_nat (length (concat chunks)), cstr (concat chunks))"
  using assms by (rule gathered)

theorem read_all_gathers_witness:
  "\<exists>m. read_all_thr True [Data ''ab'', Data ''c'', Data []] = Some (Inr (Some (3, m), [])) \<and>
    take (Suc (length ''abc'')) m = map Some (''abc'' @ [NUL]) \<and> read_all_cb (3, m) = Inr (3, ''abc'')"
  using read_all_gathers [of "[''ab'', ''c'']" "Data []" "[]"] by (simp add: cstr_def)

section \<open>Files over a connection\<close>

text \<open>The running totals reported to the callback, from a start value.\<close>

fun totals :: "size_t \<Rightarrow> string list \<Rightarrow> size_t list" where
  "totals len [] = []"
| "totals len (bs # chunks) = (len + of_nat (length bs)) # totals (len + of_nat (length bs)) chunks"

text \<open>A descriptor that takes at most \<open>k\<close> bytes of each block and says so.\<close>

definition takes_up_to :: "nat \<Rightarrow> ('w \<Rightarrow> string \<Rightarrow> wr \<times> 'w) \<Rightarrow> ('w \<Rightarrow> string) \<Rightarrow> bool" where
  "takes_up_to k wrf dl \<longleftrightarrow>
     (\<forall>w bs. \<exists>w'. wrf w bs = (Wrote (min k (length bs)), w') \<and> dl w' = dl w @ take k bs)"

lemma read_all_to_loop_takes:
  assumes "takes_up_to k wrf dl" and "[] \<notin> set chunks" and "got_block e = None"
  shows "\<exists>w'. read_all_to_loop wrf (map Data chunks @ e # rs) len w = Some (totals len chunks, w', rs) \<and>
    dl w' = dl w @ concat (map (take k) chunks)"
  using assms(2)
proof (induction chunks arbitrary: len w)
  case Nil
  with assms(3) show ?case by simp
next
  case (Cons bs chunks)
  obtain w1 where w1: "wrf w bs = (Wrote (min k (length bs)), w1)" "dl w1 = dl w @ take k bs"
    using assms(1) unfolding takes_up_to_def by blast
  with Cons.IH [of "len + of_nat (length bs)" w1] Cons.prems show ?case
    by (auto simp: Let_def)
qed

text \<open>
  C39. What a download stores: the thread writes each block once and does not look at how many
  bytes were taken. On a disk that takes whole blocks the file gets exactly the bytes received;
  on one that takes at most \<open>k\<close> bytes at a time the rest of every longer block is lost, and in
  both cases the callback is told the running totals of the bytes received and then \<open>-1\<close>.
\<close>

theorem download_stores:
  assumes "takes_up_to k wrf dl" and "[] \<notin> set chunks" and "got_block e = None"
  shows "\<exists>w'. read_all_to_thr wrf True (map Data chunks @ e # rs) w = Some (totals 0 chunks @ [-1], w', rs) \<and>
    dl w' = dl w @ concat (map (take k) chunks) \<and>
    ((\<forall>bs \<in> set chunks. length bs \<le> k) \<longrightarrow> dl w' = dl w @ concat chunks)"
proof -
  have "map (take k) chunks = chunks" if "\<forall>bs \<in> set chunks. length bs \<le> k"
    using that by (intro map_idI) auto
  with read_all_to_loop_takes [OF assms, of rs 0 w] show ?thesis
    by (auto simp: read_all_to_thr_def)
qed

lemma two_bytes_takes: "takes_up_to 2 two_bytes (\<lambda>w. w)"
  by (simp add: takes_up_to_def two_bytes_def)

theorem download_stores_witness:
  "\<exists>w'. read_all_to_thr two_bytes True [Data ''ab'', Data ''cde'', Fail] [] = Some ([2, 5, -1], w', []) \<and>
    w' = ''abcd''"
  using download_stores [OF two_bytes_takes, of "[''ab'', ''cde'']" Fail "[]" "[]"] by simp

lemma write_all_from_loop_sends:
  assumes "write_law wrf dl" and "write_progress wrf mm" and "\<forall>w bs. fst (wrf w bs) \<noteq> WFail"
    and "[] \<notin> set chunks" and "got_block e = None"
  shows "\<exists>w'. write_all_from_loop wrf (map Data chunks @ e # rs) len w = Some (totals len chunks, w', rs) \<and>
    dl w' = dl w @ concat chunks"
  using assms(4)
proof (induction chunks arbitrary: len w)
  case Nil
  with assms(5) show ?case by simp
next
  case (Cons bs chunks)
  obtain w1 where w1: "write_all wrf bs w = Some (0, w1)" "dl w1 = dl w @ bs"
    using write_all_sends [OF assms(1-3)] by blast
  with Cons.IH [of "len + of_nat (length bs)" w1] Cons.prems show ?case
    by (auto simp: Let_def)
qed

text \<open>
  What an upload sends: on a connection that never fails (but may take any part of a block
  at a time and ask for retries) exactly the bytes of the local file arrive, in order, and the
  callback is told the running totals and then \<open>-1\<close>.
\<close>

theorem upload_sends:
  assumes "write_law wrf dl" and "write_progress wrf mm" and "\<forall>w bs. fst (wrf w bs) \<noteq> WFail"
    and "[] \<notin> set chunks" and "got_block e = None"
  shows "\<exists>w'. write_all_from_thr wrf True (map Data chunks @ e # rs) w = Some (totals 0 chunks @ [-1], w', rs) \<and>
    dl w' = dl w @ concat chunks"
  using write_all_from_loop_sends [OF assms, of rs 0 w] by (auto simp: write_all_from_thr_def)

theorem upload_sends_witness:
  "\<exists>w'. write_all_from_thr two_bytes True [Data ''abc'', Data ''d'', Data []] [] = Some ([3, 4, -1], w', []) \<and>
    w' = ''abcd''"
proof -
  have "write_progress two_bytes (\<lambda>w. 0)" by (auto simp: write_progress_def two_bytes_def)
  moreover have "write_law two_bytes (\<lambda>w. w)" by (auto simp: write_law_def two_bytes_def min_def)
  ultimately show ?thesis
    using upload_sends [of two_bytes "\<lambda>w. w" "\<lambda>w. 0" "[''abc'', ''d'']" "Data []" "[]" "[]"]
    by (simp add: two_bytes_def)
qed

text \<open>
  \<open>xfer_write\<close> and \<open>xfer_write_all\<close> send the C string at the start of the buffer, whatever
  length the caller gives, and report 0, on a connection that never fails; when no thread can be
  created nothing is sent, and a caller without a callback makes the program call \<open>NULL\<close>.
\<close>

theorem xfer_write_sends:
  assumes "write_law wrf dl" and "write_progress wrf mm" and "\<forall>w bs. fst (wrf w bs) \<noteq> WFail"
  shows "\<exists>w'. xfer_write_all True wrf n buf len w = Running (Some (if n then Some 0 else None, w')) \<and>
    dl w' = dl w @ cstr buf \<and>
    xfer_write True wrf n buf w = xfer_write_all True wrf n buf len w \<and>
    xfer_write_all False wrf n buf len w = (if n then NextNow XFER_ERR_THREAD else NullCall)"
proof -
  obtain w' where "write_all wrf (cstr buf) w = Some (0, w')" "dl w' = dl w @ cstr buf"
    using write_all_sends [OF assms] .
  then show ?thesis by (simp add: xfer_write_all_def xfer_write_def write_thr_def launch_def)
qed

lemma two_bytes_laws: "write_law two_bytes (\<lambda>w. w)" "write_progress two_bytes (\<lambda>w. 0)"
    "\<forall>w bs. fst (two_bytes w bs) \<noteq> WFail"
  by (auto simp: write_law_def write_progress_def two_bytes_def min_def)

theorem xfer_write_sends_witness:
  "\<exists>w'. xfer_write_all True two_bytes False (''PWD'' @ [NUL] @ ''x'') 5 [] = Running (Some (None, w')) \<and>
    w' = [] @ cstr (''PWD'' @ [NUL] @ ''x'') \<and>
    xfer_write True two_bytes False (''PWD'' @ [NUL] @ ''x'') [] =
      xfer_write_all True two_bytes False (''PWD'' @ [NUL] @ ''x'') 5 [] \<and>
    xfer_write_all False two_bytes False (''PWD'' @ [NUL] @ ''x'') 5 [] = NullCall"
  using xfer_write_sends [OF two_bytes_laws, of False "''PWD'' @ [NUL] @ ''x''" 5 "[]"] by simp

section \<open>Internet addresses\<close>

text \<open>
  \<open>inet_addr\<close> of the C library, which the client gives the host it connects to: one to four
  numbers with dots between them, each decimal, octal after a \<open>0\<close> or hexadecimal after
  \<open>0x\<close>, the last one filling the bytes that are left; what follows a white space is ignored.
  The result is the four bytes in network order, all 255 (\<open>INADDR_NONE\<close>) for any other text.
\<close>

definition base_digit :: "nat \<Rightarrow> char \<Rightarrow> nat option" where
  "base_digit b c =
     (let v = (if isdigit c then Some (digit_val c)
               else if CHR ''a'' \<le> c \<and> c \<le> CHR ''f'' then Some (of_char c - 87)
               else if CHR ''A'' \<le> c \<and> c \<le> CHR ''F'' then Some (of_char c - 55) else None)
      in case v of Some d \<Rightarrow> if d < b then Some d else None | None \<Rightarrow> None)"

fun base_number :: "nat \<Rightarrow> nat \<Rightarrow> string \<Rightarrow> nat option" where
  "base_number b acc [] = Some acc"
| "base_number b acc (c # cs) =
     (case base_digit b c of None \<Rightarrow> None | Some d \<Rightarrow> base_number b (acc * b + d) cs)"

definition c_number :: "string \<Rightarrow> nat option" where
  "c_number s =
     (case s of
        [] \<Rightarrow> None
      | [c] \<Rightarrow> base_number 10 0 [c]
      | c # d # cs \<Rightarrow>
          if c = CHR ''0'' then
            (if d = CHR ''x'' \<or> d = CHR ''X'' then (if cs = [] then None else base_number 16 0 cs)
             else base_number 8 0 (d # cs))
          else base_number 10 0 s)"

fun collect :: "'a option list \<Rightarrow> 'a list option" where
  "collect [] = Some []"
| "collect (x # xs) = (case x of None \<Rightarrow> None | Some a \<Rightarrow> map_option ((#) a) (collect xs))"

text \<open>The bytes of a number, most significant first.\<close>

fun be_bytes :: "nat \<Rightarrow> nat \<Rightarrow> u8 list" where
  "be_bytes 0 v = []"
| "be_bytes (Suc k) v = be_bytes k (v div 256) @ [of_nat (v mod 256)]"

definition INADDR_NONE :: "u8 list" where
  "INADDR_NONE = [255, 255, 255, 255]"

definition inet_addr :: "string \<Rightarrow> u8 list" where
  "inet_addr s =
     (case collect (map c_number (split_at (CHR ''.'') (takeWhile (\<lambda>c. \<not> isspace c) s))) of
        None \<Rightarrow> INADDR_NONE
      | Some vs \<Rightarrow>
          let k = length vs in
          if k \<le> 4 \<and> list_all (\<lambda>v. v < 256) (butlast vs) \<and> last vs < 256 ^ (5 - k)
          then map of_nat (butlast vs) @ be_bytes (5 - k) (last vs) else INADDR_NONE)"

section \<open>Connections\<close>

record xfer =
  x_fd :: int
  x_pasv_fd :: int
  x_b :: rlb

text \<open>\<open>close()\<close> of a negative descriptor does nothing.\<close>

definition close_fd :: "('w, 'f) os \<Rightarrow> int \<Rightarrow> 'w \<Rightarrow> 'w" where
  "close_fd os fd w = (if fd < 0 then w else os_close os (nat fd) w)"

text \<open>
  The body of the connecting thread; \<open>coming\<close> is what the reads on the connection will return.
  The code is queued for \<open>next\<close>.
\<close>

definition conn_thr ::
  "('w, 'f) os \<Rightarrow> rd list \<Rightarrow> u8 list \<Rightarrow> u16 \<Rightarrow> xfer \<Rightarrow> 'w \<Rightarrow> xfer \<times> int \<times> 'w" where
  "conn_thr os coming to_addr to_port x w =
     (let (successful, x1, w1) =
        (if to_addr = [0, 0, 0, 0] then
           (case os_listen os (nat (x_pasv_fd x)) w of
              (False, w1) \<Rightarrow> (False, x, w1)
            | (True, w1) \<Rightarrow>
                (case os_accept os (nat (x_pasv_fd x)) w1 of
                   (AConn fd, w2) \<Rightarrow> (0 < fd, x\<lparr>x_fd := int fd\<rparr>, w2)
                 | (_, w2) \<Rightarrow> (False, x\<lparr>x_fd := -1\<rparr>, w2)))
         else
           (case os_connect os (nat (x_fd x)) to_addr to_port w of (ok, w1) \<Rightarrow> (ok, x, w1)))
      in if successful then (x1\<lparr>x_b := rlb_init coming\<rparr>, 0, w1)
         else (x1, XFER_ERR_CONNECT, close_fd os (x_fd x1) w1))"

text \<open>The thread that was started, with its arguments, or \<open>next\<close> called at once with an error.\<close>

datatype started = Started "u8 list" u16 | Called int

definition xfer_init ::
  "('w, 'f) os \<Rightarrow> xfer \<Rightarrow> string \<Rightarrow> int \<Rightarrow> 'w \<Rightarrow> xfer \<times> started \<times> 'w" where
  "xfer_init os x host to_port w =
     (case sock_ephemeral os w of (fd, w1) \<Rightarrow>
        if fd < 0 then (x, Called XFER_ERR_SOCKET, w1)
        else
          let x1 = x\<lparr>x_fd := fd\<rparr> in
          (case os_pthread_create os w1 of
             (True, w2) \<Rightarrow> (x1, Started (inet_addr host) (word_of_int to_port), w2)
           | (False, w2) \<Rightarrow> (x1, Called XFER_ERR_THREAD, close_fd os fd w2)))"

definition xfer_init_listen_1 ::
  "('w, 'f) os \<Rightarrow> xfer \<Rightarrow> xfer \<Rightarrow> 'w \<Rightarrow> xfer \<times> (int + u8 list) \<times> 'w" where
  "xfer_init_listen_1 os x y w =
     (case ephemeral os (nat (x_fd y)) w of
        (Inl e, w1) \<Rightarrow> (x, Inl XFER_ERR_SOCKET, w1)
      | (Inr (local_addr, fd), w1) \<Rightarrow> (x\<lparr>x_pasv_fd := int fd\<rparr>, Inr local_addr, w1))"

text \<open>The port is not set by \<open>xfer_init_listen_2\<close> (it is not used when listening).\<close>

definition xfer_init_listen_2 :: "('w, 'f) os \<Rightarrow> xfer \<Rightarrow> 'w \<Rightarrow> xfer \<times> started \<times> 'w" where
  "xfer_init_listen_2 os x w =
     (case os_pthread_create os w of
        (True, w1) \<Rightarrow> (x, Started [0, 0, 0, 0] 0, w1)
      | (False, w1) \<Rightarrow> (x, Called XFER_ERR_THREAD, close_fd os (x_pasv_fd x) w1))"

definition xfer_deinit :: "('w, 'f) os \<Rightarrow> xfer \<Rightarrow> 'w \<Rightarrow> 'w" where
  "xfer_deinit os x w = close_fd os (x_fd x) w"

text \<open>Both ways of making a connection, up to the code given to \<open>next\<close>.\<close>

definition connect_run ::
  "('w, 'f) os \<Rightarrow> rd list \<Rightarrow> xfer \<Rightarrow> string \<Rightarrow> int \<Rightarrow> 'w \<Rightarrow> xfer \<times> int \<times> 'w" where
  "connect_run os coming x host to_port w =
     (case xfer_init os x host to_port w of
        (x1, Called c, w1) \<Rightarrow> (x1, c, w1)
      | (x1, Started a p, w1) \<Rightarrow> conn_thr os coming a p x1 w1)"

definition listen_run ::
  "('w, 'f) os \<Rightarrow> rd list \<Rightarrow> xfer \<Rightarrow> xfer \<Rightarrow> 'w \<Rightarrow> xfer \<times> int \<times> 'w" where
  "listen_run os coming x y w =
     (case xfer_init_listen_1 os x y w of
        (x1, Inl e, w1) \<Rightarrow> (x1, e, w1)
      | (x1, Inr a, w1) \<Rightarrow>
          (case xfer_init_listen_2 os x1 w1 of
             (x2, Called c, w2) \<Rightarrow> (x2, c, w2)
           | (x2, Started a p, w2) \<Rightarrow> conn_thr os coming a p x2 w2))"

text \<open>The documented behaviour of the calls on descriptors: which of them are open.\<close>

definition fd_law :: "('w, 'f) os \<Rightarrow> ('w \<Rightarrow> nat set) \<Rightarrow> bool" where
  "fd_law os fds \<longleftrightarrow>
     (\<forall>w fd w1. os_socket os w = (Some fd, w1) \<longrightarrow> fd \<notin> fds w \<and> fds w1 = insert fd (fds w)) \<and>
     (\<forall>w w1. os_socket os w = (None, w1) \<longrightarrow> fds w1 = fds w) \<and>
     (\<forall>fd w. fds (snd (os_bind os fd w)) = fds w) \<and>
     (\<forall>w. fds (snd (os_pthread_create os w)) = fds w) \<and>
     (\<forall>fd a p w. fds (snd (os_connect os fd a p w)) = fds w) \<and>
     (\<forall>fd w. fds (snd (os_listen os fd w)) = fds w) \<and>
     (\<forall>fd w c w1. os_accept os fd w = (AConn c, w1) \<longrightarrow> c \<notin> fds w \<and> fds w1 = insert c (fds w)) \<and>
     (\<forall>fd w. fds (os_close os fd w) = fds w - {fd})"

lemma fd_laws:
  assumes "fd_law os fds"
  shows "os_socket os w = (Some fd, w1) \<Longrightarrow> fd \<notin> fds w \<and> fds w1 = insert fd (fds w)"
    and "os_socket os w = (None, w1) \<Longrightarrow> fds w1 = fds w"
    and "os_bind os fd w = (ok, w1) \<Longrightarrow> fds w1 = fds w"
    and "os_pthread_create os w = (ok, w1) \<Longrightarrow> fds w1 = fds w"
    and "os_connect os fd a p w = (ok, w1) \<Longrightarrow> fds w1 = fds w"
    and "os_listen os fd w = (ok, w1) \<Longrightarrow> fds w1 = fds w"
    and "os_accept os fd w = (AConn c, w1) \<Longrightarrow> c \<notin> fds w \<and> fds w1 = insert c (fds w)"
    and "fds (os_close os fd w) = fds w - {fd}"
  using assms unfolding fd_law_def by (metis snd_conv)+

lemma sock_ephemeral_fds:
  assumes "fd_law os fds" and "sock_ephemeral os w = (fd, w1)"
  shows "if fd < 0 then fds w1 = fds w else nat fd \<notin> fds w \<and> fds w1 = insert (nat fd) (fds w)"
proof (cases "os_socket os w")
  case (Pair a w2)
  show ?thesis
  proof (cases a)
    case None
    with Pair assms(2) fd_laws(2) [OF assms(1)] show ?thesis by (auto simp: sock_ephemeral_def)
  next
    case (Some k)
    obtain ok w3 where b: "os_bind os k w2 = (ok, w3)" by (cases "os_bind os k w2")
    have "fds w3 = insert k (fds w)" "k \<notin> fds w"
      using fd_laws(1) [OF assms(1)] fd_laws(3) [OF assms(1) b] Pair Some by auto
    with Pair Some b assms(2) fd_laws(8) [OF assms(1)] show ?thesis
      by (cases ok) (auto simp: sock_ephemeral_def)
  qed
qed

text \<open>
  Connecting to a host (other than 0.0.0.0) leaves no descriptor behind: on success exactly
  the one in the transfer record has been opened, on any failure none, and \<open>next\<close> gets 0, no
  socket, no thread or no connection accordingly.
\<close>

theorem connect_no_leak:
  assumes "fd_law os fds" and "inet_addr host \<noteq> [0, 0, 0, 0]"
    and "connect_run os coming x host to_port w = (x', code, w')"
  shows "code \<in> {0, XFER_ERR_SOCKET, XFER_ERR_THREAD, XFER_ERR_CONNECT} \<and>
    (if code = 0 then 0 \<le> x_fd x' \<and> nat (x_fd x') \<notin> fds w \<and> fds w' = insert (nat (x_fd x')) (fds w) \<and>
        x_b x' = rlb_init coming
     else fds w' = fds w)"
proof -
  obtain fd w1 where s: "sock_ephemeral os w = (fd, w1)" by (cases "sock_ephemeral os w")
  note sf = sock_ephemeral_fds [OF assms(1) s]
  show ?thesis
  proof (cases "fd < 0")
    case True
    with s sf assms(3) show ?thesis
      by (auto simp: connect_run_def xfer_init_def XFER_ERR_SOCKET_def)
  next
    case False
    obtain ok w2 where t: "os_pthread_create os w1 = (ok, w2)" by (cases "os_pthread_create os w1")
    note f2 = fd_laws(4) [OF assms(1) t]
    show ?thesis
    proof (cases ok)
      case False': False
      with s sf t f2 False assms(3) fd_laws(8) [OF assms(1)] show ?thesis
        by (auto simp: connect_run_def xfer_init_def Let_def XFER_ERR_THREAD_def close_fd_def)
    next
      case True
      obtain ok3 w3 where c: "os_connect os (nat fd) (inet_addr host) (word_of_int to_port) w2 = (ok3, w3)"
        by (cases "os_connect os (nat fd) (inet_addr host) (word_of_int to_port) w2")
      have r: "connect_run os coming x host to_port w =
          (if ok3 then (x\<lparr>x_fd := fd, x_b := rlb_init coming\<rparr>, 0, w3)
           else (x\<lparr>x_fd := fd\<rparr>, XFER_ERR_CONNECT, close_fd os fd w3))"
        using s t c True False assms(2)
        by (simp add: connect_run_def xfer_init_def Let_def conn_thr_def)
      with fd_laws(5) [OF assms(1) c] f2 sf False assms(3) fd_laws(8) [OF assms(1)] show ?thesis
        by (auto simp: XFER_ERR_CONNECT_def close_fd_def split: if_splits)
    qed
  qed
qed

text \<open>
  After a transfer in active mode the listening socket is still open: closing the transfer
  closes the accepted connection only.
\<close>

theorem listen_leaks:
  assumes "fd_law os fds" and "listen_run os coming x y w = (x', 0, w')"
  shows "nat (x_pasv_fd x') \<notin> fds w \<and> fds (xfer_deinit os x' w') = insert (nat (x_pasv_fd x')) (fds w)"
proof -
  obtain fd w1 where s: "sock_ephemeral os w = (fd, w1)" by (cases "sock_ephemeral os w")
  note sf = sock_ephemeral_fds [OF assms(1) s]
  have fd: "\<not> fd < 0" using s assms(2)
    by (auto simp: listen_run_def xfer_init_listen_1_def ephemeral_def XFER_ERR_SOCKET_def)
  let ?x = "x\<lparr>x_pasv_fd := fd\<rparr>"
  have l1: "xfer_init_listen_1 os x y w =
      (?x, Inr (fst (os_getsockname os (nat (x_fd y)) w1) @ snd (os_getsockname os (nat fd) w1)), w1)"
    using s fd by (simp add: xfer_init_listen_1_def ephemeral_def Let_def)
  obtain ok w2 where t: "os_pthread_create os w1 = (ok, w2)" by (cases "os_pthread_create os w1")
  have ok: ok using l1 t assms(2)
    by (cases ok) (auto simp: listen_run_def xfer_init_listen_2_def XFER_ERR_THREAD_def)
  obtain ok3 w3 where l: "os_listen os (nat fd) w2 = (ok3, w3)" by (cases "os_listen os (nat fd) w2")
  obtain a w4 where c: "os_accept os (nat fd) w3 = (a, w4)" by (cases "os_accept os (nat fd) w3")
  obtain k where a: "a = AConn k" "x' = ?x\<lparr>x_fd := int k, x_b := rlb_init coming\<rparr>" "w' = w4"
    using assms(2) l1 t ok l c
    by (cases ok3; cases a) (auto simp: listen_run_def xfer_init_listen_2_def conn_thr_def Let_def
        XFER_ERR_CONNECT_def split: if_splits)
  have "fds w3 = insert (nat fd) (fds w)" "nat fd \<notin> fds w"
    using sf fd fd_laws(4) [OF assms(1) t] fd_laws(6) [OF assms(1) l] by auto
  with fd_laws(7) [OF assms(1) c [unfolded a(1)]] fd_laws(8) [OF assms(1)] a(2,3) show ?thesis
    by (auto simp: xfer_deinit_def close_fd_def)
qed

text \<open>A system that hands out descriptors: its world is the list of those that are open.\<close>

definition next_fd :: "nat list \<Rightarrow> nat" where
  "next_fd w = Suc (foldr max w 2)"

definition fd_os :: "(nat list, unit) os" where
  "fd_os = \<lparr>os_lstat = (\<lambda>w p. None), os_mkdir = (\<lambda>p w. (None, w)), os_rmdir = (\<lambda>p w. (None, w)),
     os_unlink = (\<lambda>p w. (None, w)), os_rename = (\<lambda>p q w. (None, w)), os_truncate = (\<lambda>p n w. w),
     os_fopen = (\<lambda>p m w. (None, w)), os_popen = (\<lambda>c w. (None, w)), os_fseek = (\<lambda>f n w. w),
     os_fread = (\<lambda>f n w. ([], w)), os_fwrite = (\<lambda>f bs w. w), os_feof = (\<lambda>f w. True),
     os_ferror = (\<lambda>f w. False), os_fclose = (\<lambda>f w. w), os_pclose = (\<lambda>f w. w),
     os_pthread_create = (\<lambda>w. (True, w)), os_socket = (\<lambda>w. (Some (next_fd w), next_fd w # w)),
     os_bind = (\<lambda>fd w. (True, w)), os_listen = (\<lambda>fd w. (True, w)), os_nonblock = (\<lambda>fd w. (True, w)),
     os_getsockname = (\<lambda>fd w. ([127, 0, 0, 1], [16, of_nat fd])), os_connect = (\<lambda>fd a p w. (p \<noteq> 0, w)),
     os_accept = (\<lambda>fd w. (AConn (next_fd w), next_fd w # w)), os_read = (\<lambda>fd n w. (Data [], w)),
     os_write = (\<lambda>fd w bs. (Wrote (length bs), w)), os_poll_hup = (\<lambda>fd w. (False, w)),
     os_peek_closed = (\<lambda>fd w. (False, w)), os_close = (\<lambda>fd w. filter (\<lambda>x. x \<noteq> fd) w),
     os_hangs = (\<lambda>c w. False)\<rparr>"

lemma next_fd_new: "next_fd w \<notin> set w"
proof -
  have "x \<in> set w \<Longrightarrow> x \<le> foldr max w 2" for x
    by (induction w) (auto simp: le_max_iff_disj)
  then show ?thesis unfolding next_fd_def by (metis Suc_n_not_le_n)
qed

lemma fd_os_law: "fd_law fd_os set"
  by (auto simp: fd_law_def fd_os_def next_fd_new)

definition xfer0 :: xfer where
  "xfer0 = \<lparr>x_fd = 0, x_pasv_fd = 0, x_b = rlb_init []\<rparr>"

theorem connect_no_leak_witness:
  "(0::int) \<in> {0, XFER_ERR_SOCKET, XFER_ERR_THREAD, XFER_ERR_CONNECT} \<and>
   (if (0::int) = 0 then 0 \<le> x_fd (xfer0\<lparr>x_fd := 8\<rparr>) \<and> nat (x_fd (xfer0\<lparr>x_fd := 8\<rparr>)) \<notin> set [7] \<and>
       set [8, 7] = insert (nat (x_fd (xfer0\<lparr>x_fd := 8\<rparr>))) (set [7]) \<and>
       x_b (xfer0\<lparr>x_fd := 8\<rparr>) = rlb_init []
    else set [8, 7] = set [7 :: nat])"
proof (rule connect_no_leak [OF fd_os_law])
  show "inet_addr ''10.0.0.1'' \<noteq> [0, 0, 0, 0]" by code_simp
  show "connect_run fd_os [] xfer0 ''10.0.0.1'' 21 [7] = (xfer0\<lparr>x_fd := 8\<rparr>, 0, [8, 7])"
  proof -
    have "inet_addr ''10.0.0.1'' = [10, 0, 0, 1]" by code_simp
    moreover have "sock_ephemeral fd_os [7] = (8, [8, 7])"
      by (simp add: sock_ephemeral_def fd_os_def next_fd_def)
    ultimately show ?thesis
      by (simp add: connect_run_def xfer_init_def conn_thr_def Let_def fd_os_def xfer0_def)
  qed
qed

theorem listen_leaks_witness:
  "nat (x_pasv_fd (xfer0\<lparr>x_pasv_fd := 8, x_fd := 9\<rparr>)) \<notin> set [7] \<and>
   set (xfer_deinit fd_os (xfer0\<lparr>x_pasv_fd := 8, x_fd := 9\<rparr>) [9, 8, 7]) =
     insert (nat (x_pasv_fd (xfer0\<lparr>x_pasv_fd := 8, x_fd := 9\<rparr>))) (set [7])"
proof (rule listen_leaks [OF fd_os_law])
  have "sock_ephemeral fd_os [7] = (8, [8, 7])"
    by (simp add: sock_ephemeral_def fd_os_def next_fd_def)
  then show "listen_run fd_os [] xfer0 (xfer0\<lparr>x_fd := 7\<rparr>) [7] =
      (xfer0\<lparr>x_pasv_fd := 8, x_fd := 9\<rparr>, 0, [9, 8, 7])"
    by (simp add: listen_run_def xfer_init_listen_1_def xfer_init_listen_2_def ephemeral_def conn_thr_def
        Let_def fd_os_def xfer0_def next_fd_def)
qed

section \<open>Dotted addresses\<close>

definition dotted :: "nat list \<Rightarrow> string" where
  "dotted ns = (case map dec ns of [] \<Rightarrow> [] | d # ds \<Rightarrow> d @ concat (map (\<lambda>e. CHR ''.'' # e) ds))"

lemma isdigit_base: "isdigit c \<Longrightarrow> base_digit 10 c = Some (digit_val c)"
proof -
  assume d: "isdigit c"
  then have "of_char c \<le> (57 :: nat)" by (simp add: isdigit_def less_eq_char_def)
  then have "digit_val c < 10" by (simp add: digit_val_def)
  with d show ?thesis by (simp add: base_digit_def)
qed

lemma base_number_digits:
  "list_all isdigit s \<Longrightarrow> base_number 10 acc s = Some (fst (scan_digits acc s))"
  by (induction s arbitrary: acc) (auto simp: isdigit_base)

lemma base_number_dec: "base_number 10 0 (dec n) = Some n"
  using base_number_digits [OF dec_isdigit, of 0 n] by (simp add: scan_digits_dec_snoc)

lemma dec_no_leading_zero: "10 \<le> n \<Longrightarrow> hd (dec n) \<noteq> CHR ''0''"
proof (induction n rule: dec.induct)
  case (1 n)
  show ?case
  proof (cases "n div 10 < 10")
    case True
    have "of_char (digit_char (n div 10)) = 48 + n div 10" using True by (rule of_char_digit)
    moreover have "0 < n div 10" using "1.prems" by simp
    ultimately have "digit_char (n div 10) \<noteq> CHR ''0''" by auto
    moreover have "dec (n div 10) = [digit_char (n div 10)]" using True by (subst dec.simps) simp
    ultimately show ?thesis using "1.prems" by (subst dec.simps) simp
  next
    case False
    with "1" show ?thesis by (subst dec.simps) simp
  qed
qed

lemma c_number_dec: "c_number (dec n) = Some n"
proof (cases "n < 10")
  case True
  then have "dec n = [digit_char n]" by (subst dec.simps) simp
  then show ?thesis using base_number_dec [of n] by (simp add: c_number_def)
next
  case False
  then obtain c d cs where c: "dec n = c # d # cs"
    by (cases "dec n"; cases "tl (dec n)") (auto simp: dec.simps [of n] append_eq_Cons_conv)
  with dec_no_leading_zero [of n] False have "c \<noteq> CHR ''0''" by simp
  with c base_number_dec [of n] show ?thesis by (simp add: c_number_def)
qed

lemma dec_no_dot: "CHR ''.'' \<notin> set (dec n)" and dec_no_space: "c \<in> set (dec n) \<Longrightarrow> \<not> isspace c"
proof -
  show "CHR ''.'' \<notin> set (dec n)"
    using dec_digits_only [of "CHR ''.''" n] by (auto simp: isdigit_def less_eq_char_def)
  show "c \<in> set (dec n) \<Longrightarrow> \<not> isspace c"
    using dec_digits_only [of c n] by (auto simp: isdigit_def isspace_def less_eq_char_def)
qed

lemma dotted_4: "dotted [a, b, c, d] = dec a @ CHR ''.'' # dec b @ CHR ''.'' # dec c @ CHR ''.'' # dec d"
  by (simp add: dotted_def)

lemma inet_addr_dotted_4:
  assumes "list_all (\<lambda>n. n < 256) [a, b, c, d]"
  shows "inet_addr (dotted [a, b, c, d]) = map of_nat [a, b, c, d]"
proof -
  let ?s = "dotted [a, b, c, d]"
  have "\<not> isspace (CHR ''.'')" by (simp add: isspace_def less_eq_char_def)
  then have sp: "takeWhile (\<lambda>c. \<not> isspace c) ?s = ?s"
    by (intro takeWhile_eq_all_conv [THEN iffD2]) (auto simp: dotted_4 dec_no_space)
  have "split_at (CHR ''.'') ?s = [dec a, dec b, dec c, dec d]"
    unfolding dotted_4 by (simp add: split_at_append_sep split_at_no_sep dec_no_dot)
  then have "collect (map c_number (split_at (CHR ''.'') ?s)) = Some [a, b, c, d]"
    by (simp add: c_number_dec)
  with assms show ?thesis unfolding inet_addr_def sp by (simp add: Let_def)
qed

text \<open>Nothing of the set-up looks at \<open>connect\<close> when the address is zero.\<close>

lemma close_fd_unused: "close_fd (os\<lparr>os_connect := f\<rparr>) fd w = close_fd os fd w"
  by (simp add: close_fd_def)

lemma os_connect_unused:
  "sock_ephemeral (os\<lparr>os_connect := f\<rparr>) w = sock_ephemeral os w"
  "conn_thr (os\<lparr>os_connect := f\<rparr>) coming [0, 0, 0, 0] p x w = conn_thr os coming [0, 0, 0, 0] p x w"
  by (simp_all add: close_fd_unused sock_ephemeral_def conn_thr_def Let_def
      cong: option.case_cong prod.case_cong bool.case_cong if_cong)

lemma xfer_init_os_connect: "xfer_init (os\<lparr>os_connect := f\<rparr>) x host p w = xfer_init os x host p w"
  by (simp add: xfer_init_def close_fd_unused os_connect_unused Let_def
      cong: prod.case_cong bool.case_cong if_cong)

lemma xfer_init_addr: "xfer_init os x host p w = (x1, Started a p1, w1) \<Longrightarrow> a = inet_addr host"
  by (auto simp: xfer_init_def Let_def split: prod.splits if_splits bool.splits)

text \<open>
  The address the client connects to: the dotted text it prints for an address is read back
  by \<open>inet_addr\<close> as the four bytes. A server that names the address 0.0.0.0 (or a user who
  types it) makes the client listen on its passive socket: then nothing depends on what
  \<open>connect\<close> would do.
\<close>

theorem dotted_address:
  assumes "list_all (\<lambda>n. n < 256) [a, b, c, d]"
  shows "inet_addr (dotted [a, b, c, d]) = map of_nat [a, b, c, d] \<and>
    ([a, b, c, d] = [0, 0, 0, 0] \<longrightarrow>
      connect_run (os\<lparr>os_connect := f\<rparr>) coming x (dotted [a, b, c, d]) to_port w =
      connect_run os coming x (dotted [a, b, c, d]) to_port w)"
proof -
  have "connect_run (os\<lparr>os_connect := f\<rparr>) coming x (dotted [a, b, c, d]) to_port w =
      connect_run os coming x (dotted [a, b, c, d]) to_port w" if "[a, b, c, d] = [0, 0, 0, 0]"
  proof -
    have "inet_addr (dotted [a, b, c, d]) = [0, 0, 0, 0]"
      using inet_addr_dotted_4 [OF assms] that by simp
    with xfer_init_addr [of os x "dotted [a, b, c, d]" to_port w] show ?thesis
      by (auto simp: connect_run_def xfer_init_os_connect os_connect_unused split: prod.splits started.splits)
  qed
  with inet_addr_dotted_4 [OF assms] show ?thesis by blast
qed

theorem dotted_address_witness:
  "inet_addr (dotted [0, 0, 0, 0]) = map of_nat [0 :: nat, 0, 0, 0] \<and>
    ([0 :: nat, 0, 0, 0] = [0, 0, 0, 0] \<longrightarrow>
      connect_run (fd_os\<lparr>os_connect := \<lambda>fd a p w. (False, [])\<rparr>) [] xfer0 (dotted [0, 0, 0, 0]) 21 [7] =
      connect_run fd_os [] xfer0 (dotted [0, 0, 0, 0]) 21 [7])"
  by (rule dotted_address) simp

end
