(* ===== verification/FileList.thy ===== *)
theory FileList
  imports CMemory "HOL-Library.Multiset"
begin

text \<open>
  The file list of the client, \<^verbatim>\<open>client/model_filelist.c\<close> and \<^verbatim>\<open>.h\<close>: the records and their
  order, the table model the user interface reads and writes, the search for names that are not
  taken, and the printing of sizes. Calls that tell the user interface which rows changed are
  a log in the state. The widget is a value: the list of its columns.
\<close>

section \<open>Records and their order\<close>

record file_rec =
  is_dir :: int
  fr_name :: string
  fr_size :: int
  fr_date :: string

definition new_folder_prefix :: string where
  "new_folder_prefix = ''new_folder_''"

text \<open>
  \<open>memcmp(m, s, strlen(s)) == 0\<close> of an array: \<open>memcmp_eq\<close> compares from the front and stops at the
  first difference; \<open>memcmp_whole\<close> reads all of the bytes, as ISO C allows it to. The name of a
  record is an array of its own (\<open>strdup\<close>).
\<close>

definition memcmp_eq :: "mem \<Rightarrow> string \<Rightarrow> mem_fault + bool" where
  "memcmp_eq m s = check_chars (map (\<lambda>c d. d = c) s) m"

definition memcmp_whole :: "mem \<Rightarrow> string \<Rightarrow> mem_fault + bool" where
  "memcmp_whole m s = (if length m < length s then Inl OVERRUN else memcmp_eq m s)"

definition name_array :: "file_rec \<Rightarrow> mem" where
  "name_array r = map Some (fr_name r @ [NUL])"

definition is_new_folder :: "file_rec \<Rightarrow> bool" where
  "is_new_folder r \<longleftrightarrow> memcmp_eq (name_array r) new_folder_prefix = Inr True"

text \<open>The comparison that stops never leaves the array: the prefix has no NUL.\<close>

lemma memcmp_eq_string:
  "NUL \<notin> set s \<Longrightarrow> memcmp_eq (map Some (t @ [NUL])) s = Inr (take (length s) t = s)"
proof (induction s arbitrary: t)
  case (Cons c s)
  then show ?case by (cases t) (auto simp: memcmp_eq_def)
qed (simp add: memcmp_eq_def)

lemma memcmp_name [simp]: "memcmp_eq (name_array r) new_folder_prefix = Inr (is_new_folder r)"
  using memcmp_eq_string [of new_folder_prefix "fr_name r"]
  by (auto simp: is_new_folder_def name_array_def new_folder_prefix_def)

lemma memcmp_whole_name:
  "memcmp_whole (name_array r) new_folder_prefix = Inl OVERRUN \<longleftrightarrow> length (fr_name r) < 10"
  by (simp add: memcmp_whole_def) (simp add: name_array_def new_folder_prefix_def)

fun strcmp :: "string \<Rightarrow> string \<Rightarrow> int" where
  "strcmp [] [] = 0"
| "strcmp [] (d # ds) = -1"
| "strcmp (c # cs) [] = 1"
| "strcmp (c # cs) (d # ds) = (if c < d then -1 else if d < c then 1 else strcmp cs ds)"

definition rec_type :: "file_rec \<Rightarrow> int" where
  "rec_type r = (if is_dir r = 1 \<and> is_new_folder r then -1 else is_dir r)"

definition file_rec_cmp :: "file_rec \<Rightarrow> file_rec \<Rightarrow> int" where
  "file_rec_cmp a b =
     (let a_type = rec_type a; b_type = rec_type b
      in if a_type \<noteq> b_type then b_type - a_type else strcmp (fr_name a) (fr_name b))"

section \<open>The table\<close>

datatype row_note = RowDeleted nat | RowInserted nat | RowChanged nat

record file_list =
  has_contents :: bool
  enabled :: bool
  files :: "file_rec list"
  row_notes :: "row_note list"

abbreviation n_files :: "file_list \<Rightarrow> nat" where
  "n_files l \<equiv> length (files l)"

definition modelNumRows :: "file_list \<Rightarrow> nat" where
  "modelNumRows l = (if has_contents l then n_files l + 1 else 0)"

definition file_list_clear :: "file_list \<Rightarrow> file_list" where
  "file_list_clear l =
     l\<lparr>row_notes := row_notes l @ map RowDeleted (rev [0..<modelNumRows l]), has_contents := False\<rparr>"

definition file_list_set_enabled :: "bool \<Rightarrow> file_list \<Rightarrow> file_list" where
  "file_list_set_enabled e l =
     l\<lparr>enabled := e, row_notes := row_notes l @ map RowChanged (rev [0..<modelNumRows l])\<rparr>"

text \<open>\<open>qsort\<close> of the C library is a parameter: the order of records that compare equal is not specified.\<close>

definition file_list_reset ::
  "((file_rec \<Rightarrow> file_rec \<Rightarrow> int) \<Rightarrow> file_rec list \<Rightarrow> file_rec list) \<Rightarrow> file_rec list \<Rightarrow> file_list \<Rightarrow> file_list" where
  "file_list_reset qsort recs l =
     (let l1 = l\<lparr>row_notes := row_notes l @ map RowDeleted (rev [0..<modelNumRows l])\<rparr>;
          l2 = l1\<lparr>files := qsort file_rec_cmp recs, has_contents := True, enabled := True\<rparr>
      in l2\<lparr>row_notes := row_notes l2 @ map RowInserted [0..<modelNumRows l2]\<rparr>)"

definition file_exists :: "file_rec list \<Rightarrow> string \<Rightarrow> bool" where
  "file_exists fs nm \<longleftrightarrow> list_ex (\<lambda>r. strcmp (fr_name r) nm = 0) fs"

section \<open>Names that are not taken\<close>

text \<open>\<open>for (int i = 1; ; i++)\<close> over the candidates, each of which may fail to fit its buffer.\<close>

partial_function (option) find_name ::
  "(nat \<Rightarrow> mem_fault + string) \<Rightarrow> file_rec list \<Rightarrow> nat \<Rightarrow> (mem_fault + string) option" where
  "find_name mk fs i =
     (case mk i of
        Inl e \<Rightarrow> Some (Inl e)
      | Inr s \<Rightarrow> if file_exists fs s then find_name mk fs (i + 1) else Some (Inr s))"

text \<open>\<open>f\<close>, \<open>dot\<close> and the \<open>sprintf\<close> into \<open>malloc(strlen(f) + 10)\<close>.\<close>

definition base_name :: "string \<Rightarrow> string" where
  "base_name local_path = (case strrchr SLASH local_path of None \<Rightarrow> local_path | Some f \<Rightarrow> tl f)"

definition extension :: "string \<Rightarrow> string" where
  "extension f = (case strrchr (CHR ''.'') f of None \<Rightarrow> [] | Some dot \<Rightarrow> dot)"

definition upload_candidate :: "string \<Rightarrow> nat \<Rightarrow> mem_fault + string" where
  "upload_candidate f i =
     (let dot = extension f;
          base_len = length f - length dot;
          out = take base_len f @ ''_'' @ dec i @ dot
      in if length out + 1 \<le> length f + 10 then Inr out else Inl OVERRUN)"

definition file_list_get_upload_name :: "file_list \<Rightarrow> string \<Rightarrow> (mem_fault + string) option" where
  "file_list_get_upload_name l local_path =
     (let f = base_name local_path
      in if \<not> file_exists (files l) f then Some (Inr f)
         else find_name (upload_candidate f) (files l) 1)"

definition folder_candidate :: "nat \<Rightarrow> mem_fault + string" where
  "folder_candidate i = Inr (snprintf 32 (new_folder_prefix @ dec i))"

section \<open>Sizes\<close>

text \<open>Conversion of an integer to a \<open>float\<close>: 24 significant bits, ties to even.\<close>

definition half_even :: "nat \<Rightarrow> nat \<Rightarrow> nat" where
  "half_even a d =
     (let q = a div d; r = a mod d
      in if 2 * r < d then q else if d < 2 * r then q + 1 else if even q then q else q + 1)"

fun bits :: "nat \<Rightarrow> nat" where
  "bits n = (if n = 0 then 0 else Suc (bits (n div 2)))"

declare bits.simps [simp del]

definition float_of :: "nat \<Rightarrow> nat" where
  "float_of n = (if bits n \<le> 24 then n else half_even n (2 ^ (bits n - 24)) * 2 ^ (bits n - 24))"

text \<open>\<open>%.2f\<close> of \<open>a / d\<close>, which is exact as \<open>d\<close> is a power of two.\<close>

definition fixed2 :: "nat \<Rightarrow> nat \<Rightarrow> string" where
  "fixed2 a d =
     (let c = half_even (a * 100) d
      in dec (c div 100) @ ''.'' @ [digit_char (c div 10 mod 10), digit_char (c mod 10)])"

definition size_text :: "size_t \<Rightarrow> string" where
  "size_text x =
     (if drop_bit 30 x > 0 then fixed2 (float_of (unat x)) (2 ^ 30) @ '' GiB''
      else if drop_bit 20 x > 0 then fixed2 (float_of (unat x)) (2 ^ 20) @ '' MiB''
      else if drop_bit 10 x > 0 then fixed2 (float_of (unat x)) (2 ^ 10) @ '' KiB''
      else dec (unat x) @ '' Byte'' @ (if x = 1 then '''' else ''s''))"

definition get_size_str :: "size_t \<Rightarrow> string" where
  "get_size_str x = snprintf 16 (size_text x)"

section \<open>Cells\<close>

datatype column = COL_ENABLED | COL_ICON | COL_NAME | COL_SIZE | COL_DATE | COL_DOWNLOAD
  | COL_RENAMABLE | COL_DELETE | COL_DELETABLE | COL_TEXTCOLOUR | COL_EMPTY

datatype image = imgDir | imgFile | imgPlus

text \<open>Colour components are thousandths.\<close>

datatype cell = CImage image | CString string | CInt bool | CColor nat nat nat nat

datatype cell_type = TImage | TString | TInt | TColor

fun type_of_cell :: "cell \<Rightarrow> cell_type" where
  "type_of_cell (CImage i) = TImage"
| "type_of_cell (CString s) = TString"
| "type_of_cell (CInt b) = TInt"
| "type_of_cell (CColor r g b a) = TColor"

text \<open>The value of \<open>COL_COUNT\<close>.\<close>

definition modelNumColumns :: nat where
  "modelNumColumns = 11"

lemma modelNumColumns_card: "card (UNIV :: column set) = modelNumColumns"
proof -
  have all: "(UNIV :: column set) = {COL_ENABLED, COL_ICON, COL_NAME, COL_SIZE, COL_DATE, COL_DOWNLOAD, COL_RENAMABLE, COL_DELETE,
    COL_DELETABLE, COL_TEXTCOLOUR, COL_EMPTY}"
    using column.exhaust by auto
  show ?thesis by (subst all) (simp add: modelNumColumns_def)
qed

definition modelColumnType :: "column \<Rightarrow> cell_type" where
  "modelColumnType col =
     (case col of
        COL_ICON \<Rightarrow> TImage
      | COL_ENABLED \<Rightarrow> TInt | COL_RENAMABLE \<Rightarrow> TInt | COL_DELETABLE \<Rightarrow> TInt
      | COL_TEXTCOLOUR \<Rightarrow> TColor
      | _ \<Rightarrow> TString)"

definition modelCellValue :: "file_list \<Rightarrow> nat \<Rightarrow> column \<Rightarrow> mem_fault + cell" where
  "modelCellValue l row col =
     (if row = n_files l then
        Inr (case col of
           COL_ICON \<Rightarrow> CImage imgPlus
         | COL_DOWNLOAD \<Rightarrow> CString ''Upload''
         | COL_DELETE \<Rightarrow> CString ''Make dir''
         | COL_ENABLED \<Rightarrow> CInt (enabled l)
         | COL_RENAMABLE \<Rightarrow> CInt False
         | COL_DELETABLE \<Rightarrow> CInt (enabled l)
         | COL_TEXTCOLOUR \<Rightarrow> CColor 0 0 0 1000
         | _ \<Rightarrow> CString '''')
      else if n_files l < row then Inl OVERRUN
      else
        let r = files l ! row in
        if col = COL_TEXTCOLOUR \<and> is_dir r = 1 then
          bind_res (memcmp_eq (name_array r) new_folder_prefix) (\<lambda>same.
            Inr (if same then CColor 1000 500 0 1000 else CColor 0 300 800 1000))
        else Inr (case col of
           COL_ICON \<Rightarrow> CImage (if is_dir r \<noteq> 0 then imgDir else imgFile)
         | COL_NAME \<Rightarrow> CString (fr_name r)
         | COL_SIZE \<Rightarrow> CString (if is_dir r \<noteq> 0 then '''' else get_size_str (word_of_int (fr_size r)))
         | COL_DATE \<Rightarrow> CString (fr_date r)
         | COL_DOWNLOAD \<Rightarrow>
             CString (if is_dir r = 2 then ''Go up'' else if is_dir r = 1 then ''Open'' else ''Download'')
         | COL_DELETE \<Rightarrow> CString (if is_dir r \<noteq> 2 then ''Delete'' else '''')
         | COL_ENABLED \<Rightarrow> CInt (enabled l)
         | COL_RENAMABLE \<Rightarrow> CInt (enabled l \<and> is_dir r \<noteq> 2)
         | COL_DELETABLE \<Rightarrow> CInt (enabled l \<and> is_dir r \<noteq> 2)
         | COL_TEXTCOLOUR \<Rightarrow> CColor 0 0 0 1000
         | COL_EMPTY \<Rightarrow> CString ''''))"

text \<open>
  The columns of the table that \<open>file_list_table\<close> appends, with the columns of the model that each
  one reads: an image and a text, a text, a button. The column behind them says whether the user may
  edit the text or press the button (\<open>None\<close> for never), the last one is the colour.
\<close>

datatype table_column = ImageTextColumn string column column column column
  | TextColumn string column "column option" column
  | ButtonColumn string column column

definition table_columns :: "table_column list" where
  "table_columns =
     [ImageTextColumn ''Name'' COL_ICON COL_NAME COL_RENAMABLE COL_TEXTCOLOUR,
      TextColumn ''Size'' COL_SIZE None COL_TEXTCOLOUR,
      TextColumn ''Modified at'' COL_DATE None COL_TEXTCOLOUR,
      ButtonColumn '''' COL_DOWNLOAD COL_ENABLED,
      ButtonColumn '''' COL_DELETE COL_DELETABLE,
      TextColumn '''' COL_EMPTY None COL_TEXTCOLOUR]"

text \<open>The types libui expects in the columns of the model, as documented in its \<^verbatim>\<open>ui.h\<close>, and the
  cells that the user can change, each with the column that allows it.\<close>

fun reads :: "table_column \<Rightarrow> (column \<times> cell_type) list" where
  "reads (ImageTextColumn nm i t ed c) = [(i, TImage), (t, TString), (ed, TInt), (c, TColor)]"
| "reads (TextColumn nm t None c) = [(t, TString), (c, TColor)]"
| "reads (TextColumn nm t (Some ed) c) = [(t, TString), (ed, TInt), (c, TColor)]"
| "reads (ButtonColumn nm b cl) = [(b, TString), (cl, TInt)]"

fun changes :: "table_column \<Rightarrow> (column \<times> column) option" where
  "changes (ImageTextColumn nm i t ed c) = Some (t, ed)"
| "changes (TextColumn nm t ed c) = map_option (\<lambda>g. (t, g)) ed"
| "changes (ButtonColumn nm b cl) = Some (b, cl)"

definition guard_column :: "column \<Rightarrow> column option" where
  "guard_column col = map_of (List.map_filter changes table_columns) col"

lemma guard_column_simps [simp]:
  "guard_column COL_DOWNLOAD = Some COL_ENABLED"
  "guard_column COL_NAME = Some COL_RENAMABLE"
  "guard_column COL_DELETE = Some COL_DELETABLE"
  "guard_column COL_ENABLED = None" "guard_column COL_ICON = None" "guard_column COL_SIZE = None"
  "guard_column COL_DATE = None" "guard_column COL_RENAMABLE = None" "guard_column COL_DELETABLE = None"
  "guard_column COL_TEXTCOLOUR = None" "guard_column COL_EMPTY = None"
  by (simp_all add: guard_column_def table_columns_def List.map_filter_simps)

text \<open>What the user asks for, given to the client program.\<close>

datatype request = Download file_rec | Upload | Rename string string | Mkdir string
  | Delete bool string | Nothing

definition modelSetCellValue :: "file_list \<Rightarrow> nat \<Rightarrow> column \<Rightarrow> string \<Rightarrow> (mem_fault + request) option" where
  "modelSetCellValue l row col val =
     (if col = COL_DOWNLOAD then
        if row \<noteq> n_files l then
          Some (if row < n_files l then Inr (Download (files l ! row)) else Inl OVERRUN)
        else Some (Inr Upload)
      else if col = COL_NAME then
        Some (if row < n_files l then Inr (Rename (fr_name (files l ! row)) val) else Inl OVERRUN)
      else if col = COL_DELETE then
        if row = n_files l then
          map_option (\<lambda>r. bind_res r (\<lambda>s. Inr (Mkdir s))) (find_name folder_candidate (files l) 1)
        else
          Some (if row < n_files l
            then Inr (Delete (is_dir (files l ! row) \<noteq> 0) (fr_name (files l ! row)))
            else Inl OVERRUN)
      else Some (Inr Nothing))"

section \<open>The order of the table\<close>

lemma strcmp_refl [simp]: "strcmp s s = 0"
  by (induction s) auto

lemma strcmp_eq_0 [simp]: "strcmp s t = 0 \<longleftrightarrow> s = t"
  by (induction s t rule: strcmp.induct) auto

lemma strcmp_swap: "strcmp t s = - strcmp s t"
  by (induction s t rule: strcmp.induct) auto

lemma strcmp_trans: "strcmp s t \<le> 0 \<Longrightarrow> strcmp t u \<le> 0 \<Longrightarrow> strcmp s u \<le> 0"
proof (induction s t arbitrary: u rule: strcmp.induct)
  case (1)
  then show ?case by simp
next
  case (2 d ds)
  then show ?case by (cases u) auto
next
  case (3 c cs)
  then show ?case by simp
next
  case (4 c cs d ds)
  then show ?case by (cases u) (auto split: if_splits)
qed

lemma file_exists_iff: "file_exists fs nm \<longleftrightarrow> nm \<in> fr_name ` set fs"
  by (auto simp: file_exists_def list_ex_iff)

text \<open>
  The contract of a comparison that may be given to \<open>qsort\<close>: a total preorder, the sign of
  the result telling which argument comes first. \<open>qsort\<close> itself promises, for such a
  comparison, a rearrangement in which no record comes before one that compares less.
\<close>

locale c_comparison =
  fixes cmp :: "'a \<Rightarrow> 'a \<Rightarrow> int"
  assumes swap: "cmp b a \<le> 0 \<longleftrightarrow> 0 \<le> cmp a b"
    and transitive: "cmp a b \<le> 0 \<Longrightarrow> cmp b c \<le> 0 \<Longrightarrow> cmp a c \<le> 0"

definition qsort_law :: "(('a \<Rightarrow> 'a \<Rightarrow> int) \<Rightarrow> 'a list \<Rightarrow> 'a list) \<Rightarrow> bool" where
  "qsort_law qsort \<longleftrightarrow>
     (\<forall>cmp xs. c_comparison cmp \<longrightarrow>
        mset (qsort cmp xs) = mset xs \<and> sorted_wrt (\<lambda>a b. cmp a b \<le> 0) (qsort cmp xs))"

text \<open>An insertion sort is such a \<open>qsort\<close>.\<close>

fun insert_cmp :: "('a \<Rightarrow> 'a \<Rightarrow> int) \<Rightarrow> 'a \<Rightarrow> 'a list \<Rightarrow> 'a list" where
  "insert_cmp cmp x [] = [x]"
| "insert_cmp cmp x (y # ys) = (if cmp x y \<le> 0 then x # y # ys else y # insert_cmp cmp x ys)"

definition insertion_sort :: "('a \<Rightarrow> 'a \<Rightarrow> int) \<Rightarrow> 'a list \<Rightarrow> 'a list" where
  "insertion_sort cmp xs = foldr (insert_cmp cmp) xs []"

lemma mset_insert_cmp [simp]: "mset (insert_cmp cmp x ys) = add_mset x (mset ys)"
  by (induction ys) auto

lemma set_insert_cmp [simp]: "set (insert_cmp cmp x ys) = insert x (set ys)"
  by (induction ys) auto

context c_comparison
begin

lemma total: "\<not> cmp a b \<le> 0 \<Longrightarrow> cmp b a \<le> 0"
  using swap [of a b] swap [of b a] by linarith

lemma sorted_insert:
  assumes "sorted_wrt (\<lambda>a b. cmp a b \<le> 0) ys"
  shows "sorted_wrt (\<lambda>a b. cmp a b \<le> 0) (insert_cmp cmp x ys)"
  using assms by (induction ys) (auto dest: total intro: transitive)

lemma sorted_insertion: "sorted_wrt (\<lambda>a b. cmp a b \<le> 0) (insertion_sort cmp xs)"
  by (induction xs) (simp_all add: insertion_sort_def sorted_insert)

lemma qsort_perm: "qsort_law qsort \<Longrightarrow> mset (qsort cmp xs) = mset xs"
  using c_comparison_axioms by (auto simp: qsort_law_def)

lemma qsort_length: "qsort_law qsort \<Longrightarrow> length (qsort cmp xs) = length xs"
  using qsort_perm by (metis size_mset)

lemma qsort_orders:
  assumes "qsort_law qsort" and "\<And>a b. cmp a b \<le> 0 \<Longrightarrow> r a b"
  shows "sorted_wrt r (qsort cmp xs)"
proof -
  have "sorted_wrt (\<lambda>a b. cmp a b \<le> 0) (qsort cmp xs)"
    using assms(1) c_comparison_axioms by (auto simp: qsort_law_def)
  then show ?thesis by (rule sorted_wrt_mono_rel [rotated]) (rule assms(2))
qed

end

lemma insertion_sort_law: "qsort_law insertion_sort"
proof -
  have "mset (insertion_sort cmp xs) = mset xs" for cmp and xs :: "'a list"
    by (induction xs) (simp_all add: insertion_sort_def)
  then show ?thesis by (simp add: qsort_law_def c_comparison.sorted_insertion)
qed

text \<open>The comparison of the file list keeps the contract.\<close>

interpretation rec_order: c_comparison file_rec_cmp
proof unfold_locales
  fix a b c
  show "file_rec_cmp b a \<le> 0 \<longleftrightarrow> 0 \<le> file_rec_cmp a b"
    using strcmp_swap [of "fr_name b" "fr_name a"] by (auto simp: file_rec_cmp_def Let_def)
  show "file_rec_cmp a c \<le> 0" if "file_rec_cmp a b \<le> 0" "file_rec_cmp b c \<le> 0"
    using that strcmp_trans [of "fr_name a" "fr_name b" "fr_name c"]
    by (auto simp: file_rec_cmp_def Let_def split: if_splits)
qed

text \<open>
  C32. After a reset the table shows exactly the records given, first the parent directory, then
  the directories, then the files, then the new folders, each group by name; the rows announced
  to the user interface are one more than the records, and all is enabled.
\<close>

theorem reset_sorted:
  assumes "qsort_law qsort"
  shows "mset (files (file_list_reset qsort recs l)) = mset recs \<and>
    sorted_wrt (\<lambda>a b. rec_type b < rec_type a \<or> rec_type a = rec_type b \<and> strcmp (fr_name a) (fr_name b) \<le> 0)
      (files (file_list_reset qsort recs l)) \<and>
    modelNumRows (file_list_reset qsort recs l) = length recs + 1 \<and>
    enabled (file_list_reset qsort recs l) \<and>
    row_notes (file_list_reset qsort recs l) =
      row_notes l @ map RowDeleted (rev [0..<modelNumRows l]) @ map RowInserted [0..<length recs + 1]"
proof -
  have f: "files (file_list_reset qsort recs l) = qsort file_rec_cmp recs"
    by (simp add: file_list_reset_def Let_def)
  have len: "length (qsort file_rec_cmp recs) = length recs"
    by (rule rec_order.qsort_length [OF assms])
  have "sorted_wrt (\<lambda>a b. rec_type b < rec_type a \<or> rec_type a = rec_type b \<and> strcmp (fr_name a) (fr_name b) \<le> 0)
      (qsort file_rec_cmp recs)"
    by (rule rec_order.qsort_orders [OF assms])
       (auto simp: file_rec_cmp_def Let_def split: if_splits)
  with f len rec_order.qsort_perm [OF assms] show ?thesis
    by (simp add: file_list_reset_def Let_def modelNumRows_def)
qed

definition demo_recs :: "file_rec list" where
  "demo_recs = [\<lparr>is_dir = 0, fr_name = ''b'', fr_size = 5, fr_date = ''''\<rparr>,
     \<lparr>is_dir = 1, fr_name = ''new_folder_1'', fr_size = 0, fr_date = ''''\<rparr>,
     \<lparr>is_dir = 2, fr_name = ''..'', fr_size = 0, fr_date = ''''\<rparr>]"

definition list0 :: file_list where
  "list0 = \<lparr>has_contents = False, enabled = False, files = [], row_notes = []\<rparr>"

theorem reset_sorted_witness:
  "mset (files (file_list_reset insertion_sort demo_recs list0)) = mset demo_recs \<and>
    sorted_wrt (\<lambda>a b. rec_type b < rec_type a \<or> rec_type a = rec_type b \<and> strcmp (fr_name a) (fr_name b) \<le> 0)
      (files (file_list_reset insertion_sort demo_recs list0)) \<and>
    modelNumRows (file_list_reset insertion_sort demo_recs list0) = length demo_recs + 1 \<and>
    enabled (file_list_reset insertion_sort demo_recs list0) \<and>
    row_notes (file_list_reset insertion_sort demo_recs list0) =
      row_notes list0 @ map RowDeleted (rev [0..<modelNumRows list0]) @ map RowInserted [0..<length demo_recs + 1]"
  by (rule reset_sorted [OF insertion_sort_law])

section \<open>Finding a name\<close>

text \<open>
  The contract of a sequence of candidate names: the first \<open>bound\<close> of them fit their buffer and
  differ. The search then ends, within one try more than there are names in the way, with the
  first that is not taken.
\<close>

locale candidate_names =
  fixes mk :: "nat \<Rightarrow> mem_fault + string" and nm :: "nat \<Rightarrow> string" and bound :: nat
  assumes fit: "1 \<le> i \<Longrightarrow> i \<le> bound \<Longrightarrow> mk i = Inr (nm i)"
    and distinct_names: "inj_on nm {1..bound}"
begin

lemma not_all_taken:
  assumes "length fs < bound"
  obtains i where "1 \<le> i" and "i \<le> length fs + 1" and "\<not> file_exists fs (nm i)"
proof -
  have "\<exists>i \<in> {1..length fs + 1}. \<not> file_exists fs (nm i)"
  proof (rule ccontr)
    assume "\<not> ?thesis"
    then have sub: "nm ` {1..length fs + 1} \<subseteq> fr_name ` set fs" by (auto simp: file_exists_iff)
    have "inj_on nm {1..length fs + 1}"
      using distinct_names by (rule inj_on_subset) (use assms in auto)
    then have "length fs + 1 = card (nm ` {1..length fs + 1})" by (simp add: card_image)
    also have "\<dots> \<le> card (fr_name ` set fs)" using sub by (rule card_mono [rotated]) simp
    also have "\<dots> \<le> length fs" by (metis card_image_le card_length List.finite_set order.trans)
    finally show False by simp
  qed
  with that show thesis by auto
qed

lemma find_from:
  assumes "1 \<le> j" and "j \<le> i" and "i \<le> bound" and "\<not> file_exists fs (nm i)"
    and "\<And>k. j \<le> k \<Longrightarrow> k < i \<Longrightarrow> file_exists fs (nm k)"
  shows "find_name mk fs j = Some (Inr (nm i))"
  using assms
proof (induction "i - j" arbitrary: j)
  case 0
  then have "j = i" by simp
  with 0 fit [of i] show ?case by (subst find_name.simps) simp
next
  case (Suc d)
  then have "j < i" by simp
  then have "find_name mk fs (j + 1) = Some (Inr (nm i))" using Suc by (intro Suc.hyps) auto
  moreover have "file_exists fs (nm j)" using Suc.prems(5) \<open>j < i\<close> by simp
  ultimately show ?case using fit [of j] Suc.prems \<open>j < i\<close> by (subst find_name.simps) simp
qed

lemma find_first:
  assumes "length fs < bound"
  obtains i where "find_name mk fs 1 = Some (Inr (nm i))" and "1 \<le> i" and "i \<le> length fs + 1"
    and "\<not> file_exists fs (nm i)" and "\<And>k. 1 \<le> k \<Longrightarrow> k < i \<Longrightarrow> file_exists fs (nm k)"
proof -
  let ?P = "\<lambda>i. 1 \<le> i \<and> \<not> file_exists fs (nm i)"
  let ?i = "LEAST i. ?P i"
  obtain j where j: "?P j" "j \<le> length fs + 1"
    using not_all_taken [OF assms] by blast
  have i: "?P ?i" using j(1) by (rule LeastI)
  have le: "?i \<le> j" using j(1) by (rule Least_le)
  have below: "file_exists fs (nm k)" if "1 \<le> k" "k < ?i" for k
    using not_less_Least [OF that(2)] that(1) by blast
  have "find_name mk fs 1 = Some (Inr (nm ?i))"
    using i le j assms below by (intro find_from) auto
  with i le j below that show thesis by auto
qed

end

lemma dec_length_8: "i < 10 ^ 8 \<Longrightarrow> length (dec i) \<le> 8"
  using dec_length [of i 7] by simp

lemma strrchr_suffix: "strrchr c s = Some t \<Longrightarrow> \<exists>p. s = p @ t"
proof -
  assume "strrchr c s = Some t"
  then have c: "c \<in> set s" and t: "t = c # rev (takeWhile (\<lambda>x. x \<noteq> c) (rev s))"
    by (auto simp: strrchr_def split: if_splits)
  let ?d = "dropWhile (\<lambda>x. x \<noteq> c) (rev s)"
  have d: "?d = c # tl ?d" using c hd_dropWhile [of "\<lambda>x. x \<noteq> c" "rev s"]
    by (cases ?d) (auto simp: dropWhile_eq_Nil_conv)
  have "rev s = takeWhile (\<lambda>x. x \<noteq> c) (rev s) @ c # tl ?d"
    using d takeWhile_dropWhile_id by metis
  then have "s = rev (tl ?d) @ c # rev (takeWhile (\<lambda>x. x \<noteq> c) (rev s))"
    by (metis append.assoc append_Cons append_Nil rev_append rev_rev_ident rev.simps(2))
  with t show ?thesis by blast
qed

lemma extension_suffix: "\<exists>b. f = b @ extension f"
  unfolding extension_def using strrchr_suffix by (auto split: option.splits)

definition upload_nm :: "string \<Rightarrow> nat \<Rightarrow> string" where
  "upload_nm f i = take (length f - length (extension f)) f @ ''_'' @ dec i @ extension f"

interpretation upload: candidate_names "upload_candidate f" "upload_nm f" "10 ^ 8 - 1" for f
proof unfold_locales
  fix i :: nat
  assume "i \<le> 10 ^ 8 - 1"
  then have "length (dec i) \<le> 8" by (intro dec_length_8) simp
  moreover obtain b where "f = b @ extension f" using extension_suffix by blast
  then have "length f = length b + length (extension f)" by (metis length_append)
  ultimately show "upload_candidate f i = Inr (upload_nm f i)"
    by (simp add: upload_candidate_def upload_nm_def Let_def)
next
  show "inj_on (upload_nm f) {1..10 ^ 8 - 1}"
    by (rule inj_onI) (simp add: upload_nm_def)
qed

definition folder_nm :: "nat \<Rightarrow> string" where
  "folder_nm i = new_folder_prefix @ dec i"

interpretation folder: candidate_names folder_candidate folder_nm "10 ^ 8 - 1"
proof unfold_locales
  fix i :: nat
  assume "i \<le> 10 ^ 8 - 1"
  then have "length (dec i) \<le> 8" by (intro dec_length_8) simp
  then show "folder_candidate i = Inr (folder_nm i)"
    by (simp add: folder_candidate_def folder_nm_def new_folder_prefix_def snprintf_id)
next
  show "inj_on folder_nm {1..10 ^ 8 - 1}"
    by (rule inj_onI) (simp add: folder_nm_def)
qed

lemma upload_name_lemma:
  assumes "n_files l < 10 ^ 8 - 1"
  shows "\<exists>s. file_list_get_upload_name l p = Some (Inr s) \<and> \<not> file_exists (files l) s \<and>
    (s = base_name p \<or> file_exists (files l) (base_name p) \<and>
      (\<exists>i. 1 \<le> i \<and> i \<le> n_files l + 1 \<and> s = upload_nm (base_name p) i \<and>
        (\<forall>k. 1 \<le> k \<and> k < i \<longrightarrow> file_exists (files l) (upload_nm (base_name p) k))))"
proof (cases "file_exists (files l) (base_name p)")
  case False
  then show ?thesis by (simp add: file_list_get_upload_name_def Let_def)
next
  case True
  obtain i where i: "find_name (upload_candidate (base_name p)) (files l) 1 = Some (Inr (upload_nm (base_name p) i))"
    "1 \<le> i" "i \<le> n_files l + 1" "\<not> file_exists (files l) (upload_nm (base_name p) i)"
    "\<And>k. 1 \<le> k \<Longrightarrow> k < i \<Longrightarrow> file_exists (files l) (upload_nm (base_name p) k)"
    using upload.find_first [OF assms] by blast
  with True have "file_list_get_upload_name l p = Some (Inr (upload_nm (base_name p) i))"
    by (simp add: file_list_get_upload_name_def)
  with True i show ?thesis by blast
qed

text \<open>
  C27. Uploads never overwrite: with fewer than \<open>10 ^ 8 - 1\<close> files in the list the search for a
  name ends, inside its buffer, with a name that no listed file has; it is the file's own name
  if that is free, and otherwise the name with the least number for which it is.
\<close>

theorem upload_name_fresh:
  assumes "n_files l < 10 ^ 8 - 1"
  shows "\<exists>s. file_list_get_upload_name l p = Some (Inr s) \<and> \<not> file_exists (files l) s \<and>
    (s = base_name p \<or> file_exists (files l) (base_name p) \<and>
      (\<exists>i. 1 \<le> i \<and> i \<le> n_files l + 1 \<and> s = upload_nm (base_name p) i \<and>
        (\<forall>k. 1 \<le> k \<and> k < i \<longrightarrow> file_exists (files l) (upload_nm (base_name p) k))))"
  using assms by (rule upload_name_lemma)

theorem upload_name_fresh_witness:
  "\<exists>s. file_list_get_upload_name (list0\<lparr>files := demo_recs\<rparr>) ''/home/u/b'' = Some (Inr s) \<and>
    \<not> file_exists (files (list0\<lparr>files := demo_recs\<rparr>)) s \<and>
    (s = base_name ''/home/u/b'' \<or> file_exists (files (list0\<lparr>files := demo_recs\<rparr>)) (base_name ''/home/u/b'') \<and>
      (\<exists>i. 1 \<le> i \<and> i \<le> n_files (list0\<lparr>files := demo_recs\<rparr>) + 1 \<and> s = upload_nm (base_name ''/home/u/b'') i \<and>
        (\<forall>k. 1 \<le> k \<and> k < i \<longrightarrow>
          file_exists (files (list0\<lparr>files := demo_recs\<rparr>)) (upload_nm (base_name ''/home/u/b'') k))))"
  by (rule upload_name_fresh) (simp add: demo_recs_def)

section \<open>The contract with the user interface\<close>

text \<open>
  C33. Every cell of every row has the type its column declares, and computing it leaves neither
  the array of records nor, with a \<open>memcmp\<close> that stops at the first difference, the name of one;
  a \<open>memcmp\<close> that reads all 11 bytes, as ISO C allows, leaves every name of fewer than 10
  characters. Each column of the table is built on columns of the types that libui expects.
\<close>

theorem cell_typed:
  assumes "row < modelNumRows l"
  shows "(\<exists>c. modelCellValue l row col = Inr c \<and> type_of_cell c = modelColumnType col) \<and>
    (\<forall>t \<in> set table_columns. \<forall>(c, ty) \<in> set (reads t). modelColumnType c = ty) \<and>
    (\<forall>r \<in> set (files l). memcmp_whole (name_array r) new_folder_prefix = Inl OVERRUN \<longleftrightarrow>
      length (fr_name r) < 10)"
proof (intro conjI)
  have "row \<le> n_files l" using assms by (simp add: modelNumRows_def split: if_splits)
  then show "\<exists>c. modelCellValue l row col = Inr c \<and> type_of_cell c = modelColumnType col"
    by (cases col) (auto simp: modelCellValue_def modelColumnType_def Let_def)
  show "\<forall>t \<in> set table_columns. \<forall>(c, ty) \<in> set (reads t). modelColumnType c = ty"
    by (simp add: table_columns_def modelColumnType_def)
qed (simp add: memcmp_whole_name)

theorem cell_typed_witness:
  "\<exists>c. modelCellValue (list0\<lparr>files := demo_recs, has_contents := True\<rparr>) 1 COL_TEXTCOLOUR = Inr c \<and>
     type_of_cell c = TColor"
  using cell_typed [of 1 "list0\<lparr>files := demo_recs, has_contents := True\<rparr>" COL_TEXTCOLOUR]
  by (simp add: modelNumRows_def demo_recs_def modelColumnType_def)

fun valid_request :: "file_rec list \<Rightarrow> request \<Rightarrow> bool" where
  "valid_request fs (Download r) \<longleftrightarrow> r \<in> set fs"
| "valid_request fs Upload \<longleftrightarrow> True"
| "valid_request fs (Rename a b) \<longleftrightarrow> (\<exists>r \<in> set fs. fr_name r = a \<and> is_dir r \<noteq> 2)"
| "valid_request fs (Mkdir s) \<longleftrightarrow> \<not> file_exists fs s \<and> take (length new_folder_prefix) s = new_folder_prefix"
| "valid_request fs (Delete d s) \<longleftrightarrow> (\<exists>r \<in> set fs. fr_name r = s \<and> is_dir r \<noteq> 2 \<and> (d \<longleftrightarrow> is_dir r \<noteq> 0))"
| "valid_request fs Nothing \<longleftrightarrow> False"

lemma edits_valid_lemma:
  assumes "row < modelNumRows l" and "n_files l < 10 ^ 8 - 1" and "guard_column col = Some g"
    and "modelCellValue l row g = Inr (CInt True)"
  shows "enabled l \<and> (\<exists>r. modelSetCellValue l row col val = Some (Inr r) \<and> valid_request (files l) r)"
proof -
  have row: "row \<le> n_files l" using assms(1) by (simp add: modelNumRows_def split: if_splits)
  obtain i where i: "find_name folder_candidate (files l) 1 = Some (Inr (folder_nm i))"
    "\<not> file_exists (files l) (folder_nm i)"
    using folder.find_first [OF assms(2)] by blast
  have pre: "take (length new_folder_prefix) (folder_nm i) = new_folder_prefix"
    by (simp add: folder_nm_def)
  show ?thesis
  proof (cases "row = n_files l")
    case True
    with assms(3,4) i pre show ?thesis
      by (cases col) (auto simp: modelCellValue_def modelSetCellValue_def)
  next
    case False
    with row have "row < n_files l" and "files l ! row \<in> set (files l)" by auto
    with assms(3,4) show ?thesis
      by (cases col) (auto simp: modelCellValue_def modelSetCellValue_def Let_def)
  qed
qed

text \<open>
  C29. Whatever the user can do to a cell that is marked as editable (the list being enabled) is
  a request the program can carry out: no row outside the array is used, the parent directory is
  never renamed or deleted, and a new folder gets a name that is free.
\<close>

theorem edits_valid:
  assumes "row < modelNumRows l" and "n_files l < 10 ^ 8 - 1" and "guard_column col = Some g"
    and "modelCellValue l row g = Inr (CInt True)"
  shows "enabled l \<and> (\<exists>r. modelSetCellValue l row col val = Some (Inr r) \<and> valid_request (files l) r)"
  using assms by (rule edits_valid_lemma)

theorem edits_valid_witness:
  "enabled (list0\<lparr>files := demo_recs, has_contents := True, enabled := True\<rparr>) \<and>
    (\<exists>r. modelSetCellValue (list0\<lparr>files := demo_recs, has_contents := True, enabled := True\<rparr>) 3 COL_DELETE [] =
        Some (Inr r) \<and>
      valid_request (files (list0\<lparr>files := demo_recs, has_contents := True, enabled := True\<rparr>)) r)"
  by (rule edits_valid [where g = COL_DELETABLE])
     (simp_all add: modelNumRows_def demo_recs_def modelCellValue_def)

section \<open>Printed sizes\<close>

lemma half_even_le: "half_even a d \<le> a div d + 1"
  by (simp add: half_even_def Let_def)

lemma bits_1 [simp]: "bits (Suc 0) = 1"
  by (subst bits.simps) (simp add: bits.simps [of 0])

lemma bits_pow: "0 < n \<Longrightarrow> 2 ^ (bits n - 1) \<le> n"
proof (induction n rule: bits.induct)
  case (1 n)
  show ?case
  proof (cases "n div 2 = 0")
    case True
    then have "n = 1" using "1.prems" by auto
    then show ?thesis by simp
  next
    case False
    then have IH: "2 ^ (bits (n div 2) - 1) \<le> n div 2" using 1 by simp
    have "bits (n div 2) \<noteq> 0" using False by (subst bits.simps) simp
    then have "(2 :: nat) ^ (bits n - 1) = 2 * 2 ^ (bits (n div 2) - 1)"
      using "1.prems" by (subst bits.simps) (cases "bits (n div 2)"; simp)
    with IH show ?thesis by linarith
  qed
qed

lemma float_of_le: "float_of n \<le> 2 * n"
proof (cases "bits n \<le> 24")
  case False
  let ?d = "2 ^ (bits n - 24) :: nat"
  have "0 < n" using False by (cases "n = 0") (auto simp: bits.simps [of 0])
  then have "?d \<le> n" using bits_pow [of n] False
    by (metis diff_le_mono2 le_trans one_le_numeral power_increasing numeral_le_iff semiring_norm(68))
  have "half_even n ?d * ?d \<le> (n div ?d + 1) * ?d" by (intro mult_le_mono1 half_even_le)
  also have "\<dots> = n div ?d * ?d + ?d" by simp
  also have "\<dots> \<le> n + n" using \<open>?d \<le> n\<close> by (intro add_mono) (simp_all add: div_times_less_eq_dividend)
  finally show ?thesis using False by (simp add: float_of_def)
qed (simp add: float_of_def)

lemma fixed2_length:
  assumes "a < d * 2 ^ 16"
  shows "length (fixed2 a d) \<le> 8"
proof -
  have "half_even (a * 100) d \<le> a * 100 div d + 1" by (rule half_even_le)
  moreover have "a * 100 div d < 2 ^ 16 * 100"
    using assms by (intro less_mult_imp_div_less) (simp add: mult.commute)
  ultimately have "half_even (a * 100) d div 100 < 10 ^ Suc 4" by simp
  then have "length (dec (half_even (a * 100) d div 100)) \<le> Suc 4" by (rule dec_length)
  then show ?thesis by (simp add: fixed2_def Let_def)
qed

lemma size_text_fits:
  assumes "unat x < 2 ^ 45"
  shows "length (size_text x) < 16"
proof -
  have f: "float_of (unat x) \<le> 2 * unat x" by (rule float_of_le)
  have s: "\<not> 0 < drop_bit k x \<Longrightarrow> unat x < 2 ^ k" for k
  proof -
    assume "\<not> 0 < drop_bit k x"
    then have "unat (drop_bit k x) = 0" by (auto simp: word_less_nat_alt)
    moreover have "take_bit 64 (unat x) = unat x"
      using unsigned_less [of x, where 'a = nat] by (intro take_bit_nat_eq_self) simp
    then have "unat (drop_bit k x) = unat x div 2 ^ k"
      by (simp only: unsigned_drop_bit_eq) (simp add: drop_bit_eq_div)
    ultimately have "unat x div 2 ^ k = 0" by simp
    then show "unat x < 2 ^ k" by (metis div_eq_0_iff power_not_zero zero_neq_numeral)
  qed
  have g: "length (fixed2 (float_of (unat x)) (2 ^ 30)) \<le> 8"
    using f assms by (intro fixed2_length) simp
  moreover have "length (fixed2 (float_of (unat x)) (2 ^ 20)) \<le> 8" if "\<not> 0 < drop_bit 30 x"
    using f s [OF that] by (intro fixed2_length) simp
  moreover have "length (fixed2 (float_of (unat x)) (2 ^ 10)) \<le> 8" if "\<not> 0 < drop_bit 20 x"
    using f s [OF that] by (intro fixed2_length) simp
  moreover have "length (dec (unat x)) \<le> Suc 3" if "\<not> 0 < drop_bit 10 x"
    using s [OF that] by (intro dec_length) simp
  ultimately show ?thesis by (auto simp: size_text_def)
qed

text \<open>
  C28. Sizes are shown whole: no size below 32 TiB is cut by the 16 bytes of the buffers it is printed
  into, so that the size cell of every file of a listing (whose size is an \<open>int\<close>) shows the whole
  text of its size.
\<close>

theorem sizes_fit:
  assumes "unat x < 2 ^ 45" and "row < n_files l" and "is_dir (files l ! row) = 0"
    and "0 \<le> fr_size (files l ! row)" and "fr_size (files l ! row) < 2 ^ 31"
  shows "get_size_str x = size_text x \<and> length (get_size_str x) < 16 \<and>
    modelCellValue l row COL_SIZE = Inr (CString (size_text (word_of_int (fr_size (files l ! row)))))"
proof -
  have g: "get_size_str y = size_text y" if "unat y < 2 ^ 45" for y
    unfolding get_size_str_def by (rule snprintf_id [OF size_text_fits [OF that]])
  have "unat (word_of_int (fr_size (files l ! row)) :: size_t) < 2 ^ 45"
    using assms(4,5) by (simp add: unat_eq_nat_uint uint_word_of_int)
  from g [OF this] g [OF assms(1)] size_text_fits [OF assms(1)] assms(2,3) show ?thesis
    by (simp add: modelCellValue_def)
qed

theorem sizes_fit_witness:
  "get_size_str (2 ^ 45 - 1) = size_text (2 ^ 45 - 1) \<and>
    modelCellValue (list0\<lparr>files := [\<lparr>is_dir = 0, fr_name = ''a'', fr_size = 1023, fr_date = []\<rparr>]\<rparr>) 0 COL_SIZE =
      Inr (CString (size_text 1023))"
  using sizes_fit [of "2 ^ 45 - 1" 0 "list0\<lparr>files := [\<lparr>is_dir = 0, fr_name = ''a'', fr_size = 1023, fr_date = []\<rparr>]\<rparr>"]
  by simp

end
