(* ===== verification/ClientMain.thy ===== *)
theory ClientMain
  imports XferData FileList CScan
begin

text \<open>
  The client program, \<^verbatim>\<open>client/main.c\<close>: the chains of callbacks that log in, list, change
  directory, rename, make and remove directories, download and upload. A callback is a value, the
  threads that will still call back are part of the state, and what the program does to the
  connections and to the user interface is a log. What the program gets back at once (from
  opening a file, making a socket, a file dialogue) is the argument \<open>env\<close>. Threads are taken to
  start here, and what they read comes as a value; what happens when they do not start, and the
  replies and listings with their readers in \<^verbatim>\<open>client/xfer.c\<close>, are in \<^verbatim>\<open>ClientThreads\<close>
  (\<open>failing_event\<close>, \<open>wire_event\<close>).
\<close>

section \<open>State\<close>

text \<open>The callbacks of replies, of a new connection, of a data transfer, and \<open>data_inter\<close>.\<close>

datatype mark_cb = K_data_pasv_1 | K_data_port_1 | K_list_1 | K_sys_1 | K_sys_2 | K_cwd_1
  | K_rename_1 | K_rename_2 | K_mkd_1 | K_rm_1 | K_stor_3 | K_auth_1 | K_auth_2 | K_auth_3
  | K_disconn_1

datatype conn_cb = K_connection_setup | K_data_2

datatype data_cb = K_list_3 | K_retr_2 | K_stor_2

datatype inter = I_list_2 | I_retr_1 | I_stor_1

text \<open>Threads at work: reading a reply (for a callback or for none), connecting, transferring.\<close>

datatype thread = ReadMark "mark_cb option" | Connecting conn_cb | Gathering data_cb | Streaming data_cb

text \<open>What is done, in order. A progress is the number of bytes and the size it is divided by.\<close>

datatype action = Status string | Instant string | Progress size_t int | SendX string
  | InitX string int | InitY string int | ListenY | CloseX | CloseY | CloseFile int | Thread thread

record app =
  loading_now :: bool
  box_conn :: bool
  connected :: bool
  passive_mode :: bool
  conn_text :: string
  mode_text :: string
  cwd :: "string option"
  data_fd :: int
  data_inter :: "inter option"
  data_next :: data_cb
  rename_from :: string
  rename_to :: string
  retr_name :: string
  retr_size :: int
  retr_size_str :: string
  retr_out_fd :: int
  stor_name :: string
  stor_size :: int
  stor_size_str :: string
  stor_in_fd :: int
  flist :: file_list
  threads :: "thread list"
  acts :: "action list"

text \<open>
  Answers of the surroundings: the local address of \<open>xfer_init_listen_1\<close>, an error of
  \<open>xfer_init\<close> or \<open>xfer_init_listen_2\<close> reported at once, \<open>open()\<close>, the size from \<open>lseek()\<close>,
  the dialogues, the text entries and \<open>qsort\<close>.
\<close>

record env =
  env_listen :: "u8 list option"
  env_init :: "int option"
  env_open :: "string + int"
  env_lseek :: int
  env_save :: "string option"
  env_choose :: "string option"
  env_host :: string
  env_port :: int
  env_user :: string
  env_pass :: string
  env_qsort :: "(file_rec \<Rightarrow> file_rec \<Rightarrow> int) \<Rightarrow> file_rec list \<Rightarrow> file_rec list"

definition act :: "action \<Rightarrow> app \<Rightarrow> app" where
  "act a s = s\<lparr>acts := acts s @ [a]\<rparr>"

definition start_thread :: "thread \<Rightarrow> app \<Rightarrow> app" where
  "start_thread t s = act (Thread t) (s\<lparr>threads := threads s @ [t]\<rparr>)"

definition loading :: "app \<Rightarrow> app" where
  "loading s = s\<lparr>loading_now := True, flist := file_list_set_enabled False (flist s)\<rparr>"

definition done_loading :: "app \<Rightarrow> app" where
  "done_loading s = s\<lparr>loading_now := False, flist := file_list_set_enabled True (flist s)\<rparr>"

definition status :: "string \<Rightarrow> app \<Rightarrow> app" where
  "status t = act (Status t)"

definition statusf :: "string \<Rightarrow> app \<Rightarrow> app" where
  "statusf t = status (snprintf 128 t)"

definition instant_statusf :: "string \<Rightarrow> app \<Rightarrow> app" where
  "instant_statusf t = act (Instant (snprintf 128 t))"

text \<open>\<open>xfer_write(&x, s, NULL)\<close> and \<open>xfer_read_mark(&x, k)\<close>\<close>

definition send_x :: "string \<Rightarrow> app \<Rightarrow> app" where
  "send_x t = act (SendX t)"

definition read_mark :: "mark_cb option \<Rightarrow> app \<Rightarrow> app" where
  "read_mark k = start_thread (ReadMark k)"

definition CRLF :: string where "CRLF = [CR, LF]"

text \<open>A command and the callback for its reply.\<close>

definition ask :: "string \<Rightarrow> mark_cb \<Rightarrow> app \<Rightarrow> app" where
  "ask t k s = read_mark (Some k) (send_x (t @ CRLF) s)"

section \<open>Data connections\<close>

definition port_args :: "u8 list \<Rightarrow> string" where
  "port_args a = commas (map (\<lambda>i. dec (unat (a ! i))) [0..<6])"

definition do_data :: "env \<Rightarrow> int \<Rightarrow> inter \<Rightarrow> data_cb \<Rightarrow> app \<Rightarrow> app" where
  "do_data e fd i k s =
     (let s1 = (loading s)\<lparr>data_fd := fd, data_inter := Some i, data_next := k\<rparr> in
      if passive_mode s1 then ask ''PASV'' K_data_pasv_1 (status ''Entering passive mode'' s1)
      else
        let s2 = status ''Entering active (port) mode'' s1 in
        (case env_listen e of
           None \<Rightarrow> status ''Cannot listen on a local port, try passive mode instead'' (done_loading s2)
         | Some a \<Rightarrow>
             read_mark (Some K_data_port_1) (send_x (snprintf 64 (''PORT '' @ port_args a @ CRLF)) s2)))"

definition data_2 :: "int \<Rightarrow> app \<Rightarrow> app" where
  "data_2 code s =
     (if code = 0 then
        let s1 = status ''Data connection established, starting transfer'' s in
        if data_fd s1 > 0 then start_thread (Streaming (data_next s1)) s1
        else if data_fd s1 < 0 then start_thread (Streaming (data_next s1)) s1
        else start_thread (Gathering (data_next s1)) s1
      else status ''Cannot establish data connection'' (done_loading s))"

text \<open>\<open>xfer_init\<close> and \<open>xfer_init_listen_2\<close> of the data connection with \<open>next\<close> being \<open>data_2\<close>.\<close>

definition start_data :: "env \<Rightarrow> action \<Rightarrow> app \<Rightarrow> app" where
  "start_data e a s =
     (case env_init e of
        None \<Rightarrow> start_thread (Connecting K_data_2) (act a s)
      | Some err \<Rightarrow> data_2 err (act a s))"

text \<open>\<open>list_2\<close>, \<open>retr_1\<close> and \<open>stor_1\<close>: the command, and a thread that reads its first reply.\<close>

definition run_inter :: "inter \<Rightarrow> app \<Rightarrow> app" where
  "run_inter i s =
     (case i of
        I_list_2 \<Rightarrow> read_mark None (send_x (''LIST'' @ CRLF) s)
      | I_retr_1 \<Rightarrow> read_mark None (send_x (''RETR '' @ retr_name s @ CRLF) s)
      | I_stor_1 \<Rightarrow> read_mark None (send_x (''STOR '' @ stor_name s @ CRLF) s))"

definition call_inter :: "app \<Rightarrow> app" where
  "call_inter s = (case data_inter s of None \<Rightarrow> s | Some i \<Rightarrow> run_inter i s)"

definition pasv_address :: "string \<Rightarrow> u32 list option" where
  "pasv_address s =
     (case dropWhile (\<lambda>c. \<not> isdigit c) s of [] \<Rightarrow> None | p \<Rightarrow> scan_address p)"

definition pasv_host :: "u32 list \<Rightarrow> string" where
  "pasv_host x = snprintf 16 (dotted (map unat (take 4 x)))"

definition pasv_port :: "u32 list \<Rightarrow> int" where
  "pasv_port x = sint (ucast (x ! 4 * 256 + x ! 5) :: 32 word)"

definition data_pasv_1 :: "env \<Rightarrow> int \<Rightarrow> string \<Rightarrow> app \<Rightarrow> app" where
  "data_pasv_1 e code t s =
     (case (if code \<noteq> 227 then None else pasv_address t) of
        None \<Rightarrow> status ''Did not see a valid passive mode response'' (done_loading s)
      | Some x \<Rightarrow>
          let s1 = statusf (''Passive mode: connecting to '' @ pasv_host x @ '':'' @ sdec (pasv_port x)) s
          in call_inter (start_data e (InitY (pasv_host x) (pasv_port x)) s1))"

definition data_port_1 :: "env \<Rightarrow> int \<Rightarrow> string \<Rightarrow> app \<Rightarrow> app" where
  "data_port_1 e code t s =
     (if code \<noteq> 200 then status ''Did not see a valid port mode response'' (done_loading s)
      else start_data e ListenY (statusf ''Port mode: listening'' (call_inter s)))"

section \<open>Listing a directory\<close>

definition do_list :: "app \<Rightarrow> app" where
  "do_list s = ask ''PWD'' K_list_1 (status ''Querying current working directory'' (loading s))"

text \<open>
  What is between the first and the last double quote: nothing without one, and with a single one
  the length is \<open>-1\<close>, so that \<open>memcpy\<close> leaves its buffers.
\<close>

definition quoted_part :: "string \<Rightarrow> mem_fault + string option" where
  "quoted_part t =
     (if DQUOTE \<notin> set t then Inr None
      else
        let p = tl (dropWhile (\<lambda>c. c \<noteq> DQUOTE) t) in
        if DQUOTE \<notin> set p then Inl OVERRUN
        else Inr (Some (rev (tl (dropWhile (\<lambda>c. c \<noteq> DQUOTE) (rev p))))))"

definition list_1 :: "env \<Rightarrow> int \<Rightarrow> string \<Rightarrow> app \<Rightarrow> mem_fault + app" where
  "list_1 e code t s =
     (if code = 257 then
        bind_res (quoted_part t) (\<lambda>q.
          case q of
            Some d \<Rightarrow>
              Inr (do_data e 0 I_list_2 K_list_3
                (status (''Directory: '' @ d @ '' - retrieving file list'') (s\<lparr>cwd := Some d\<rparr>)))
          | None \<Rightarrow>
              Inr (status ''Cannot understand server's working directory response''
                (done_loading (s\<lparr>cwd := None\<rparr>))))
      else Inr (status ''Cannot query current working directory'' (done_loading s)))"

text \<open>\<open>%ns\<close> of \<open>sscanf\<close>, and \<open>%*s\<close>.\<close>

definition scan_s :: "nat \<Rightarrow> string \<Rightarrow> (string \<times> string) option" where
  "scan_s n t =
     (let u = skip_space t; w = take n (takeWhile (\<lambda>c. \<not> isspace c) u)
      in if w = [] then None else Some (w, drop (length w) u))"

definition skip_s :: "string \<Rightarrow> string option" where
  "skip_s t =
     (let u = skip_space t; w = takeWhile (\<lambda>c. \<not> isspace c) u
      in if w = [] then None else Some (drop (length w) u))"

text \<open>A line of \<open>ls -l\<close>: \<open>%15s%*s%*s%*s%d%7s%7s%7s%63s\<close>, six items or none.\<close>

definition scan_entry :: "string \<Rightarrow> (string \<times> int \<times> string \<times> string \<times> string \<times> string) option" where
  "scan_entry t =
     (case scan_s 15 t of None \<Rightarrow> None | Some (attr, t1) \<Rightarrow>
     (case skip_s t1 of None \<Rightarrow> None | Some t2 \<Rightarrow>
     (case skip_s t2 of None \<Rightarrow> None | Some t3 \<Rightarrow>
     (case skip_s t3 of None \<Rightarrow> None | Some t4 \<Rightarrow>
     (case scan_d t4 of None \<Rightarrow> None | Some (sz, t5) \<Rightarrow>
     (case scan_s 7 t5 of None \<Rightarrow> None | Some (d1, t6) \<Rightarrow>
     (case scan_s 7 t6 of None \<Rightarrow> None | Some (d2, t7) \<Rightarrow>
     (case scan_s 7 t7 of None \<Rightarrow> None | Some (d3, t8) \<Rightarrow>
     (case scan_s 63 t8 of None \<Rightarrow> None | Some (nm, t9) \<Rightarrow>
        Some (attr, sz, d1, d2, d3, nm))))))))))"

definition entry_rec :: "string \<times> int \<times> string \<times> string \<times> string \<times> string \<Rightarrow> file_rec" where
  "entry_rec x = (case x of (attr, sz, d1, d2, d3, nm) \<Rightarrow>
     \<lparr>is_dir = (if hd attr = CHR ''d'' then 1 else 0), fr_name = nm, fr_size = sz,
      fr_date = snprintf 32 (d1 @ '' '' @ d2 @ '' '' @ d3)\<rparr>)"

text \<open>\<open>for (q = p; *q != '\n'; q++)\<close>: the line and what follows its line feed.\<close>

fun to_lf :: "mem \<Rightarrow> mem_fault + string \<times> mem" where
  "to_lf [] = Inl OVERRUN"
| "to_lf (None # m) = Inl INDETERMINATE"
| "to_lf (Some c # m) =
     (if c = LF then Inr ([], m) else bind_res (to_lf m) (\<lambda>(l, r). Inr (c # l, r)))"

lemma to_lf_shorter: "to_lf m = Inr (l, r) \<Longrightarrow> length r < length m"
  by (induction m arbitrary: l r rule: to_lf.induct)
     (auto simp: bind_res_eq_Inr split: if_splits)

text \<open>
  The loop over the lines. \<open>n\<close> (\<open>count\<close>) is the number of records allocated, \<open>recs\<close> those filled. The
  line feed becomes a NUL, so that \<open>sscanf\<close> sees the C string at the start of the line.
\<close>

function list_entries :: "nat \<Rightarrow> file_rec list \<Rightarrow> mem \<Rightarrow> mem_fault + file_rec list" where
  "list_entries n recs m =
     (case m of
        [] \<Rightarrow> Inl OVERRUN
      | None # m' \<Rightarrow> Inl INDETERMINATE
      | Some c # m' \<Rightarrow>
          if c = NUL then Inr recs
          else
            (case to_lf m of
               Inl err \<Rightarrow> Inl err
             | Inr (l, r) \<Rightarrow>
                 (case scan_entry (cstr l) of
                    None \<Rightarrow> list_entries n recs r
                  | Some x \<Rightarrow>
                      if length recs < n then list_entries n (recs @ [entry_rec x]) r
                      else Inl OVERRUN)))"
  by pat_completeness auto
termination
  by (relation "measure (\<lambda>(n, recs, m). length m)") (auto simp del: to_lf.simps dest: to_lf_shorter)

declare list_entries.simps [simp del]

definition parent_rec :: file_rec where
  "parent_rec = \<lparr>is_dir = 2, fr_name = ''..'', fr_size = 0, fr_date = ''''\<rparr>"

text \<open>The records of a listing: \<open>count\<close> is one more than the line feeds before the NUL.\<close>

definition listing_recs :: "string \<Rightarrow> mem \<Rightarrow> mem_fault + file_rec list" where
  "listing_recs d m =
     bind_res (load_str m) (\<lambda>t.
       list_entries (1 + length (filter (\<lambda>c. c = LF) t)) (if d \<noteq> ''/'' then [parent_rec] else []) m)"

definition list_3 :: "env \<Rightarrow> mem option \<Rightarrow> app \<Rightarrow> mem_fault + app" where
  "list_3 e data s =
     (case cwd s of
        None \<Rightarrow> Inl NULL_POINTER
      | Some d \<Rightarrow>
          let s1 = statusf (''Directory: '' @ d) (act CloseY (done_loading (read_mark None s))) in
          (case data of
             None \<Rightarrow> Inl NULL_POINTER
           | Some m \<Rightarrow>
               bind_res (listing_recs d m) (\<lambda>recs.
                 Inr (s1\<lparr>flist := file_list_reset (env_qsort e) recs (flist s1)\<rparr>))))"

section \<open>Set-up, directories, names\<close>

definition do_sys_setup :: "app \<Rightarrow> app" where
  "do_sys_setup s = ask ''TYPE I'' K_sys_1 (status ''Setting type to binary (image)'' (loading s))"

definition sys_1 :: "int \<Rightarrow> string \<Rightarrow> app \<Rightarrow> app" where
  "sys_1 code t s =
     (if code = 200 then ask ''SYST'' K_sys_2 s
      else status ''Did not see a valid transmission type response'' (done_loading s))"

text \<open>White space is cut off the end; \<open>sys_2\<close> leaves the first character alone.\<close>

definition rstrip :: "string \<Rightarrow> string" where
  "rstrip t = rev (dropWhile isspace (rev t))"

definition rstrip_tail :: "string \<Rightarrow> string" where
  "rstrip_tail t = (case t of [] \<Rightarrow> [] | c # cs \<Rightarrow> c # rstrip cs)"

definition sys_2 :: "int \<Rightarrow> string \<Rightarrow> app \<Rightarrow> app" where
  "sys_2 code t s =
     (if code = 215 then do_list (statusf (''System type is '' @ rstrip_tail t) s)
      else status ''Did not see a valid system type response'' (done_loading s))"

text \<open>The codes for which the three kinds of change are reported as not available.\<close>

definition refusal :: "int \<Rightarrow> string \<Rightarrow> string \<Rightarrow> string" where
  "refusal code a b = (if code = 450 \<or> code = 550 then a else b)"

definition do_cwd :: "string \<Rightarrow> app \<Rightarrow> app" where
  "do_cwd nm s = ask (''CWD '' @ nm) K_cwd_1 (status ''Changing working directory'' (loading s))"

definition cwd_1 :: "int \<Rightarrow> string \<Rightarrow> app \<Rightarrow> app" where
  "cwd_1 code t s =
     (if code = 250 then do_list s
      else status (refusal code ''Cannot change directory: not available or no access''
        ''Did not see a valid working directory change result'') (done_loading s))"

definition do_rename :: "string \<Rightarrow> string \<Rightarrow> app \<Rightarrow> app" where
  "do_rename a b s =
     ask (''RNFR '' @ a) K_rename_1
       (statusf (''Renaming '' @ a @ '' to '' @ b @ '' (RNFR)'') ((loading s)\<lparr>rename_from := a, rename_to := b\<rparr>))"

definition rename_1 :: "int \<Rightarrow> string \<Rightarrow> app \<Rightarrow> app" where
  "rename_1 code t s =
     (if code = 250 then ask (''RNTO '' @ rename_to s) K_rename_2 s
      else status (refusal code ''Cannot rename file: not available or no access''
        ''Did not see a valid rename-from response'') (done_loading s))"

definition rename_2 :: "int \<Rightarrow> string \<Rightarrow> app \<Rightarrow> app" where
  "rename_2 code t s =
     (if code = 250 then
        do_list (statusf (''Successfully renamed '' @ [DQUOTE] @ rename_from s @ [DQUOTE] @ '' to '' @
          [DQUOTE] @ rename_to s @ [DQUOTE]) s)
      else status (refusal code ''Cannot rename file: not available or no access''
        ''Did not see a valid rename-to response'') (done_loading s))"

definition do_mkd :: "string \<Rightarrow> app \<Rightarrow> app" where
  "do_mkd nm s =
     ask (''MKD '' @ nm) K_mkd_1 (statusf (''Making directory '' @ [DQUOTE] @ nm @ [DQUOTE]) (loading s))"

definition mkd_1 :: "int \<Rightarrow> string \<Rightarrow> app \<Rightarrow> app" where
  "mkd_1 code t s =
     (let s1 = done_loading s in
      if code = 250 then do_list (status ''Successfully created new directory'' s1)
      else status (refusal code ''Cannot create directory: not available or no access''
        ''Did not see a valid directory creation result'') s1)"

definition do_rm :: "bool \<Rightarrow> string \<Rightarrow> app \<Rightarrow> app" where
  "do_rm dir nm s =
     ask ((if dir then ''RMD '' else ''DELE '') @ nm) K_rm_1
       (statusf (''Removing '' @ [DQUOTE] @ nm @ [DQUOTE]) (loading s))"

definition rm_1 :: "int \<Rightarrow> string \<Rightarrow> app \<Rightarrow> app" where
  "rm_1 code t s =
     (let s1 = done_loading s in
      if code = 250 then do_list (status ''Successfully removed'' s1)
      else status (refusal code ''Cannot delete: not available, no access, or directory non-empty''
        ''Did not see a valid entry deletion result'') s1)"

section \<open>Downloads and uploads\<close>

definition int_size :: "int \<Rightarrow> int" where
  "int_size z = sint (word_of_int z :: 32 word)"

definition do_retr :: "env \<Rightarrow> string \<Rightarrow> int \<Rightarrow> app \<Rightarrow> app" where
  "do_retr e nm sz s =
     (let s1 = statusf (''Requesting file '' @ nm) (loading s) in
      case env_open e of
        Inl err \<Rightarrow> statusf (''Cannot create local file: '' @ err) (done_loading s1)
      | Inr out_fd \<Rightarrow>
          do_data e (- out_fd) I_retr_1 K_retr_2
            (s1\<lparr>retr_name := nm, retr_size := sz, retr_size_str := get_size_str (word_of_int sz),
                retr_out_fd := out_fd\<rparr>))"

definition retr_2 :: "size_t \<Rightarrow> app \<Rightarrow> app" where
  "retr_2 len s =
     (if len = -1 then
        statusf (''Successfully downloaded '' @ [DQUOTE] @ retr_name s @ [DQUOTE] @ '' ('' @ retr_size_str s @ '')'')
          (done_loading (act (CloseFile (retr_out_fd s)) (read_mark None (act CloseY s))))
      else
        act (Progress len (retr_size s))
          (instant_statusf (''Downloading '' @ [DQUOTE] @ retr_name s @ [DQUOTE] @ '' ('' @ get_size_str len @
            '' / '' @ retr_size_str s @ '')'') s))"

definition do_stor :: "env \<Rightarrow> string \<Rightarrow> app \<Rightarrow> app" where
  "do_stor e nm s =
     (let s1 = statusf (''Storing file '' @ nm) (loading s) in
      case env_open e of
        Inl err \<Rightarrow> statusf (''Cannot open local file: '' @ err) (done_loading s1)
      | Inr in_fd \<Rightarrow>
          let sz = int_size (if env_lseek e = -1 then 0 else env_lseek e) in
          do_data e in_fd I_stor_1 K_stor_2
            (s1\<lparr>stor_name := nm, stor_size := sz, stor_size_str := get_size_str (word_of_int sz),
                stor_in_fd := in_fd\<rparr>))"

definition stor_2 :: "size_t \<Rightarrow> app \<Rightarrow> app" where
  "stor_2 len s =
     (if len = -1 then
        status ''Successfully uploaded, awaiting confirmation''
          (act (CloseFile (stor_in_fd s)) (read_mark (Some K_stor_3) (act CloseY s)))
      else
        act (Progress len (stor_size s))
          (instant_statusf (''Uploading '' @ [DQUOTE] @ stor_name s @ [DQUOTE] @ '' ('' @ get_size_str len @
            '' / '' @ stor_size_str s @ '')'') s))"

definition stor_3 :: "int \<Rightarrow> string \<Rightarrow> app \<Rightarrow> app" where
  "stor_3 code t s =
     (if code = 226 then
        do_list (statusf (''Successfully uploaded '' @ [DQUOTE] @ stor_name s @ [DQUOTE] @ '' ('' @ stor_size_str s @ '')'')
          (done_loading s))
      else status ''Did not see a valid upload finish confirmation'' s)"

section \<open>Connecting and logging in\<close>

definition enable_conn :: "app \<Rightarrow> app" where
  "enable_conn s = s\<lparr>box_conn := True\<rparr>"

definition do_auth :: "app \<Rightarrow> app" where
  "do_auth s = read_mark (Some K_auth_1) (status ''Connected, waiting for welcome message'' s)"

definition auth_1 :: "env \<Rightarrow> int \<Rightarrow> string \<Rightarrow> app \<Rightarrow> app" where
  "auth_1 e code t s =
     (if code = 220 then
        ask (''USER '' @ env_user e) K_auth_2 (status ''Welcome message received, logging in'' s)
      else enable_conn (status ''Did not see a valid welcome mark'' (done_loading s)))"

definition auth_2 :: "env \<Rightarrow> int \<Rightarrow> string \<Rightarrow> app \<Rightarrow> app" where
  "auth_2 e code t s =
     (if code = 331 then ask (''PASS '' @ env_pass e) K_auth_3 s
      else enable_conn (status ''Did not see a valid password request mark'' (done_loading s)))"

definition auth_3 :: "int \<Rightarrow> string \<Rightarrow> app \<Rightarrow> app" where
  "auth_3 code t s =
     (let s1 = done_loading s in
      if code = 230 then do_sys_setup ((status ''Logged in'' s1)\<lparr>connected := True, conn_text := ''Disconnect''\<rparr>)
      else enable_conn (status (if code = 530 then ''Incorrect credentials''
        else ''Did not see a valid log in mark'') s1))"

definition connection_setup :: "int \<Rightarrow> app \<Rightarrow> app" where
  "connection_setup code s =
     (if code = 0 then do_auth s
      else enable_conn (status (if code = XFER_ERR_CONNECT then ''Cannot connect to the server''
        else ''Internal error during connection'') (done_loading s)))"

definition btnConnClick :: "env \<Rightarrow> app \<Rightarrow> app" where
  "btnConnClick e s =
     (if \<not> connected s then
        let s1 = act (InitX (env_host e) (env_port e))
                   ((statusf (''Connecting to '' @ env_host e) (loading s))\<lparr>box_conn := False\<rparr>)
        in case env_init e of
             None \<Rightarrow> start_thread (Connecting K_connection_setup) s1
           | Some err \<Rightarrow> connection_setup err s1
      else ask ''QUIT'' K_disconn_1 (status ''Disconnecting'' (loading s)))"

definition disconn_1 :: "int \<Rightarrow> string \<Rightarrow> app \<Rightarrow> app" where
  "disconn_1 code t s =
     (let s1 = (if code = 221 then statusf (''Disconnected: '' @ rstrip t) s else status ''Disconnected'' s);
          s2 = (done_loading (act CloseX s1))\<lparr>connected := False, box_conn := True, conn_text := ''Connect''\<rparr>
      in s2\<lparr>flist := file_list_clear (flist s2)\<rparr>)"

definition btnModeClick :: "app \<Rightarrow> app" where
  "btnModeClick s =
     s\<lparr>passive_mode := \<not> passive_mode s,
       mode_text := (if \<not> passive_mode s then ''Current mode: Passive'' else ''Current mode: Active'')\<rparr>"

section \<open>Requests of the file list\<close>

definition file_list_download :: "env \<Rightarrow> file_rec \<Rightarrow> app \<Rightarrow> app" where
  "file_list_download e r s =
     (if is_dir r \<noteq> 0 then do_cwd (fr_name r) s
      else case env_save e of None \<Rightarrow> s | Some p \<Rightarrow> do_retr e (fr_name r) (fr_size r) s)"

text \<open>The search for a name that is free may fault, or not end.\<close>

definition file_list_upload :: "env \<Rightarrow> app \<Rightarrow> (mem_fault + app) option" where
  "file_list_upload e s =
     (case env_choose e of
        None \<Rightarrow> Some (Inr s)
      | Some p \<Rightarrow>
          map_option (\<lambda>r. bind_res r (\<lambda>nm. Inr (do_stor e nm s))) (file_list_get_upload_name (flist s) p))"

definition do_request :: "env \<Rightarrow> request \<Rightarrow> app \<Rightarrow> (mem_fault + app) option" where
  "do_request e r s =
     (case r of
        Download f \<Rightarrow> Some (Inr (file_list_download e f s))
      | Upload \<Rightarrow> file_list_upload e s
      | Rename a b \<Rightarrow> Some (Inr (do_rename a b s))
      | Mkdir nm \<Rightarrow> Some (Inr (do_mkd nm s))
      | Delete d nm \<Rightarrow> Some (Inr (do_rm d nm s))
      | Nothing \<Rightarrow> Some (Inr s))"

section \<open>Callbacks\<close>

text \<open>The callback of a reply, with its code and text.\<close>

definition on_mark :: "env \<Rightarrow> mark_cb \<Rightarrow> int \<Rightarrow> string \<Rightarrow> app \<Rightarrow> mem_fault + app" where
  "on_mark e k code t s =
     (case k of
        K_data_pasv_1 \<Rightarrow> Inr (data_pasv_1 e code t s)
      | K_data_port_1 \<Rightarrow> Inr (data_port_1 e code t s)
      | K_list_1 \<Rightarrow> list_1 e code t s
      | K_sys_1 \<Rightarrow> Inr (sys_1 code t s)
      | K_sys_2 \<Rightarrow> Inr (sys_2 code t s)
      | K_cwd_1 \<Rightarrow> Inr (cwd_1 code t s)
      | K_rename_1 \<Rightarrow> Inr (rename_1 code t s)
      | K_rename_2 \<Rightarrow> Inr (rename_2 code t s)
      | K_mkd_1 \<Rightarrow> Inr (mkd_1 code t s)
      | K_rm_1 \<Rightarrow> Inr (rm_1 code t s)
      | K_stor_3 \<Rightarrow> Inr (stor_3 code t s)
      | K_auth_1 \<Rightarrow> Inr (auth_1 e code t s)
      | K_auth_2 \<Rightarrow> Inr (auth_2 e code t s)
      | K_auth_3 \<Rightarrow> Inr (auth_3 code t s)
      | K_disconn_1 \<Rightarrow> Inr (disconn_1 code t s))"

definition on_connected :: "conn_cb \<Rightarrow> int \<Rightarrow> app \<Rightarrow> app" where
  "on_connected k code s = (case k of K_connection_setup \<Rightarrow> connection_setup code s | K_data_2 \<Rightarrow> data_2 code s)"

text \<open>\<open>data_next\<close> with a length and, after \<open>xfer_read_all\<close>, the data.\<close>

definition on_data :: "env \<Rightarrow> data_cb \<Rightarrow> size_t \<Rightarrow> mem option \<Rightarrow> app \<Rightarrow> mem_fault + app" where
  "on_data e k len data s =
     (case k of
        K_list_3 \<Rightarrow> list_3 e data s
      | K_retr_2 \<Rightarrow> Inr (retr_2 len s)
      | K_stor_2 \<Rightarrow> Inr (stor_2 len s))"

text \<open>The start of the program, after the window has been built and the list cleared.\<close>

definition app_start :: "file_list \<Rightarrow> app" where
  "app_start l =
     \<lparr>loading_now = False, box_conn = True, connected = False, passive_mode = True,
      conn_text = ''Connect'', mode_text = ''Current mode: Passive'', cwd = None,
      data_fd = 0, data_inter = None, data_next = K_list_3, rename_from = [], rename_to = [],
      retr_name = [], retr_size = 0, retr_size_str = [], retr_out_fd = -1,
      stor_name = [], stor_size = 0, stor_size_str = [], stor_in_fd = -1,
      flist = file_list_clear l, threads = [], acts = []\<rparr>"

end
