(* ===== verification/ClientRun.thy ===== *)
theory ClientRun
  imports ClientMain
begin

text \<open>
  The client as a transition system: the user works the widgets that are enabled, and threads
  that are at work call back, in any order. The invariant says that the program holds one
  conversation at a time: the user interface is blocked exactly while one callback with a
  continuation is due, with one exception, a refused upload.
\<close>

section \<open>Events\<close>

datatype event = Click_conn | Click_mode | Edit nat column string
  | Reply "mark_cb option" int string | Connection conn_cb int
  | All_read data_cb size_t mem | Moved data_cb size_t

definition take_thread :: "thread \<Rightarrow> app \<Rightarrow> app option" where
  "take_thread t s =
     (if t \<in> set (threads s) then Some (s\<lparr>threads := remove1 t (threads s)\<rparr>) else None)"

definition editable :: "file_list \<Rightarrow> nat \<Rightarrow> column \<Rightarrow> bool" where
  "editable l row col \<longleftrightarrow>
     row < modelNumRows l \<and>
     (case guard_column col of None \<Rightarrow> False | Some g \<Rightarrow> modelCellValue l row g = Inr (CInt True))"

text \<open>What an event does; \<open>None\<close> when it cannot happen (or its handler does not end).\<close>

definition client_event :: "env \<Rightarrow> event \<Rightarrow> app \<Rightarrow> (mem_fault + app) option" where
  "client_event e ev s =
     (case ev of
        Click_conn \<Rightarrow> if loading_now s then None else Some (Inr (btnConnClick e s))
      | Click_mode \<Rightarrow> Some (Inr (btnModeClick s))
      | Edit row col v \<Rightarrow>
          if \<not> editable (flist s) row col then None
          else
            (case modelSetCellValue (flist s) row col v of
               None \<Rightarrow> None
             | Some (Inl err) \<Rightarrow> Some (Inl err)
             | Some (Inr r) \<Rightarrow> do_request e r s)
      | Reply k code t \<Rightarrow>
          (case take_thread (ReadMark k) s of
             None \<Rightarrow> None
           | Some s1 \<Rightarrow> (case k of None \<Rightarrow> Some (Inr s1) | Some k' \<Rightarrow> Some (on_mark e k' code t s1)))
      | Connection k code \<Rightarrow>
          map_option (\<lambda>s1. Inr (on_connected k code s1)) (take_thread (Connecting k) s)
      | All_read k len m \<Rightarrow>
          map_option (\<lambda>s1. on_data e k len (Some m) s1) (take_thread (Gathering k) s)
      | Moved k len \<Rightarrow>
          (case take_thread (Streaming k) s of
             None \<Rightarrow> None
           | Some s1 \<Rightarrow> Some (on_data e k len None (if len = -1 then s1 else s))))"

text \<open>What the surroundings promise.\<close>

definition env_ok :: "env \<Rightarrow> bool" where
  "env_ok e \<longleftrightarrow>
     qsort_law (env_qsort e) \<and> (\<forall>c. env_init e = Some c \<longrightarrow> c \<noteq> 0) \<and>
     (\<forall>fd. env_open e = Inr fd \<longrightarrow> 0 < fd)"

inductive client_step :: "app \<Rightarrow> app \<Rightarrow> bool" where
  event: "env_ok e \<Longrightarrow> client_event e ev s = Some (Inr s') \<Longrightarrow> client_step s s'"

section \<open>The invariant\<close>

text \<open>The threads whose callback continues a conversation.\<close>

definition talking :: "app \<Rightarrow> thread list" where
  "talking s = filter (\<lambda>t. t \<noteq> ReadMark None) (threads s)"

definition login_thread :: "thread \<Rightarrow> bool" where
  "login_thread t \<longleftrightarrow>
     t \<in> {Connecting K_connection_setup, ReadMark (Some K_auth_1), ReadMark (Some K_auth_2),
          ReadMark (Some K_auth_3)}"

definition data_thread :: "thread \<Rightarrow> bool" where
  "data_thread t \<longleftrightarrow>
     t \<in> {ReadMark (Some K_data_pasv_1), ReadMark (Some K_data_port_1), Connecting K_data_2}"

definition thread_ok :: "app \<Rightarrow> thread \<Rightarrow> bool" where
  "thread_ok s t \<longleftrightarrow>
     (login_thread t \<longleftrightarrow> \<not> connected s) \<and>
     (data_thread t \<longrightarrow>
        (if data_next s = K_list_3 then data_fd s = 0 \<and> cwd s \<noteq> None else data_fd s \<noteq> 0)) \<and>
     (\<forall>k. t = Gathering k \<longrightarrow> k = K_list_3 \<and> cwd s \<noteq> None) \<and>
     (\<forall>k. t = Streaming k \<longrightarrow> k \<noteq> K_list_3)"

definition list_ok :: "app \<Rightarrow> bool" where
  "list_ok s \<longleftrightarrow> (enabled (flist s) \<longrightarrow> \<not> loading_now s) \<and> (has_contents (flist s) \<longrightarrow> connected s)"

definition idle :: "app \<Rightarrow> bool" where
  "idle s \<longleftrightarrow> \<not> loading_now s \<and> talking s = [] \<and> list_ok s"

definition busy :: "app \<Rightarrow> bool" where
  "busy s \<longleftrightarrow> loading_now s \<and> (\<exists>t. talking s = [t] \<and> thread_ok s t) \<and> list_ok s"

text \<open>The user interface is blocked and nothing is due.\<close>

definition dead :: "app \<Rightarrow> bool" where
  "dead s \<longleftrightarrow> loading_now s \<and> talking s = [] \<and> list_ok s"

definition ui_inv :: "app \<Rightarrow> bool" where
  "ui_inv s \<longleftrightarrow> idle s \<or> busy s"

lemmas op_defs = act_def start_thread_def loading_def done_loading_def status_def statusf_def
  instant_statusf_def send_x_def read_mark_def ask_def

lemma list_ok_quiet [simp]:
  "enabled (file_list_set_enabled b l) = b" "has_contents (file_list_set_enabled b l) = has_contents l"
  "has_contents (file_list_clear l) = False" "enabled (file_list_clear l) = enabled l"
  "has_contents (file_list_reset qs rs l) = True" "enabled (file_list_reset qs rs l) = True"
  by (simp_all add: file_list_set_enabled_def file_list_clear_def file_list_reset_def Let_def)

text \<open>What the small operations keep of the state.\<close>

lemma op_sel [simp]:
  "threads (act a s) = threads s" "loading_now (act a s) = loading_now s" "flist (act a s) = flist s"
  "connected (act a s) = connected s" "cwd (act a s) = cwd s" "data_fd (act a s) = data_fd s"
  "data_next (act a s) = data_next s" "data_inter (act a s) = data_inter s"
  "passive_mode (act a s) = passive_mode s"
  "threads (loading s) = threads s" "loading_now (loading s) = True"
  "flist (loading s) = file_list_set_enabled False (flist s)" "connected (loading s) = connected s"
  "cwd (loading s) = cwd s" "data_fd (loading s) = data_fd s" "data_next (loading s) = data_next s"
  "data_inter (loading s) = data_inter s" "passive_mode (loading s) = passive_mode s"
  "threads (done_loading s) = threads s" "loading_now (done_loading s) = False"
  "flist (done_loading s) = file_list_set_enabled True (flist s)"
  "connected (done_loading s) = connected s" "cwd (done_loading s) = cwd s"
  by (simp_all add: op_defs)

lemma status_sel [simp]:
  "threads (status t s) = threads s" "loading_now (status t s) = loading_now s"
  "flist (status t s) = flist s" "connected (status t s) = connected s" "cwd (status t s) = cwd s"
  "data_fd (status t s) = data_fd s" "data_next (status t s) = data_next s"
  "data_inter (status t s) = data_inter s" "passive_mode (status t s) = passive_mode s"
  "threads (statusf t s) = threads s" "loading_now (statusf t s) = loading_now s"
  "flist (statusf t s) = flist s" "connected (statusf t s) = connected s" "cwd (statusf t s) = cwd s"
  "data_fd (statusf t s) = data_fd s" "data_next (statusf t s) = data_next s"
  "data_inter (statusf t s) = data_inter s" "passive_mode (statusf t s) = passive_mode s"
  "threads (send_x t s) = threads s" "loading_now (send_x t s) = loading_now s"
  "flist (send_x t s) = flist s" "connected (send_x t s) = connected s" "cwd (send_x t s) = cwd s"
  "data_fd (send_x t s) = data_fd s" "data_next (send_x t s) = data_next s"
  "threads (instant_statusf t s) = threads s" "loading_now (instant_statusf t s) = loading_now s"
  "flist (instant_statusf t s) = flist s" "connected (instant_statusf t s) = connected s"
  "cwd (instant_statusf t s) = cwd s" "data_fd (instant_statusf t s) = data_fd s"
  "data_next (instant_statusf t s) = data_next s"
  by (simp_all add: status_def statusf_def send_x_def instant_statusf_def)

lemma start_thread_sel [simp]:
  "threads (start_thread t s) = threads s @ [t]" "loading_now (start_thread t s) = loading_now s"
  "flist (start_thread t s) = flist s" "connected (start_thread t s) = connected s"
  "cwd (start_thread t s) = cwd s" "data_fd (start_thread t s) = data_fd s"
  "data_next (start_thread t s) = data_next s" "data_inter (start_thread t s) = data_inter s"
  by (simp_all add: start_thread_def)

lemma read_mark_sel [simp]:
  "threads (read_mark k s) = threads s @ [ReadMark k]" "loading_now (read_mark k s) = loading_now s"
  "flist (read_mark k s) = flist s" "connected (read_mark k s) = connected s"
  "cwd (read_mark k s) = cwd s" "data_fd (read_mark k s) = data_fd s"
  "data_next (read_mark k s) = data_next s" "data_inter (read_mark k s) = data_inter s"
  by (simp_all add: read_mark_def)

lemma ask_sel [simp]:
  "threads (ask t k s) = threads s @ [ReadMark (Some k)]" "loading_now (ask t k s) = loading_now s"
  "flist (ask t k s) = flist s" "connected (ask t k s) = connected s"
  "cwd (ask t k s) = cwd s" "data_fd (ask t k s) = data_fd s" "data_next (ask t k s) = data_next s"
  by (simp_all add: ask_def)

section \<open>Every handler keeps the invariant\<close>

text \<open>The state when the callback of a thread that continues a conversation is called.\<close>

definition due :: "thread \<Rightarrow> app \<Rightarrow> bool" where
  "due t s \<longleftrightarrow> loading_now s \<and> talking s = [] \<and> thread_ok s t \<and> list_ok s"

lemma take_threadD:
  assumes "take_thread t s = Some s1"
  shows "t \<in> set (threads s)" and "s1 = s\<lparr>threads := remove1 t (threads s)\<rparr>"
  using assms by (auto simp: take_thread_def split: if_splits)

lemma talking_remove: "talking (s\<lparr>threads := remove1 t (threads s)\<rparr>) = remove1 t (talking s)"
  by (simp add: talking_def filter_remove1)

lemma due_taken:
  assumes "ui_inv s" and "take_thread t s = Some s1" and "t \<noteq> ReadMark None"
  shows "due t s1"
proof -
  note t = take_threadD [OF assms(2)]
  have "t \<in> set (talking s)" using t(1) assms(3) by (simp add: talking_def)
  with assms(1) have b: "busy s" "talking s = [t]" "thread_ok s t"
    by (auto simp: ui_inv_def idle_def dead_def busy_def)
  then have "talking s1 = []" using t(2) talking_remove [of t s] by simp
  with b t(2) show ?thesis unfolding due_def busy_def thread_ok_def list_ok_def by (elim conjE) simp
qed

lemma drained:
  assumes "ui_inv s" and "take_thread (ReadMark None) s = Some s1"
  shows "ui_inv s1"
proof -
  note t = take_threadD [OF assms(2)]
  have "talking s1 = talking s"
    using t(2) talking_remove [of "ReadMark None" s] by (simp add: talking_def remove1_idem)
  with assms(1) t(2) show ?thesis
    by (auto simp: ui_inv_def idle_def busy_def dead_def list_ok_def thread_ok_def)
qed

lemmas ui_defs = ui_inv_def idle_def busy_def talking_def list_ok_def thread_ok_def login_thread_def
  data_thread_def due_def

lemma do_list_inv: "talking s = [] \<Longrightarrow> connected s \<Longrightarrow> busy (do_list s)"
  by (simp add: do_list_def ui_defs)

lemma do_data_inv:
  assumes "talking s = []" and "connected s"
    and "if k = K_list_3 then fd = 0 \<and> cwd s \<noteq> None else fd \<noteq> 0"
  shows "ui_inv (do_data e fd i k s)"
proof (cases "passive_mode s")
  case True
  with assms show ?thesis by (simp add: do_data_def Let_def ui_defs)
next
  case False
  with assms show ?thesis by (cases "env_listen e") (simp_all add: do_data_def Let_def ui_defs)
qed

lemma data_2_inv:
  assumes "due (Connecting K_data_2) s"
  shows "ui_inv (data_2 c s)"
proof (cases "c = 0")
  case True
  with assms show ?thesis by (cases "data_next s = K_list_3") (auto simp: data_2_def Let_def ui_defs)
next
  case False
  with assms show ?thesis by (simp add: data_2_def ui_defs)
qed

lemma run_inter_sel [simp]:
  "threads (run_inter i s) = threads s @ [ReadMark None]" "loading_now (run_inter i s) = loading_now s"
  "flist (run_inter i s) = flist s" "connected (run_inter i s) = connected s"
  "cwd (run_inter i s) = cwd s" "data_fd (run_inter i s) = data_fd s" "data_next (run_inter i s) = data_next s"
  by (simp_all add: run_inter_def split: inter.splits)

lemma call_inter_inv: "ui_inv s \<Longrightarrow> ui_inv (call_inter s)"
  by (auto simp: call_inter_def ui_defs dead_def split: option.splits)

lemma start_data_inv:
  assumes "due t s" and "data_thread t"
  shows "ui_inv (start_data e a s)"
proof (cases "env_init e")
  case None
  with assms show ?thesis by (auto simp: start_data_def ui_defs)
next
  case (Some c)
  moreover have "due (Connecting K_data_2) (act a s)"
    using assms by (auto simp: ui_defs)
  ultimately show ?thesis by (simp add: start_data_def data_2_inv)
qed

lemma due_statusf: "due t s \<Longrightarrow> due t (statusf x s)"
  unfolding due_def talking_def list_ok_def thread_ok_def by (elim conjE) simp

lemma due_call_inter: "due t s \<Longrightarrow> due t (call_inter s)"
  by (auto simp: call_inter_def due_def talking_def list_ok_def thread_ok_def split: option.splits)

lemma data_pasv_1_inv: "due (ReadMark (Some K_data_pasv_1)) s \<Longrightarrow> ui_inv (data_pasv_1 e c t s)"
proof -
  assume d: "due (ReadMark (Some K_data_pasv_1)) s"
  then have "ui_inv (status x (done_loading s))" for x by (simp add: ui_defs)
  moreover have "ui_inv (call_inter (start_data e a (statusf x s)))" for a x
    by (rule call_inter_inv, rule start_data_inv, rule due_statusf, rule d) (simp add: data_thread_def)
  ultimately show ?thesis by (simp add: data_pasv_1_def Let_def split: option.split)
qed

lemma data_port_1_inv: "due (ReadMark (Some K_data_port_1)) s \<Longrightarrow> ui_inv (data_port_1 e c t s)"
proof -
  assume d: "due (ReadMark (Some K_data_port_1)) s"
  then have "ui_inv (status x (done_loading s))" for x by (simp add: ui_defs)
  moreover have "ui_inv (start_data e a (statusf x (call_inter s)))" for a x
    by (rule start_data_inv, rule due_statusf, rule due_call_inter, rule d) (simp add: data_thread_def)
  ultimately show ?thesis by (simp add: data_port_1_def)
qed

lemma list_1_inv:
  assumes "due (ReadMark (Some K_list_1)) s" and "list_1 e c t s = Inr s'"
  shows "ui_inv s'"
proof (cases "c = 257")
  case True
  with assms(2) obtain q where q: "quoted_part t = Inr q" by (auto simp: list_1_def bind_res_eq_Inr)
  have con: "connected s" "talking s = []" using assms(1) by (auto simp: ui_defs)
  show ?thesis
  proof (cases q)
    case None
    with q True assms show ?thesis by (auto simp: list_1_def ui_defs)
  next
    case (Some d)
    have "ui_inv (do_data e 0 I_list_2 K_list_3 (status x (s\<lparr>cwd := Some d\<rparr>)))" for x
      using con by (intro do_data_inv) (auto simp: talking_def)
    with q True assms(2) Some show ?thesis by (auto simp: list_1_def)
  qed
next
  case False
  with assms show ?thesis by (auto simp: list_1_def ui_defs)
qed

text \<open>The two ways a handler ends: the conversation is over, or a question has been asked.\<close>

lemma over_inv:
  "talking s = [] \<Longrightarrow> (has_contents (flist s) \<longrightarrow> connected s) \<Longrightarrow> ui_inv (status t (done_loading s))"
  "talking s = [] \<Longrightarrow> (has_contents (flist s) \<longrightarrow> connected s) \<Longrightarrow> ui_inv (statusf t (done_loading s))"
  by (simp_all add: ui_inv_def idle_def talking_def list_ok_def)

lemma asked_inv:
  "talking s = [] \<Longrightarrow> loading_now s \<Longrightarrow> list_ok s \<Longrightarrow> thread_ok s (ReadMark (Some k)) \<Longrightarrow> ui_inv (ask t k s)"
  by (simp add: ui_inv_def busy_def talking_def list_ok_def thread_ok_def)

lemma thread_ok_mark:
  "k \<noteq> K_data_pasv_1 \<Longrightarrow> k \<noteq> K_data_port_1 \<Longrightarrow>
     thread_ok s (ReadMark (Some k)) \<longleftrightarrow> (k \<in> {K_auth_1, K_auth_2, K_auth_3} \<longleftrightarrow> \<not> connected s)"
  by (auto simp: thread_ok_def login_thread_def data_thread_def)

lemma due_mark:
  assumes "due (ReadMark (Some k)) s"
  shows "talking s = []" and "loading_now s" and "\<not> enabled (flist s)"
    and "has_contents (flist s) \<longrightarrow> connected s" and "connected s \<longleftrightarrow> k \<notin> {K_auth_1, K_auth_2, K_auth_3}"
  using assms by (auto simp: due_def list_ok_def thread_ok_def login_thread_def)

lemma talking_status [simp]:
  "talking (status t s) = talking s" "talking (statusf t s) = talking s" "talking (act a s) = talking s"
  "talking (loading s) = talking s" "talking (done_loading s) = talking s"
  "talking (instant_statusf t s) = talking s"
  by (simp_all add: talking_def)

lemma list_ok_status [simp]:
  "list_ok (status t s) = list_ok s" "list_ok (statusf t s) = list_ok s" "list_ok (act a s) = list_ok s"
  by (simp_all add: list_ok_def)

lemma list_3_inv:
  assumes "due (Gathering K_list_3) s" and "list_3 e m s = Inr s'"
  shows "ui_inv s'"
proof -
  obtain d m' recs where "cwd s = Some d"
    "s' = (statusf (''Directory: '' @ d) (act CloseY (done_loading (read_mark None s))))
      \<lparr>flist := file_list_reset (env_qsort e) recs
        (flist (statusf (''Directory: '' @ d) (act CloseY (done_loading (read_mark None s)))))\<rparr>"
    using assms(2) by (auto simp: list_3_def Let_def bind_res_eq_Inr split: option.splits)
  moreover have "talking s = []" "connected s"
    using assms(1) by (simp_all add: due_def thread_ok_def login_thread_def)
  ultimately show ?thesis by (simp add: ui_inv_def idle_def talking_def list_ok_def)
qed

lemma listed_inv: "talking s = [] \<Longrightarrow> connected s \<Longrightarrow> ui_inv (do_list s)"
  using do_list_inv by (simp add: ui_inv_def)

lemma on_mark_inv:
  assumes "due (ReadMark (Some k)) s" and "on_mark e k c t s = Inr s'"
    and "\<not> (k = K_stor_3 \<and> c \<noteq> 226)"
  shows "ui_inv s'"
proof -
  note d = due_mark [OF assms(1)]
  have auth: "talking s = [] \<and> list_ok s" using d by (simp add: list_ok_def)
  show ?thesis
  proof (cases k)
    case K_data_pasv_1
    with assms data_pasv_1_inv [of s e c t] show ?thesis by (simp add: on_mark_def)
  next
    case K_data_port_1
    with assms data_port_1_inv [of s e c t] show ?thesis by (simp add: on_mark_def)
  next
    case K_list_1
    with assms list_1_inv [of s e c t s'] show ?thesis by (simp add: on_mark_def)
  next
    case K_sys_1
    with d auth assms(2) over_inv(1) [of s] asked_inv [of s K_sys_2] show ?thesis
      by (auto simp: on_mark_def sys_1_def thread_ok_mark split: if_splits)
  next
    case K_sys_2
    with d assms(2) over_inv(1) [of s] listed_inv show ?thesis
      by (auto simp: on_mark_def sys_2_def split: if_splits)
  next
    case K_cwd_1
    with d assms(2) over_inv(1) [of s] listed_inv show ?thesis
      by (auto simp: on_mark_def cwd_1_def split: if_splits)
  next
    case K_rename_1
    with d auth assms(2) over_inv(1) [of s] asked_inv [of s K_rename_2] show ?thesis
      by (auto simp: on_mark_def rename_1_def thread_ok_mark split: if_splits)
  next
    case K_rename_2
    with d assms(2) over_inv(1) [of s] listed_inv show ?thesis
      by (auto simp: on_mark_def rename_2_def split: if_splits)
  next
    case K_mkd_1
    with d assms(2) over_inv(1) [of s] listed_inv show ?thesis
      by (auto simp: on_mark_def mkd_1_def Let_def split: if_splits)
  next
    case K_rm_1
    with d assms(2) over_inv(1) [of s] listed_inv show ?thesis
      by (auto simp: on_mark_def rm_1_def Let_def split: if_splits)
  next
    case K_stor_3
    with d assms(2,3) listed_inv show ?thesis by (auto simp: on_mark_def stor_3_def)
  next
    case K_auth_1
    with d auth assms(2) over_inv(1) [of s] asked_inv [of "status x s" K_auth_2 for x] show ?thesis
      by (auto simp: on_mark_def auth_1_def enable_conn_def thread_ok_mark ui_inv_def idle_def talking_def
          list_ok_def busy_def split: if_splits)
  next
    case K_auth_2
    with d auth assms(2) asked_inv [of s K_auth_3] show ?thesis
      by (auto simp: on_mark_def auth_2_def enable_conn_def thread_ok_mark ui_inv_def idle_def talking_def
          list_ok_def busy_def split: if_splits)
  next
    case K_auth_3
    with d assms(2) show ?thesis
      by (auto simp: on_mark_def auth_3_def Let_def do_sys_setup_def enable_conn_def thread_ok_mark ui_inv_def
          idle_def talking_def list_ok_def busy_def split: if_splits)
  next
    case K_disconn_1
    with d assms(2) show ?thesis
      by (auto simp: on_mark_def disconn_1_def Let_def ui_inv_def idle_def talking_def list_ok_def)
  qed
qed

lemma on_connected_inv:
  assumes "due (Connecting k) s"
  shows "ui_inv (on_connected k c s)"
proof (cases k)
  case K_connection_setup
  with assms show ?thesis
    by (auto simp: on_connected_def connection_setup_def do_auth_def enable_conn_def ui_inv_def idle_def
        busy_def due_def talking_def list_ok_def thread_ok_def login_thread_def data_thread_def)
next
  case K_data_2
  with assms data_2_inv show ?thesis by (simp add: on_connected_def)
qed

lemma retr_2_inv:
  "due (Streaming K_retr_2) s \<Longrightarrow> ui_inv (retr_2 (-1) s)"
  by (simp add: retr_2_def ui_inv_def idle_def due_def talking_def list_ok_def thread_ok_def login_thread_def)

lemma stor_2_inv:
  "due (Streaming K_stor_2) s \<Longrightarrow> ui_inv (stor_2 (-1) s)"
  by (auto simp: stor_2_def ui_inv_def busy_def due_def talking_def list_ok_def thread_ok_def login_thread_def
      data_thread_def)

text \<open>The invariant reads seven fields. A report of progress changes only the log.\<close>

lemma ui_inv_same:
  assumes "threads s' = threads s" and "loading_now s' = loading_now s" and "flist s' = flist s"
    and "connected s' = connected s" and "cwd s' = cwd s" and "data_fd s' = data_fd s"
    and "data_next s' = data_next s"
  shows "ui_inv s' = ui_inv s"
  by (simp only: ui_inv_def idle_def busy_def talking_def list_ok_def thread_ok_def assms)

lemma progress_inv:
  assumes "ui_inv s" and "len \<noteq> -1"
  shows "ui_inv (retr_2 len s)" and "ui_inv (stor_2 len s)"
  using ui_inv_same [of "retr_2 len s" s] ui_inv_same [of "stor_2 len s" s] assms
  by (simp_all add: retr_2_def stor_2_def)

lemma btnModeClick_inv: "ui_inv s \<Longrightarrow> ui_inv (btnModeClick s)"
  using ui_inv_same [of "btnModeClick s" s] by (simp add: btnModeClick_def)

lemma on_data_inv:
  assumes "due (Streaming k) s" and "on_data e k (-1) m s = Inr s'"
  shows "ui_inv s'"
proof -
  have "k \<noteq> K_list_3" using assms(1) by (auto simp: due_def thread_ok_def)
  with assms show ?thesis
    by (cases k) (auto simp: on_data_def retr_2_inv stor_2_inv)
qed

text \<open>The operations the user starts, from an idle state.\<close>

lemma idleD:
  assumes "idle s"
  shows "talking s = []" and "\<not> loading_now s" and "has_contents (flist s) \<longrightarrow> connected s"
  using assms by (simp_all add: idle_def list_ok_def)

lemma asked_loading:
  assumes "talking s = []" and "has_contents (flist s) \<longrightarrow> connected s" and "connected s"
    and "k \<notin> {K_data_pasv_1, K_data_port_1, K_auth_1, K_auth_2, K_auth_3}"
  shows "ui_inv (ask t k (status u (loading s)))" and "ui_inv (ask t k (statusf u (loading s)))"
  using assms
  by (auto simp: ui_inv_def busy_def talking_def list_ok_def thread_ok_def login_thread_def data_thread_def)

lemma loading_data_inv:
  assumes "idle s" and "connected s" and "k \<noteq> K_list_3" and "fd \<noteq> 0"
    and "talking s1 = talking s" and "connected s1 = connected s"
  shows "ui_inv (do_data e fd i k s1)"
  using assms idleD [OF assms(1)] by (intro do_data_inv) auto

lemma do_retr_inv:
  assumes "idle s" and "connected s" and "env_ok e"
  shows "ui_inv (do_retr e nm sz s)"
proof (cases "env_open e")
  case (Inl x)
  with assms idleD [OF assms(1)] over_inv(2) [of "statusf u (loading s)" for u] show ?thesis
    by (simp add: do_retr_def)
next
  case (Inr fd)
  with assms show ?thesis
    by (auto simp: do_retr_def Let_def env_ok_def talking_def intro!: loading_data_inv [OF assms(1,2)])
qed

lemma do_stor_inv:
  assumes "idle s" and "connected s" and "env_ok e"
  shows "ui_inv (do_stor e nm s)"
proof (cases "env_open e")
  case (Inl x)
  with assms idleD [OF assms(1)] over_inv(2) [of "statusf u (loading s)" for u] show ?thesis
    by (simp add: do_stor_def)
next
  case (Inr fd)
  with assms show ?thesis
    by (auto simp: do_stor_def Let_def env_ok_def talking_def intro!: loading_data_inv [OF assms(1,2)])
qed

lemma do_request_inv:
  assumes "idle s" and "connected s" and "env_ok e" and "do_request e r s = Some (Inr s')"
  shows "ui_inv s'"
proof -
  note i = idleD [OF assms(1)]
  have stay: "ui_inv s" using assms(1) by (simp add: ui_inv_def)
  show ?thesis
  proof (cases r)
    case (Download f)
    with i assms stay asked_loading(1) [OF i(1,3) assms(2), of K_cwd_1] do_retr_inv [OF assms(1-3)] show ?thesis
      by (auto simp: do_request_def file_list_download_def do_cwd_def split: if_splits option.splits)
  next
    case Upload
    with assms stay do_stor_inv [OF assms(1-3)] show ?thesis
      by (auto simp: do_request_def file_list_upload_def bind_res_eq_Inr split: option.splits)
  next
    case (Rename a b)
    with i assms have "s' = do_rename a b s" by (simp add: do_request_def)
    with i assms(2) show ?thesis
      by (auto simp: do_rename_def ui_inv_def busy_def talking_def list_ok_def thread_ok_def login_thread_def
          data_thread_def)
  next
    case (Mkdir nm)
    with i assms asked_loading(2) [OF i(1,3) assms(2), of K_mkd_1] show ?thesis
      by (auto simp: do_request_def do_mkd_def)
  next
    case (Delete d nm)
    with i assms asked_loading(2) [OF i(1,3) assms(2), of K_rm_1] show ?thesis
      by (auto simp: do_request_def do_rm_def)
  next
    case Nothing
    with assms stay show ?thesis by (simp add: do_request_def)
  qed
qed

lemma btnConnClick_inv:
  assumes "idle s" and "env_ok e"
  shows "ui_inv (btnConnClick e s)"
proof (cases "connected s")
  case True
  with idleD [OF assms(1)] asked_loading(1) [of s K_disconn_1] show ?thesis
    by (simp add: btnConnClick_def)
next
  case False
  with idleD [OF assms(1)] show ?thesis
    by (cases "env_init e")
       (auto simp: btnConnClick_def Let_def connection_setup_def do_auth_def enable_conn_def ui_inv_def
          busy_def idle_def talking_def list_ok_def thread_ok_def login_thread_def data_thread_def)
qed

lemma editable_idle:
  assumes "ui_inv s" and "editable (flist s) row col"
  shows "idle s" and "connected s"
proof -
  obtain g where g: "guard_column col = Some g" "modelCellValue (flist s) row g = Inr (CInt True)"
    "row < modelNumRows (flist s)"
    using assms(2) by (auto simp: editable_def split: option.splits)
  have "enabled (flist s)"
    using g by (cases col) (auto simp: modelCellValue_def Let_def split: if_splits)
  moreover have "has_contents (flist s)" using g(3) by (simp add: modelNumRows_def split: if_splits)
  ultimately show "idle s" and "connected s"
    using assms(1) by (auto simp: ui_inv_def idle_def busy_def dead_def list_ok_def)
qed

definition refused_upload :: "event \<Rightarrow> bool" where
  "refused_upload ev \<longleftrightarrow> (\<exists>c t. ev = Reply (Some K_stor_3) c t \<and> c \<noteq> 226)"

lemma event_inv:
  assumes "ui_inv s" and event: "env_ok e" "client_event e ev s = Some (Inr s')"
    and "\<not> refused_upload ev"
  shows "ui_inv s'"
proof -
  show ?thesis
  proof (cases ev)
    case Click_conn
    with event assms(1) have "idle s" by (auto simp: client_event_def ui_inv_def busy_def dead_def split: if_splits)
    with Click_conn event btnConnClick_inv show ?thesis by (auto simp: client_event_def split: if_splits)
  next
    case Click_mode
    with event btnModeClick_inv [OF assms(1)] show ?thesis by (auto simp: client_event_def)
  next
    case (Edit row col v)
    with event have ed: "editable (flist s) row col" by (auto simp: client_event_def split: if_splits)
    from Edit event ed obtain r where "do_request e r s = Some (Inr s')"
      by (auto simp: client_event_def split: option.splits sum.splits)
    with do_request_inv [OF editable_idle [OF assms(1) ed]] event show ?thesis by blast
  next
    case (Reply k c t)
    with event obtain s1 where s1: "take_thread (ReadMark k) s = Some s1"
      by (auto simp: client_event_def split: option.splits)
    show ?thesis
    proof (cases k)
      case None
      with s1 Reply event drained [OF assms(1)] show ?thesis by (auto simp: client_event_def)
    next
      case (Some k')
      with s1 have "due (ReadMark (Some k')) s1" using due_taken [OF assms(1)] by simp
      moreover have "on_mark e k' c t s1 = Inr s'" using Some s1 Reply event by (simp add: client_event_def)
      moreover have "\<not> (k' = K_stor_3 \<and> c \<noteq> 226)" using assms(4) Reply Some by (auto simp: refused_upload_def)
      ultimately show ?thesis by (rule on_mark_inv)
    qed
  next
    case (Connection k c)
    with event obtain s1 where "take_thread (Connecting k) s = Some s1" "s' = on_connected k c s1"
      by (auto simp: client_event_def)
    with due_taken [OF assms(1)] on_connected_inv show ?thesis by simp
  next
    case (All_read k len m)
    with event obtain s1 where s1: "take_thread (Gathering k) s = Some s1" "on_data e k len (Some m) s1 = Inr s'"
      by (auto simp: client_event_def)
    then have "due (Gathering k) s1" using due_taken [OF assms(1)] by simp
    then have "due (Gathering K_list_3) s1" "k = K_list_3" by (auto simp: due_def thread_ok_def)
    with s1 list_3_inv show ?thesis by (simp add: on_data_def)
  next
    case (Moved k len)
    with event obtain s1 where s1: "take_thread (Streaming k) s = Some s1"
      "on_data e k len None (if len = -1 then s1 else s) = Inr s'"
      by (auto simp: client_event_def split: option.splits)
    then have d: "due (Streaming k) s1" using due_taken [OF assms(1)] by simp
    show ?thesis
    proof (cases "len = -1")
      case True
      with s1 on_data_inv [OF d] show ?thesis by simp
    next
      case False
      have "k \<noteq> K_list_3" using d by (auto simp: due_def thread_ok_def)
      with s1 False progress_inv [OF assms(1) False] show ?thesis
        by (cases k) (auto simp: on_data_def)
    qed
  qed
qed

section \<open>One conversation at a time\<close>

lemma dead_not_editable:
  assumes "dead s"
  shows "\<not> editable (flist s) row col"
proof
  assume "editable (flist s) row col"
  then obtain g where "guard_column col = Some g" "modelCellValue (flist s) row g = Inr (CInt True)"
    by (auto simp: editable_def split: option.splits)
  then have "enabled (flist s)"
    by (cases col) (auto simp: modelCellValue_def Let_def split: if_splits)
  with assms show False by (auto simp: dead_def list_ok_def)
qed

lemma dead_event:
  assumes "dead s" and "client_event e ev s = Some (Inr s')"
  shows "dead s'"
proof -
  have none: "take_thread t s = None" if "t \<noteq> ReadMark None" for t
    using assms(1) that by (auto simp: dead_def talking_def filter_empty_conv take_thread_def)
  show ?thesis
  proof (cases ev)
    case (Edit row col v)
    with Edit assms(2) dead_not_editable [OF assms(1)] show ?thesis by (simp add: client_event_def)
  next
    case (Reply k c t)
    show ?thesis
    proof (cases k)
      case None
      with Reply assms(2) have "take_thread (ReadMark None) s = Some s'"
        by (auto simp: client_event_def split: option.splits)
      from take_threadD [OF this] assms(1) talking_remove [of "ReadMark None" s] show ?thesis
        by (auto simp: dead_def list_ok_def)
    next
      case (Some k')
      with Reply assms(2) none [of "ReadMark (Some k')"] show ?thesis by (simp add: client_event_def)
    qed
  next
    case Click_conn
    with assms show ?thesis by (simp add: client_event_def dead_def)
  next
    case Click_mode
    with assms show ?thesis
      by (auto simp: client_event_def dead_def btnModeClick_def talking_def list_ok_def)
  next
    case (Connection k c)
    with assms none [of "Connecting k"] show ?thesis by (simp add: client_event_def)
  next
    case (All_read k len m)
    with assms none [of "Gathering k"] show ?thesis by (simp add: client_event_def)
  next
    case (Moved k len)
    with assms none [of "Streaming k"] show ?thesis by (simp add: client_event_def)
  qed
qed

lemma refused_dies:
  assumes "ui_inv s" and "client_event e ev s = Some (Inr s')" and "refused_upload ev"
  shows "dead s'"
proof -
  obtain c t s1 where ev: "ev = Reply (Some K_stor_3) c t" "c \<noteq> 226"
    and s1: "take_thread (ReadMark (Some K_stor_3)) s = Some s1"
    using assms(2,3) by (auto simp: refused_upload_def client_event_def split: option.splits)
  have "due (ReadMark (Some K_stor_3)) s1" using due_taken [OF assms(1) s1] by simp
  moreover have "s' = stor_3 c t s1" using ev s1 assms(2) by (simp add: client_event_def on_mark_def)
  ultimately show ?thesis using ev(2) by (auto simp: stor_3_def dead_def due_def)
qed

definition live_or_dead :: "app \<Rightarrow> bool" where
  "live_or_dead s \<longleftrightarrow> ui_inv s \<or> dead s"

definition at_start :: "app \<Rightarrow> bool" where
  "at_start s \<longleftrightarrow> (\<exists>l. s = app_start l)"

interpretation ui: transition_invariant client_step at_start live_or_dead
proof unfold_locales
  fix s assume "at_start s"
  then show "live_or_dead s"
    by (auto simp: at_start_def app_start_def live_or_dead_def ui_inv_def idle_def talking_def list_ok_def)
next
  fix s s' assume i: "live_or_dead s" and "client_step s s'"
  from this(2) obtain e ev where ev: "env_ok e" "client_event e ev s = Some (Inr s')"
    by (auto elim: client_step.cases)
  show "live_or_dead s'"
    using i event_inv [OF _ ev] refused_dies [OF _ ev(2)] dead_event [OF _ ev(2)]
    by (auto simp: live_or_dead_def)
qed

text \<open>
  C6. In every reachable state of the client at most one conversation is going on: at most one
  callback with a continuation is due, none while the user interface is free, and what the
  callback will use (the working directory of a listing, the descriptor of a transfer) is there;
  the file list is only enabled while the interface is free, and only has rows while connected.
\<close>

theorem one_conversation:
  assumes "client_step\<^sup>*\<^sup>* (app_start l) s"
  shows "length (talking s) \<le> 1 \<and> (\<not> loading_now s \<longrightarrow> talking s = []) \<and> list_all (thread_ok s) (talking s) \<and>
    (enabled (flist s) \<longrightarrow> \<not> loading_now s) \<and> (has_contents (flist s) \<longrightarrow> connected s)"
proof -
  have "live_or_dead s" by (rule ui.reachable [OF _ assms]) (auto simp: at_start_def)
  then show ?thesis
    by (auto simp: live_or_dead_def ui_inv_def idle_def busy_def dead_def list_ok_def)
qed

text \<open>The faults of edits, replies and threads.\<close>

lemma live_due:
  assumes "live_or_dead s" and "take_thread t s = Some s1" and "t \<noteq> ReadMark None"
  shows "due t s1"
proof -
  have "ui_inv s"
    using assms
    by (auto simp: live_or_dead_def dead_def talking_def filter_empty_conv take_thread_def split: if_splits)
  then show ?thesis by (rule due_taken [OF _ assms(2,3)])
qed

lemma edit_safe:
  assumes "n_files (flist s) < 10 ^ 8 - 1"
  shows "client_event e (Edit row col v) s \<noteq> Some (Inl f)"
proof
  assume ev: "client_event e (Edit row col v) s = Some (Inl f)"
  then have ed: "editable (flist s) row col" by (auto simp: client_event_def split: if_splits)
  then obtain g where g: "row < modelNumRows (flist s)" "guard_column col = Some g"
    "modelCellValue (flist s) row g = Inr (CInt True)"
    by (auto simp: editable_def split: option.splits)
  obtain r where r: "modelSetCellValue (flist s) row col v = Some (Inr r)"
    using edits_valid_lemma [OF g(1) assms g(2,3)] by blast
  have nm: "\<exists>nm. file_list_get_upload_name (flist s) p = Some (Inr nm)" for p
    using upload_name_lemma [OF assms, of p] by blast
  have "file_list_upload e s \<noteq> Some (Inl f)"
    using nm [of "the (env_choose e)"] by (cases "env_choose e") (auto simp: file_list_upload_def)
  then have "do_request e r s \<noteq> Some (Inl f)" by (cases r) (simp_all add: do_request_def)
  with ed r ev show False by (simp add: client_event_def)
qed

lemma mark_fault:
  assumes "on_mark e k c t s = Inl f"
  shows "k = K_list_1" and "c = 257" and "quoted_part t = Inl f"
proof -
  show k: "k = K_list_1" using assms by (cases k) (simp_all add: on_mark_def)
  with assms have m: "list_1 e c t s = Inl f" by (simp add: on_mark_def)
  show c: "c = 257" using m by (cases "c = 257") (simp_all add: list_1_def)
  show "quoted_part t = Inl f" using m c by (auto simp: list_1_def bind_res_eq_Inl split: option.splits)
qed

text \<open>An event is a fault only when it is a reply to PWD or a listing that its parser cannot take.\<close>

lemma event_fault:
  assumes "live_or_dead s" and "n_files (flist s) < 10 ^ 8 - 1"
    and "client_event e ev s = Some (Inl f)"
  shows "(\<exists>t. ev = Reply (Some K_list_1) 257 t \<and> quoted_part t = Inl f) \<or>
    (\<exists>len m d. ev = All_read K_list_3 len m \<and> cwd s = Some d \<and> listing_recs d m = Inl f)"
proof -
  note inv = assms(1)
  show ?thesis
  proof (cases ev)
    case (Edit row col v)
    with edit_safe [OF assms(2)] assms(3) show ?thesis by blast
  next
    case (Reply k c t)
    with assms(3) obtain k' s1 where k: "k = Some k'" "on_mark e k' c t s1 = Inl f"
      by (auto simp: client_event_def split: option.splits)
    with mark_fault [OF k(2)] Reply show ?thesis by blast
  next
    case (All_read k len m)
    with assms(3) obtain s1 where s1: "take_thread (Gathering k) s = Some s1" "on_data e k len (Some m) s1 = Inl f"
      by (auto simp: client_event_def)
    with live_due [OF inv s1(1)] obtain d where "k = K_list_3" "cwd s1 = Some d" by (auto simp: due_def thread_ok_def)
    moreover have "cwd s1 = cwd s" using take_threadD(2) [OF s1(1)] by simp
    ultimately show ?thesis using All_read s1(2) by (auto simp: on_data_def list_3_def Let_def bind_res_eq_Inl)
  next
    case (Moved k len)
    with assms(3) obtain s1 where s1: "take_thread (Streaming k) s = Some s1"
      "on_data e k len None (if len = -1 then s1 else s) = Inl f"
      by (auto simp: client_event_def split: option.splits)
    with live_due [OF inv s1(1)] have "k \<noteq> K_list_3" by (auto simp: due_def thread_ok_def)
    with s1(2) show ?thesis by (cases k) (auto simp: on_data_def)
  qed (use assms(3) in \<open>auto simp: client_event_def split: if_splits\<close>)
qed

section \<open>Runs\<close>

fun run_client :: "env \<Rightarrow> event list \<Rightarrow> app \<Rightarrow> app option" where
  "run_client e [] s = Some s"
| "run_client e (ev # evs) s =
     (case client_event e ev s of Some (Inr s') \<Rightarrow> run_client e evs s' | _ \<Rightarrow> None)"

lemma run_client_steps:
  assumes "env_ok e" and "run_client e evs s = Some s'"
  shows "client_step\<^sup>*\<^sup>* s s'"
  using assms(2)
proof (induction evs arbitrary: s)
  case Nil
  then show ?case by simp
next
  case (Cons ev evs)
  then obtain s1 where "client_event e ev s = Some (Inr s1)" "run_client e evs s1 = Some s'"
    by (auto split: option.splits sum.splits)
  with assms(1) Cons.IH [of s1] show ?case
    by (auto intro: converse_rtranclp_into_rtranclp client_step.event)
qed

definition env0 :: env where
  "env0 = \<lparr>env_listen = None, env_init = None, env_open = Inr 5, env_lseek = 3, env_save = Some ''/tmp/a'',
     env_choose = Some ''/tmp/a'', env_host = ''127.0.0.1'', env_port = 21, env_user = ''u'', env_pass = ''p'',
     env_qsort = insertion_sort\<rparr>"

lemma env0_ok: "env_ok env0"
  by (simp add: env_ok_def env0_def insertion_sort_law)

section \<open>Logging in\<close>

text \<open>The texts written to the control connection, in order.\<close>

fun send_of :: "action \<Rightarrow> string list" where
  "send_of (SendX t) = [t]"
| "send_of _ = []"

definition lines_sent :: "app \<Rightarrow> string list" where
  "lines_sent s = concat (map send_of (acts s))"

lemma lines_sent_sel [simp]:
  "lines_sent (act a s) = lines_sent s @ send_of a"
  "lines_sent (loading s) = lines_sent s" "lines_sent (done_loading s) = lines_sent s"
  "lines_sent (status t s) = lines_sent s" "lines_sent (statusf t s) = lines_sent s"
  "lines_sent (instant_statusf t s) = lines_sent s" "lines_sent (start_thread th s) = lines_sent s"
  "lines_sent (read_mark k s) = lines_sent s" "lines_sent (send_x t s) = lines_sent s @ [t]"
  "lines_sent (ask t j s) = lines_sent s @ [t @ CRLF]"
  by (simp_all add: lines_sent_def op_defs)

lemma lines_sent_same: "acts s' = acts s \<Longrightarrow> lines_sent s' = lines_sent s"
  by (simp add: lines_sent_def)

lemma lines_sent_upd [simp]:
  "lines_sent (s\<lparr>threads := ts\<rparr>) = lines_sent s" "lines_sent (s\<lparr>connected := c\<rparr>) = lines_sent s"
  "lines_sent (s\<lparr>box_conn := b\<rparr>) = lines_sent s" "lines_sent (s\<lparr>cwd := d\<rparr>) = lines_sent s"
  "lines_sent (s\<lparr>flist := l\<rparr>) = lines_sent s"
  "lines_sent (s\<lparr>passive_mode := pm\<rparr>) = lines_sent s"
  "lines_sent (s\<lparr>mode_text := u\<rparr>) = lines_sent s" "lines_sent (s\<lparr>passive_mode := pm, mode_text := u\<rparr>) = lines_sent s"
  "lines_sent (s\<lparr>conn_text := u\<rparr>) = lines_sent s" "lines_sent (s\<lparr>connected := c, conn_text := u\<rparr>) = lines_sent s"
  by (simp_all add: lines_sent_def)

lemma mode_sel [simp]:
  "passive_mode (send_x t s) = passive_mode s" "passive_mode (ask t j s) = passive_mode s"
  "passive_mode (start_thread th s) = passive_mode s" "passive_mode (read_mark k s) = passive_mode s"
  "passive_mode (done_loading s) = passive_mode s"
  by (simp_all add: op_defs)

lemma take_only: "threads s = [t] \<Longrightarrow> take_thread t s = Some (s\<lparr>threads := []\<rparr>)"
  by (simp add: take_thread_def)

lemma reply_event:
  "threads s = [ReadMark (Some k)] \<Longrightarrow>
     client_event e (Reply (Some k) c t) s = Some (on_mark e k c t (s\<lparr>threads := []\<rparr>))"
  by (simp add: client_event_def take_only)

lemma connection_event:
  "threads s = [Connecting k] \<Longrightarrow>
     client_event e (Connection k c) s = Some (Inr (on_connected k c (s\<lparr>threads := []\<rparr>)))"
  by (simp add: client_event_def take_only)

lemma n_files_quiet [simp]: "n_files (file_list_set_enabled b l) = n_files l"
  by (simp add: file_list_set_enabled_def)

definition login_events :: "string \<Rightarrow> string \<Rightarrow> string \<Rightarrow> string \<Rightarrow> string \<Rightarrow> event list" where
  "login_events t1 t2 t3 t4 t5 = [Click_conn, Connection K_connection_setup 0, Reply (Some K_auth_1) 220 t1,
     Reply (Some K_auth_2) 331 t2, Reply (Some K_auth_3) 230 t3, Reply (Some K_sys_1) 200 t4,
     Reply (Some K_sys_2) 215 t5]"

lemma login_run:
  assumes "threads s = []" and "\<not> loading_now s" and "\<not> connected s" and "env_init e = None"
  obtains s' where "run_client e (login_events t1 t2 t3 t4 t5) s = Some s'"
    and "threads s' = [ReadMark (Some K_list_1)]" and "connected s'" and "loading_now s'"
    and "passive_mode s' = passive_mode s" and "n_files (flist s') = n_files (flist s)"
    and "lines_sent s' = lines_sent s @ [''USER '' @ env_user e @ CRLF, ''PASS '' @ env_pass e @ CRLF,
      ''TYPE I'' @ CRLF, ''SYST'' @ CRLF, ''PWD'' @ CRLF]"
proof -
  have "client_event e Click_conn s = Some (Inr (btnConnClick e s))"
    using assms(2) by (simp add: client_event_def)
  then show ?thesis
    using assms that
    by (simp add: login_events_def btnConnClick_def Let_def reply_event connection_event on_connected_def
        connection_setup_def do_auth_def on_mark_def auth_1_def auth_2_def auth_3_def do_sys_setup_def
        sys_1_def sys_2_def do_list_def)
qed

text \<open>A client that has logged in and waits for the reply to PWD.\<close>

definition logged_in_app :: app where
  "logged_in_app = the (run_client env0 (login_events [] [] [] [] []) (app_start list0))"

lemma logged_in_app:
  shows "client_step\<^sup>*\<^sup>* (app_start list0) logged_in_app"
    and "threads logged_in_app = [ReadMark (Some K_list_1)]" and "connected logged_in_app"
    and "loading_now logged_in_app" and "length (files (flist logged_in_app)) = n_files list0"
    and "lines_sent logged_in_app = [''USER u'' @ CRLF, ''PASS p'' @ CRLF, ''TYPE I'' @ CRLF, ''SYST'' @ CRLF, ''PWD'' @ CRLF]"
    and "passive_mode logged_in_app"
proof -
  obtain s where s: "run_client env0 (login_events [] [] [] [] []) (app_start list0) = Some s"
    "threads s = [ReadMark (Some K_list_1)]" "connected s" "loading_now s" "n_files (flist s) = n_files list0"
    "lines_sent s = [''USER u'' @ CRLF, ''PASS p'' @ CRLF, ''TYPE I'' @ CRLF, ''SYST'' @ CRLF, ''PWD'' @ CRLF]"
    "passive_mode s"
    by (rule login_run [of "app_start list0" env0 "[]" "[]" "[]" "[]" "[]"])
       (simp_all add: app_start_def env0_def lines_sent_def file_list_clear_def)
  from s(1) have "client_step\<^sup>*\<^sup>* (app_start list0) s" by (rule run_client_steps [OF env0_ok])
  with s show "client_step\<^sup>*\<^sup>* (app_start list0) logged_in_app"
    "threads logged_in_app = [ReadMark (Some K_list_1)]" "connected logged_in_app" "loading_now logged_in_app"
    "length (files (flist logged_in_app)) = n_files list0"
    "lines_sent logged_in_app = [''USER u'' @ CRLF, ''PASS p'' @ CRLF, ''TYPE I'' @ CRLF, ''SYST'' @ CRLF, ''PWD'' @ CRLF]" "passive_mode logged_in_app"
    by (simp_all add: logged_in_app_def)
qed

theorem one_conversation_witness:
  "talking logged_in_app = [ReadMark (Some K_list_1)] \<and> length (talking logged_in_app) \<le> 1 \<and>
    list_all (thread_ok logged_in_app) (talking logged_in_app)"
  using one_conversation [OF logged_in_app(1)] by (simp add: talking_def logged_in_app(2))

text \<open>Who is talking after the small operations.\<close>

lemma talking_ends [simp]:
  "talking (start_thread t s) = talking s @ (if t = ReadMark None then [] else [t])"
  "talking (read_mark k s) = talking s @ (if k = None then [] else [ReadMark k])"
  "talking (send_x u s) = talking s" "talking (ask u j s) = talking s @ [ReadMark (Some j)]"
  "talking (s\<lparr>data_fd := a, data_inter := b, data_next := c\<rparr>) = talking s"
  "talking (s\<lparr>box_conn := v\<rparr>) = talking s" "talking (s\<lparr>connected := x\<rparr>) = talking s"
  "talking (s\<lparr>flist := l\<rparr>) = talking s" "talking (s\<lparr>cwd := d\<rparr>) = talking s"
  "talking (s\<lparr>connected := x, box_conn := v\<rparr>) = talking s" "talking (s\<lparr>conn_text := u\<rparr>) = talking s"
  "talking (s\<lparr>connected := x, conn_text := u\<rparr>) = talking s"
  "talking (s\<lparr>connected := x, box_conn := v, conn_text := u\<rparr>) = talking s"
  by (simp_all add: talking_def)

end
