(* ===== verification/ClientEnds.thy ===== *)
theory ClientEnds
  imports ClientRun
begin

text \<open>
  How long a conversation of the client can last: each callback that is due has a rank, the greatest
  number of callbacks that can follow, and every callback is followed by one of a smaller rank or by
  none.
\<close>

section \<open>What is left of a conversation\<close>

text \<open>The number of callbacks to come, the one that is due included.\<close>

definition transfer_left :: "app \<Rightarrow> nat" where
  "transfer_left s = (if data_next s = K_stor_2 then 6 else 1)"

definition callbacks_left :: "nat \<Rightarrow> thread \<Rightarrow> nat" where
  "callbacks_left n t =
     (case t of
        ReadMark (Some k) \<Rightarrow>
          (case k of
             K_auth_1 \<Rightarrow> 9 | K_auth_2 \<Rightarrow> 8 | K_auth_3 \<Rightarrow> 7
           | K_sys_1 \<Rightarrow> 6 | K_sys_2 \<Rightarrow> 5
           | K_rename_1 \<Rightarrow> 6 | K_rename_2 \<Rightarrow> 5
           | K_cwd_1 \<Rightarrow> 5 | K_mkd_1 \<Rightarrow> 5 | K_rm_1 \<Rightarrow> 5 | K_stor_3 \<Rightarrow> 5
           | K_list_1 \<Rightarrow> 4
           | K_data_pasv_1 \<Rightarrow> n + 2 | K_data_port_1 \<Rightarrow> n + 2
           | K_disconn_1 \<Rightarrow> 1)
      | Connecting K_connection_setup \<Rightarrow> 10
      | Connecting K_data_2 \<Rightarrow> n + 1
      | Streaming K_stor_2 \<Rightarrow> 6
      | _ \<Rightarrow> 1)"

definition left :: "app \<Rightarrow> nat" where
  "left s = sum_list (map (callbacks_left (transfer_left s)) (talking s))"

lemma left_same:
  assumes "talking s' = talking s" and "data_next s' = data_next s"
  shows "left s' = left s"
  by (simp add: left_def transfer_left_def assms)

lemma left_free: "talking s = [] \<Longrightarrow> left s = 0"
  by (simp add: left_def)

lemma left_one: "talking s = [t] \<Longrightarrow> left s = callbacks_left (transfer_left s) t"
  by (simp add: left_def)

lemma left_do_list: "talking s = [] \<Longrightarrow> left (do_list s) = 4"
  by (simp add: do_list_def left_def callbacks_left_def)

lemma left_do_data:
  assumes "talking s = []"
  shows "left (do_data e fd i k s) \<le> (if k = K_stor_2 then 8 else 3)"
proof (cases "passive_mode s \<or> env_listen e \<noteq> None")
  case True
  with assms show ?thesis
    by (auto simp: do_data_def Let_def left_def callbacks_left_def transfer_left_def split: option.split)
next
  case False
  with assms show ?thesis by (simp add: do_data_def Let_def left_def)
qed

lemma left_data_2:
  assumes "talking s = []"
  shows "left (data_2 c s) \<le> transfer_left s"
  using assms by (cases "data_next s") (auto simp: data_2_def Let_def left_def callbacks_left_def transfer_left_def)

lemma talking_call_inter: "talking (call_inter s) = talking s" "data_next (call_inter s) = data_next s"
  by (auto simp: call_inter_def talking_def split: option.split)

lemma left_start_data:
  assumes "talking s = []"
  shows "left (start_data e a s) \<le> transfer_left s + 1"
proof (cases "env_init e")
  case None
  with assms show ?thesis by (simp add: start_data_def left_def callbacks_left_def transfer_left_def)
next
  case (Some err)
  with left_data_2 [of "act a s" err] assms show ?thesis by (simp add: start_data_def transfer_left_def)
qed


lemma left_on_mark:
  assumes "talking s = []" and "on_mark e k c t s = Inr s'"
  shows "left s' < callbacks_left (transfer_left s) (ReadMark (Some k))"
proof -
  have over: "left (status u (done_loading s)) = 0" for u using assms(1) by (simp add: left_def)
  have ask: "left (ask u j s) = callbacks_left (transfer_left s) (ReadMark (Some j))"
    "left (ask u j (status v s)) = callbacks_left (transfer_left s) (ReadMark (Some j))" for u v j
    using assms(1) by (simp_all add: left_def transfer_left_def)
  have list: "left (do_list (statusf u s)) = 4" "left (do_list (statusf u (done_loading s))) = 4"
    "left (do_list (status u (done_loading s))) = 4" "left (do_list s) = 4" for u
    using assms(1) by (simp_all add: left_do_list)
  show ?thesis
  proof (cases k)
    case K_data_pasv_1
    have "left (call_inter (start_data e a (statusf x s))) \<le> transfer_left s + 1" for a x
      using left_start_data [of "statusf x s" e a] left_same [of "call_inter (start_data e a (statusf x s))"] assms(1)
      by (simp add: talking_call_inter transfer_left_def)
    with K_data_pasv_1 assms(2) over show ?thesis
      by (auto simp: on_mark_def data_pasv_1_def Let_def callbacks_left_def less_Suc_eq_le split: option.splits)
  next
    case K_data_port_1
    have "left (start_data e a (statusf x (call_inter s))) \<le> transfer_left s + 1" for a x
      using left_start_data [of "statusf x (call_inter s)" e a] assms(1)
      by (simp add: talking_call_inter transfer_left_def)
    with K_data_port_1 assms(2) over show ?thesis
      by (auto simp: on_mark_def data_port_1_def callbacks_left_def less_Suc_eq_le split: if_splits)
  next
    case K_list_1
    have "left (do_data e 0 I_list_2 K_list_3 (status x (s\<lparr>cwd := d\<rparr>))) < 4" for x d
      using left_do_data [of "status x (s\<lparr>cwd := d\<rparr>)" e 0 I_list_2 K_list_3] assms(1) by simp
    moreover have "left (status x (done_loading (s\<lparr>cwd := d\<rparr>))) = 0" for x d
      using assms(1) by (simp add: left_def)
    ultimately show ?thesis
      using K_list_1 assms(2) over
      by (auto simp: on_mark_def list_1_def bind_res_eq_Inr callbacks_left_def split: if_splits option.splits)
  next
    case K_stor_3
    with assms list show ?thesis
      by (auto simp: on_mark_def stor_3_def callbacks_left_def left_def split: if_splits)
  next
    case K_auth_1
    with assms ask(2) show ?thesis
      by (auto simp: on_mark_def auth_1_def enable_conn_def callbacks_left_def left_def split: if_splits)
  next
    case K_auth_2
    with assms ask(1) show ?thesis
      by (auto simp: on_mark_def auth_2_def enable_conn_def callbacks_left_def left_def split: if_splits)
  next
    case K_auth_3
    with assms show ?thesis
      by (auto simp: on_mark_def auth_3_def Let_def do_sys_setup_def enable_conn_def callbacks_left_def left_def
          split: if_splits)
  next
    case K_disconn_1
    with assms show ?thesis
      by (auto simp: on_mark_def disconn_1_def Let_def callbacks_left_def left_def)
  qed (use assms over ask list in \<open>auto simp: on_mark_def sys_1_def sys_2_def cwd_1_def rename_1_def rename_2_def
    mkd_1_def rm_1_def Let_def callbacks_left_def left_free split: if_splits\<close>)
qed

text \<open>The callbacks that continue a conversation, and the events with which the user starts one.\<close>

fun continues :: "event \<Rightarrow> bool" where
  "continues (Reply k c t) \<longleftrightarrow> k \<noteq> None"
| "continues (Connection k c) \<longleftrightarrow> True"
| "continues (All_read k len m) \<longleftrightarrow> True"
| "continues (Moved k len) \<longleftrightarrow> len = -1"
| "continues _ \<longleftrightarrow> False"

fun user_starts :: "event \<Rightarrow> bool" where
  "user_starts Click_conn \<longleftrightarrow> True"
| "user_starts (Edit row col v) \<longleftrightarrow> True"
| "user_starts _ \<longleftrightarrow> False"

lemma taken_left:
  assumes "ui_inv s" and "take_thread t s = Some s1" and "t \<noteq> ReadMark None"
  shows "talking s1 = []" and "left s = callbacks_left (transfer_left s1) t"
proof -
  note t = take_threadD [OF assms(2)]
  have "t \<in> set (talking s)" using t(1) assms(3) by (simp add: talking_def)
  with assms(1) have b: "talking s = [t]" by (auto simp: ui_inv_def idle_def busy_def)
  then show "talking s1 = []" using t(2) talking_remove [of t s] by simp
  have "data_next s1 = data_next s" using t(2) by simp
  then show "left s = callbacks_left (transfer_left s1) t" using b by (simp add: left_def transfer_left_def)
qed

lemma continues_less:
  assumes "ui_inv s" and "client_event e ev s = Some (Inr s')" and "continues ev"
  shows "left s' < left s"
proof (cases ev)
  case (Reply k c t)
  with assms(3) obtain k' where k: "k = Some k'" by auto
  with Reply assms(2) obtain s1 where s1: "take_thread (ReadMark (Some k')) s = Some s1" "on_mark e k' c t s1 = Inr s'"
    by (auto simp: client_event_def split: option.splits)
  with taken_left [OF assms(1) s1(1)] left_on_mark show ?thesis by simp
next
  case (Connection k c)
  with assms(2) obtain s1 where s1: "take_thread (Connecting k) s = Some s1" "s' = on_connected k c s1"
    by (auto simp: client_event_def)
  note t = taken_left [OF assms(1) s1(1)]
  show ?thesis
  proof (cases k)
    case K_connection_setup
    with s1(2) t show ?thesis
      by (simp add: on_connected_def connection_setup_def do_auth_def enable_conn_def left_def callbacks_left_def)
  next
    case K_data_2
    with s1(2) t left_data_2 [of s1 c] show ?thesis
      by (simp add: on_connected_def callbacks_left_def less_Suc_eq_le)
  qed
next
  case (All_read k len m)
  with assms(2) obtain s1 where s1: "take_thread (Gathering k) s = Some s1" "on_data e k len (Some m) s1 = Inr s'"
    by (auto simp: client_event_def)
  note t = taken_left [OF assms(1) s1(1)]
  have "due (Gathering k) s1" using due_taken [OF assms(1) s1(1)] by simp
  then have "k = K_list_3" by (simp add: due_def thread_ok_def)
  with s1(2) t have "left s' = 0"
    by (auto simp: on_data_def list_3_def Let_def bind_res_eq_Inr left_free split: option.splits)
  with t(2) show ?thesis by (simp add: callbacks_left_def)
next
  case (Moved k len)
  with assms(2,3) obtain s1 where s1: "take_thread (Streaming k) s = Some s1" "on_data e k (-1) None s1 = Inr s'"
    by (auto simp: client_event_def split: option.splits)
  note t = taken_left [OF assms(1) s1(1)]
  have "due (Streaming k) s1" using due_taken [OF assms(1) s1(1)] by simp
  then have "k \<noteq> K_list_3" by (auto simp: due_def thread_ok_def)
  with s1(2) t show ?thesis
    by (cases k) (auto simp: on_data_def retr_2_def stor_2_def left_def callbacks_left_def)
qed (use assms(3) in simp_all)

lemma others_same:
  assumes "client_event e ev s = Some (Inr s')" and "\<not> continues ev" and "\<not> user_starts ev"
  shows "left s' = left s"
proof (cases ev)
  case Click_mode
  with assms(1) show ?thesis
    using left_same [of "btnModeClick s" s] by (auto simp: client_event_def btnModeClick_def talking_def)
next
  case (Reply k c t)
  with assms(1,2) have "take_thread (ReadMark None) s = Some s'"
    by (auto simp: client_event_def split: option.splits)
  from take_threadD [OF this] show ?thesis
    using talking_remove [of "ReadMark None" s] by (intro left_same) (simp_all add: talking_def remove1_idem)
next
  case (Moved k len)
  with assms(1,2) obtain s1 where s1: "on_data e k len None s = Inr s'" "take_thread (Streaming k) s = Some s1"
    by (auto simp: client_event_def split: option.splits)
  have "k \<noteq> K_list_3" using s1(1) by (auto simp: on_data_def list_3_def Let_def split: option.splits)
  with s1(1) Moved assms(2) show ?thesis
    using left_same [of "retr_2 len s" s] left_same [of "stor_2 len s" s]
    by (cases k) (auto simp: on_data_def retr_2_def stor_2_def)
qed (use assms in simp_all)


section \<open>Every conversation ends\<close>

lemma left_bound:
  assumes "live_or_dead s"
  shows "left s \<le> 10" and "left s = 0 \<Longrightarrow> \<not> loading_now s \<or> dead s"
proof -
  have pos: "callbacks_left n t \<noteq> 0" for n t
    by (auto simp: callbacks_left_def split: thread.split option.split mark_cb.split conn_cb.split data_cb.split)
  have le: "callbacks_left (transfer_left s) t \<le> 10" for t
    by (auto simp: callbacks_left_def transfer_left_def
        split: thread.split option.split mark_cb.split conn_cb.split data_cb.split)
  show "left s \<le> 10" using assms le
    by (auto simp: live_or_dead_def ui_inv_def idle_def busy_def dead_def left_def)
  show "left s = 0 \<Longrightarrow> \<not> loading_now s \<or> dead s"
    using assms pos by (auto simp: live_or_dead_def ui_inv_def idle_def busy_def left_def)
qed

lemma dead_silent:
  assumes "dead s" and "client_event e ev s = Some (Inr s')"
  shows "\<not> continues ev"
proof
  assume c: "continues ev"
  have none: "take_thread t s = None" if "t \<noteq> ReadMark None" for t
    using assms(1) that by (auto simp: dead_def talking_def filter_empty_conv take_thread_def)
  from c assms(2) show False by (cases ev) (auto simp: client_event_def none)
qed

lemma run_left:
  assumes "env_ok e"
  shows "live_or_dead s \<Longrightarrow> run_client e evs s = Some s' \<Longrightarrow> list_all (\<lambda>ev. \<not> user_starts ev) evs \<Longrightarrow>
    length (filter continues evs) + left s' \<le> left s \<and> live_or_dead s'"
proof (induction evs arbitrary: s)
  case (Cons ev evs)
  from Cons.prems(2) obtain s1 where s1: "client_event e ev s = Some (Inr s1)" "run_client e evs s1 = Some s'"
    by (auto split: option.splits sum.splits)
  have "client_step s s1" using assms s1(1) by (rule client_step.event)
  then have live: "live_or_dead s1" using Cons.prems(1) ui.step_inv by blast
  have "(if continues ev then 1 else 0) + left s1 \<le> left s"
    using continues_less [OF _ s1(1)] others_same [OF s1(1)] dead_silent [OF _ s1(1)] Cons.prems(1,3)
    by (auto simp: live_or_dead_def)
  with Cons.IH [OF live s1(2)] Cons.prems(3) show ?case by auto
qed simp

text \<open>
  C7. Every conversation of the client ends: however the callbacks come and whatever they carry, after
  at most ten of them (and any number of reports of progress and of replies that nobody waits for) no
  callback is due any more, and the user interface is free (or dead, by a refused upload).
\<close>

theorem conversation_ends:
  assumes "client_step\<^sup>*\<^sup>* (app_start l) s" and "env_ok e" and "run_client e evs s = Some s'"
    and "list_all (\<lambda>ev. \<not> user_starts ev) evs"
  shows "length (filter continues evs) + left s' \<le> left s \<and> left s \<le> 10 \<and>
    (left s' = 0 \<longrightarrow> \<not> loading_now s' \<or> dead s')"
proof -
  have "live_or_dead s" by (rule ui.reachable [OF _ assms(1)]) (auto simp: at_start_def)
  with run_left [OF assms(2) _ assms(3,4)] left_bound show ?thesis by blast
qed

theorem conversation_ends_witness:
  "\<exists>s'. run_client env0 [Click_mode, Reply (Some K_list_1) 550 []] logged_in_app = Some s' \<and>
    length (filter continues [Click_mode, Reply (Some K_list_1) 550 []]) + left s' \<le> left logged_in_app \<and>
    left logged_in_app = 4 \<and> left s' = 0 \<and> \<not> loading_now s'"
proof -
  obtain s' where s': "run_client env0 [Click_mode, Reply (Some K_list_1) 550 []] logged_in_app = Some s'"
    "left s' = 0" "\<not> loading_now s'"
    by (simp add: client_event_def btnModeClick_def take_thread_def logged_in_app(2) on_mark_def list_1_def left_def
        talking_def)
  have "left logged_in_app = 4" by (simp add: left_def talking_def logged_in_app(2) callbacks_left_def)
  with s' conversation_ends [OF logged_in_app(1) env0_ok s'(1)] show ?thesis by auto
qed

end
