(* ===== verification/ClientThreads.thy ===== *)
theory ClientThreads
  imports ClientRun
begin

text \<open>
  What the client does when a thread cannot be created: \<^verbatim>\<open>pthread_create\<close> fails in one of the
  operations of \<^verbatim>\<open>client/xfer.c\<close>, which then call \<open>next\<close> at once with \<open>XFER_ERR_THREAD\<close>. The log
  of an event names every thread it starts, so that one event has as many ways to fail as it
  has starts. Connections are in \<^verbatim>\<open>ClientMain\<close> already: their failure is an answer of \<open>env\<close>.
  At the end of the theory a reply or a listing comes with the thread of \<^verbatim>\<open>xfer.c\<close> that reads it.
\<close>

section \<open>A start that fails\<close>

text \<open>Every \<open>xfer_write\<close> and every other operation on a connection starts a thread.\<close>

fun is_start :: "action \<Rightarrow> bool" where
  "is_start (SendX t) = True"
| "is_start (Thread t) = True"
| "is_start _ = False"

definition starts :: "app \<Rightarrow> app \<Rightarrow> action list" where
  "starts s s' = filter is_start (drop (length (acts s)) (acts s'))"

text \<open>
  \<open>next\<close> with an error code and no text or data. \<open>data_3\<close> hands the code to \<open>data_next\<close> as a length.
  The text, a null pointer, is not looked at by any of the callbacks.
\<close>

definition call_next :: "env \<Rightarrow> thread \<Rightarrow> int \<Rightarrow> app \<Rightarrow> mem_fault + app" where
  "call_next e t code s =
     (case t of
        ReadMark None \<Rightarrow> Inl NULL_POINTER
      | ReadMark (Some k) \<Rightarrow> on_mark e k code [] s
      | Connecting k \<Rightarrow> Inr (on_connected k code s)
      | Gathering k \<Rightarrow> on_data e k (word_of_int code) None s
      | Streaming k \<Rightarrow> on_data e k (word_of_int code) None s)"

definition start_error :: "env \<Rightarrow> thread \<Rightarrow> app \<Rightarrow> mem_fault + app" where
  "start_error e t s =
     (case launch False (t \<noteq> ReadMark None) () of
        NullCall \<Rightarrow> Inl NULL_POINTER
      | NextNow code \<Rightarrow> call_next e t code s
      | Running _ \<Rightarrow> Inr s)"

text \<open>The state just before the last start of an event.\<close>

definition unstarted :: "app \<Rightarrow> app" where
  "unstarted s = s\<lparr>threads := butlast (threads s), acts := butlast (acts s)\<rparr>"

text \<open>\<open>stor_2\<close> at the end of an upload, when no thread can be created to read the confirmation.\<close>

definition stor_2_unread :: "app \<Rightarrow> app" where
  "stor_2_unread s =
     status ''Successfully uploaded, awaiting confirmation''
       (act (CloseFile (stor_in_fd s)) (stor_3 XFER_ERR_THREAD [] (act CloseY s)))"

text \<open>
  An event in which the start number \<open>i\<close> fails. A write has no \<open>next\<close>. Everything else
  but the reader of a confirmation is started at the end of its handler (see below).
\<close>

definition failing_event :: "env \<Rightarrow> event \<Rightarrow> nat \<Rightarrow> app \<Rightarrow> (mem_fault + app) option" where
  "failing_event e ev i s =
     (case client_event e ev s of
        Some (Inr s') \<Rightarrow>
          if length (starts s s') \<le> i then None
          else
            (case starts s s' ! i of
               Thread (Connecting k) \<Rightarrow> client_event (e\<lparr>env_init := Some XFER_ERR_THREAD\<rparr>) ev s
             | Thread (ReadMark (Some K_stor_3)) \<Rightarrow>
                 map_option (\<lambda>s1. Inr (stor_2_unread s1)) (take_thread (Streaming K_stor_2) s)
             | Thread (ReadMark None) \<Rightarrow> Some (Inl NULL_POINTER)
             | Thread t \<Rightarrow> Some (start_error e t (unstarted s'))
             | _ \<Rightarrow> Some (Inl NULL_POINTER))
      | _ \<Rightarrow> None)"

inductive faulty_step :: "app \<Rightarrow> app \<Rightarrow> bool" where
  event: "env_ok e \<Longrightarrow> client_event e ev s = Some (Inr s') \<Longrightarrow> faulty_step s s'"
| fails: "env_ok e \<Longrightarrow> failing_event e ev i s = Some (Inr s') \<Longrightarrow> faulty_step s s'"

section \<open>What an event starts\<close>

lemma acts_sel [simp]:
  "acts (act a s) = acts s @ [a]" "acts (loading s) = acts s" "acts (done_loading s) = acts s"
  "acts (status t s) = acts s @ [Status t]" "acts (statusf t s) = acts s @ [Status (snprintf 128 t)]"
  "acts (instant_statusf t s) = acts s @ [Instant (snprintf 128 t)]" "acts (send_x t s) = acts s @ [SendX t]"
  "acts (start_thread th s) = acts s @ [Thread th]" "acts (read_mark k s) = acts s @ [Thread (ReadMark k)]"
  "acts (ask t j s) = acts s @ [SendX (t @ CRLF), Thread (ReadMark (Some j))]"
  by (simp_all add: op_defs)

fun thread_of :: "action \<Rightarrow> thread list" where
  "thread_of (Thread t) = [t]"
| "thread_of _ = []"

text \<open>The threads whose failure leaves nothing of their handler to be done.\<close>

fun at_end :: "thread \<Rightarrow> bool" where
  "at_end (ReadMark k) = (k \<noteq> Some K_stor_3)"
| "at_end (Connecting k) = False"
| "at_end _ = True"

text \<open>
  The log and the threads have grown, and all that was started is a reader without a callback, or
  the last thing done.
\<close>

definition tail_start :: "action list \<Rightarrow> bool" where
  "tail_start xs \<longleftrightarrow>
     list_all (\<lambda>a. list_all (\<lambda>t. t = ReadMark None \<or> last xs = a \<and> at_end t) (thread_of a)) xs"

definition ends :: "app \<Rightarrow> app \<Rightarrow> bool" where
  "ends s s' \<longleftrightarrow>
     (let n = length (acts s); xs = drop n (acts s')
      in take n (acts s') = acts s \<and> threads s' = threads s @ concat (map thread_of xs) \<and> tail_start xs)"

lemmas ends_simps = ends_def Let_def tail_start_def

lemma ends_small:
  "k \<noteq> K_stor_3 \<Longrightarrow> ends s (ask u k s)" "k \<noteq> K_stor_3 \<Longrightarrow> ends s (ask u k (status v s))"
  "ends s (status u s)" "ends s (statusf u s)" "ends s (status u (done_loading s))"
  "ends s (statusf u (done_loading s))" "ends s (status u (done_loading (s\<lparr>cwd := d\<rparr>)))"
  by (simp_all add: ends_simps)

lemma ends_do_list: "ends s (do_list s)"
  "ends s (do_list (status u s))" "ends s (do_list (statusf u s))"
  "ends s (do_list (status u (done_loading s)))" "ends s (do_list (statusf u (done_loading s)))"
  by (simp_all add: do_list_def ends_simps)

lemma ends_do_data:
  "ends s (do_data e fd i k s)" "ends s (do_data e fd i k (status u (s\<lparr>cwd := d\<rparr>)))"
  by (simp_all add: do_data_def ends_simps split: option.split)

lemma ends_on_mark:
  assumes "on_mark e k c t s = Inr s'" and "k \<noteq> K_data_pasv_1" and "k \<noteq> K_data_port_1"
  shows "ends s s'"
proof (cases k)
  case K_list_1
  with assms(1) ends_do_data(2) ends_small show ?thesis
    by (auto simp: on_mark_def list_1_def bind_res_eq_Inr split: if_splits option.splits)
next
  case K_stor_3
  with assms(1) ends_do_list ends_small show ?thesis by (auto simp: on_mark_def stor_3_def split: if_splits)
qed (use assms ends_do_list ends_small in \<open>auto simp: on_mark_def sys_1_def sys_2_def cwd_1_def rename_1_def
  rename_2_def mkd_1_def rm_1_def auth_1_def auth_2_def auth_3_def disconn_1_def do_sys_setup_def enable_conn_def
  Let_def ends_simps split: if_splits\<close>)


lemma ends_on_connected: "ends s (on_connected k c s)"
  by (cases k) (auto simp: on_connected_def connection_setup_def do_auth_def enable_conn_def data_2_def ends_simps)

lemma ends_names:
  "ends s (do_data e fd i k (statusf u (loading s)\<lparr>retr_name := n, retr_size := z, retr_size_str := zs, retr_out_fd := f\<rparr>))"
  "ends s (do_data e fd i k (statusf u (loading s)\<lparr>stor_name := n, stor_size := z, stor_size_str := zs, stor_in_fd := f\<rparr>))"
  by (simp_all add: do_data_def ends_simps split: option.split)

lemma ends_refl: "ends s s"
  by (simp add: ends_simps)

lemma ends_do_request:
  assumes "do_request e r s = Some (Inr s')"
  shows "ends s s'"
proof -
  have "ends s (do_cwd nm s)" "ends s (do_rename a b s)" "ends s (do_mkd nm s)" "ends s (do_rm d nm s)" for nm a b d
    by (simp_all add: do_cwd_def do_rename_def do_mkd_def do_rm_def ends_simps)
  moreover have "ends s (do_retr e nm sz s)" "ends s (do_stor e nm s)" for nm sz
    using ends_names [of s]
    by (auto simp: do_retr_def do_stor_def Let_def split: sum.split) (simp_all add: ends_simps)
  ultimately show ?thesis
    using assms ends_refl
    by (cases r) (auto simp: do_request_def file_list_download_def file_list_upload_def bind_res_eq_Inr
      split: if_splits option.splits)
qed

text \<open>The starts of the events whose handlers go on after a start.\<close>

lemma starts_acts: "acts s' = acts s @ xs \<Longrightarrow> starts s s' = filter is_start xs"
  by (simp add: starts_def)

definition only :: "thread set \<Rightarrow> action list \<Rightarrow> bool" where
  "only T xs \<longleftrightarrow> list_all (\<lambda>a. set (thread_of a) \<subseteq> T) xs"

lemma starts_click:
  assumes "env_ok e" and "\<not> connected s"
  shows "only {Connecting K_connection_setup} (starts s (btnConnClick e s))"
  using assms
  by (auto simp: env_ok_def btnConnClick_def connection_setup_def enable_conn_def Let_def starts_def only_def
    split: option.split)

lemma starts_data:
  assumes "env_ok e" and "acts s1 = acts s"
  shows "only {ReadMark None, Connecting K_data_2} (starts s (data_pasv_1 e c t s1))" and "only {ReadMark None, Connecting K_data_2} (starts s (data_port_1 e c t s1))"
  using assms
  by (auto simp: env_ok_def data_pasv_1_def data_port_1_def start_data_def data_2_def call_inter_def
    run_inter_def Let_def starts_def only_def split: option.splits inter.splits)


text \<open>How an event starts its threads.\<close>

lemma event_starts:
  assumes "env_ok e" and "client_event e ev s = Some (Inr s')" and "ui_inv s"
  obtains (tail) s1 where "acts s1 = acts s" and "ends s1 s'"
  | (click) "ev = Click_conn" and "\<not> connected s" and "only {Connecting K_connection_setup} (starts s s')"
  | (data) c t where "ev = Reply (Some K_data_pasv_1) c t \<or> ev = Reply (Some K_data_port_1) c t" and "only {ReadMark None, Connecting K_data_2} (starts s s')"
  | (listed) "only {ReadMark None} (starts s s')"
  | (confirm) "ev = Moved K_stor_2 (-1)" and "starts s s' = [Thread (ReadMark (Some K_stor_3))]"
proof (cases ev)
  case Click_conn
  with assms(2) have s': "s' = btnConnClick e s" by (simp add: client_event_def split: if_splits)
  show ?thesis
  proof (cases "connected s")
    case True
    with s' have "ends s s'" by (simp add: btnConnClick_def ends_simps)
    with tail [of s] show ?thesis by simp
  next
    case False
    with click Click_conn s' starts_click [OF assms(1)] show ?thesis by simp
  qed
next
  case Click_mode
  with assms(2) have "ends s s'" by (auto simp: client_event_def btnModeClick_def ends_simps)
  with tail [of s] show ?thesis by simp
next
  case (Edit row col v)
  with assms(2) obtain r where "do_request e r s = Some (Inr s')"
    by (auto simp: client_event_def split: if_splits option.splits sum.splits)
  with tail [of s] ends_do_request show ?thesis by blast
next
  case (Reply k c t)
  with assms(2) obtain s1 where s1: "take_thread (ReadMark k) s = Some s1"
    by (auto simp: client_event_def split: option.splits)
  note a = take_threadD(2) [OF s1]
  show ?thesis
  proof (cases k)
    case None
    with Reply s1 assms(2) have "s' = s1" by (simp add: client_event_def)
    with a ends_refl show ?thesis by (intro tail [of s']) simp_all
  next
    case (Some k')
    with Reply s1 assms(2) have m: "on_mark e k' c t s1 = Inr s'" by (simp add: client_event_def)
    show ?thesis
    proof (cases "k' \<in> {K_data_pasv_1, K_data_port_1}")
      case True
      with m starts_data [OF assms(1), of s1 s c t] a have "only {ReadMark None, Connecting K_data_2} (starts s s')" by (auto simp: on_mark_def)
      with data True Some Reply show ?thesis by auto
    next
      case False
      with ends_on_mark [OF m] tail [of s1] a show ?thesis by simp
    qed
  qed
next
  case (Connection k c)
  with assms(2) obtain s1 where s1: "take_thread (Connecting k) s = Some s1" "s' = on_connected k c s1"
    by (auto simp: client_event_def)
  with ends_on_connected [of s1 k c] take_threadD(2) [OF s1(1)] tail [of s1] show ?thesis by simp
next
  case (All_read k len m)
  with assms(2) obtain s1 where s1: "take_thread (Gathering k) s = Some s1" "on_data e k len (Some m) s1 = Inr s'"
    by (auto simp: client_event_def)
  have "due (Gathering k) s1" using due_taken [OF assms(3) s1(1)] by simp
  then have "k = K_list_3" by (simp add: due_def thread_ok_def)
  with s1 take_threadD(2) [OF s1(1)] have "only {ReadMark None} (starts s s')"
    by (auto simp: on_data_def list_3_def Let_def bind_res_eq_Inr starts_def only_def split: option.splits)
  with listed show ?thesis by simp
next
  case (Moved k len)
  with assms(2) obtain s1 where s1: "take_thread (Streaming k) s = Some s1"
    "on_data e k len None (if len = -1 then s1 else s) = Inr s'"
    by (auto simp: client_event_def split: option.splits)
  note a = take_threadD(2) [OF s1(1)]
  have "due (Streaming k) s1" using due_taken [OF assms(3) s1(1)] by simp
  then have k: "k \<noteq> K_list_3" by (simp add: due_def thread_ok_def)
  show ?thesis
  proof (cases "k = K_stor_2 \<and> len = -1")
    case True
    with s1(2) a have "starts s s' = [Thread (ReadMark (Some K_stor_3))]"
      by (auto simp: on_data_def stor_2_def starts_def)
    with confirm True Moved show ?thesis by simp
  next
    case False
    with s1(2) a k have "only {ReadMark None} (starts s s')"
      by (cases k) (auto simp: on_data_def stor_2_def retr_2_def Let_def starts_def only_def split: if_splits)
    with listed show ?thesis by simp
  qed
qed


section \<open>What a failure leaves behind\<close>

text \<open>An error code ends every conversation; no callback looks at the text.\<close>

lemma mark_error:
  assumes "due (ReadMark (Some k)) s" and "k \<noteq> K_stor_3"
  obtains q where "on_mark e k XFER_ERR_THREAD t s = Inr q" and "idle q"
proof -
  note d = due_mark [OF assms(1)]
  have "\<exists>q. on_mark e k XFER_ERR_THREAD t s = Inr q \<and> idle q"
    using d assms(2)
    by (cases k) (simp_all add: on_mark_def data_pasv_1_def data_port_1_def list_1_def sys_1_def sys_2_def cwd_1_def
      rename_1_def rename_2_def mkd_1_def rm_1_def auth_1_def auth_2_def auth_3_def disconn_1_def enable_conn_def
      Let_def XFER_ERR_THREAD_def idle_def list_ok_def)
  with that show ?thesis by blast
qed

lemma moved_error:
  assumes "due (Streaming k) s"
  obtains q z where "on_data e k (word_of_int XFER_ERR_THREAD) None s = Inr q" and "dead q"
    and "last (acts q) = Progress (word_of_int XFER_ERR_THREAD) z"
proof -
  have "k \<noteq> K_list_3" "loading_now s" "talking s = []" "list_ok s" using assms by (auto simp: due_def thread_ok_def)
  then have "\<exists>q z. on_data e k (word_of_int XFER_ERR_THREAD) None s = Inr q \<and> dead q \<and>
      last (acts q) = Progress (word_of_int XFER_ERR_THREAD) z"
    by (cases k) (simp_all add: on_data_def retr_2_def stor_2_def XFER_ERR_THREAD_def dead_def list_ok_def)
  with that show ?thesis by blast
qed

lemma unread_dead:
  assumes "due (Streaming K_stor_2) s"
  shows "dead (stor_2_unread s)"
  using assms by (auto simp: stor_2_unread_def stor_3_def XFER_ERR_THREAD_def due_def dead_def list_ok_def)

lemma connecting_error:
  assumes "due t s" and "data_thread t" and "env_init e = Some XFER_ERR_THREAD"
  shows "idle (data_pasv_1 e c u s)" and "idle (data_port_1 e c u s)"
proof -
  have s: "talking s = []" "has_contents (flist s) \<longrightarrow> connected s"
    using assms(1) by (auto simp: due_def list_ok_def)
  have i: "idle (call_inter x) = idle x" for x
    by (auto simp: call_inter_def idle_def talking_def list_ok_def split: option.split)
  have d: "idle (start_data e a (statusf v x))" if "talking x = []" "has_contents (flist x) \<longrightarrow> connected x" for a v x
    using that assms(3) by (simp add: start_data_def data_2_def XFER_ERR_THREAD_def idle_def list_ok_def)
  have o: "idle (status v (done_loading s))" for v using s by (simp add: idle_def list_ok_def)
  show "idle (data_pasv_1 e c u s)"
    using d [OF s] o by (auto simp: data_pasv_1_def Let_def i split: option.split)
  have "talking (call_inter s) = []" "has_contents (flist (call_inter s)) \<longrightarrow> connected (call_inter s)"
    using s by (auto simp: call_inter_def talking_def split: option.split)
  from d [OF this] o show "idle (data_port_1 e c u s)" by (simp add: data_port_1_def)
qed

lemma click_error:
  assumes "idle s" and "\<not> connected s" and "env_init e = Some XFER_ERR_THREAD"
  shows "idle (btnConnClick e s)"
  using assms by (simp add: btnConnClick_def Let_def connection_setup_def enable_conn_def XFER_ERR_THREAD_def idle_def list_ok_def)

text \<open>The state before a start at the end of a handler.\<close>

lemma ends_last:
  assumes "ends s s'" and "acts s = acts s0" and "Thread t \<in> set (starts s0 s')" and "t \<noteq> ReadMark None"
  shows "at_end t" and "last (acts s') = Thread t" and "threads s' = threads (unstarted s') @ [t]"
proof -
  define xs where "xs = drop (length (acts s)) (acts s')"
  have x: "acts s' = acts s @ xs" "threads s' = threads s @ concat (map thread_of xs)" "tail_start xs"
    using assms(1) append_take_drop_id [of "length (acts s)" "acts s'"] by (simp_all add: ends_def Let_def xs_def)
  have "Thread t \<in> set xs" using assms(3) x(1) by (simp add: starts_def assms(2))
  with x(3) assms(4) have l: "at_end t" "last xs = Thread t" "xs \<noteq> []" by (auto simp: tail_start_def list_all_iff)
  then have xs: "xs = butlast xs @ [Thread t]" using append_butlast_last_id [of xs] by simp
  then show "at_end t" "last (acts s') = Thread t" using l x(1) by simp_all
  have "concat (map thread_of xs) = concat (map thread_of (butlast xs)) @ [t]" by (subst xs) simp
  with x(2) show "threads s' = threads (unstarted s') @ [t]" by (simp add: unstarted_def butlast_append)
qed

lemma unstarted_due:
  assumes "ui_inv s'" and "threads s' = threads (unstarted s') @ [t]" and "t \<noteq> ReadMark None"
  shows "due t (unstarted s')"
proof -
  have "talking s' = talking (unstarted s') @ [t]" using assms(2,3) by (simp add: talking_def)
  with assms(1) have b: "busy s'" "talking (unstarted s') = []" "thread_ok s' t"
    by (auto simp: ui_inv_def idle_def busy_def)
  then show ?thesis by (auto simp: due_def busy_def thread_ok_def list_ok_def unstarted_def)
qed


text \<open>What becomes of the client when one of the starts of an event fails.\<close>

definition fate :: "action \<Rightarrow> mem_fault + app \<Rightarrow> bool" where
  "fate a r =
     (case a of
        Thread (Connecting k) \<Rightarrow> (\<exists>q. r = Inr q \<and> idle q)
      | Thread (ReadMark (Some k)) \<Rightarrow> (\<exists>q. r = Inr q \<and> (if k = K_stor_3 then dead q else idle q))
      | Thread (Streaming k) \<Rightarrow>
          (\<exists>q z. r = Inr q \<and> dead q \<and> last (acts q) = Progress (word_of_int XFER_ERR_THREAD) z)
      | _ \<Rightarrow> r = Inl NULL_POINTER)"

lemma fate_at_end:
  assumes "due t s" and "at_end t"
  shows "fate (Thread t) (start_error e t s)"
proof -
  have g: "start_error e t s = (if t = ReadMark None then Inl NULL_POINTER else call_next e t XFER_ERR_THREAD s)" for t
    by (simp add: start_error_def launch_def)
  show ?thesis
  proof (cases t)
    case (ReadMark k)
    show ?thesis
    proof (cases k)
      case None
      with ReadMark g show ?thesis by (simp add: fate_def)
    next
      case (Some k')
      with assms ReadMark obtain q where "on_mark e k' XFER_ERR_THREAD [] s = Inr q" "idle q"
        by (auto elim: mark_error)
      with Some ReadMark assms(2) show ?thesis by (simp add: fate_def g call_next_def)
    qed
  next
    case (Gathering k)
    with assms(1) show ?thesis
      by (auto simp: fate_def g call_next_def due_def thread_ok_def on_data_def list_3_def Let_def)
  next
    case (Streaming k)
    with assms(1) obtain q z where "on_data e k (word_of_int XFER_ERR_THREAD) None s = Inr q" "dead q"
      "last (acts q) = Progress (word_of_int XFER_ERR_THREAD) z"
      using moved_error [of k s e] by blast
    with Streaming show ?thesis by (simp add: fate_def g call_next_def)
  qed (use assms(2) in simp)
qed

lemma fate_start_ok:
  assumes "ui_inv s" and "env_ok e" and event: "client_event e ev s = Some (Inr s')"
    and "i < length (starts s s')"
  shows "\<exists>r. failing_event e ev i s = Some r \<and> fate (starts s s' ! i) r"
proof -
  let ?a = "starts s s' ! i"
  have a: "?a \<in> set (starts s s')" using assms(4) by simp
  then have st: "is_start ?a" by (simp add: starts_def)
  show ?thesis
  proof (cases "\<exists>t. ?a = Thread t \<and> t \<noteq> ReadMark None")
    case False
    with st obtain u where "?a = SendX u \<or> ?a = Thread (ReadMark None)" by (cases ?a) auto
    with assms(4) event show ?thesis by (auto simp: failing_event_def fate_def)
  next
    case True
    then obtain t where t: "?a = Thread t" "t \<noteq> ReadMark None" by blast
    from assms(2) event assms(1) show ?thesis
    proof (cases rule: event_starts)
      case (tail s1)
      from ends_last [OF tail(2,1) _ t(2)] a t(1)
      have l: "at_end t" "threads s' = threads (unstarted s') @ [t]" by auto
      have "t \<in> set (talking s')" using l(2) t(2) by (simp add: talking_def)
      then have "\<not> refused_upload ev" using refused_dies [OF assms(1) event] by (auto simp: dead_def)
      with event_inv [OF assms(1,2) event] have "due t (unstarted s')"
        by (intro unstarted_due [OF _ l(2) t(2)]) simp
      from fate_at_end [OF this l(1)] t l(1) assms(4) event show ?thesis
        by (cases t) (auto simp: failing_event_def split: option.splits mark_cb.splits)
    next
      case click
      with a t(1) have tk: "t = Connecting K_connection_setup" by (auto simp: only_def list_all_iff)
      from click(1) event assms(1) have "\<not> loading_now s" "idle s"
        by (auto simp: client_event_def ui_inv_def busy_def split: if_splits)
      with click click_error [of s "e\<lparr>env_init := Some XFER_ERR_THREAD\<rparr>"] t tk assms(4) event show ?thesis
        by (auto simp: failing_event_def fate_def) (simp add: client_event_def)
    next
      case (data c u)
      let ?e = "e\<lparr>env_init := Some XFER_ERR_THREAD\<rparr>"
      from data(2) a t have tk: "t = Connecting K_data_2" by (auto simp: only_def list_all_iff)
      from data(1) obtain k where k: "ev = Reply (Some k) c u" "k = K_data_pasv_1 \<or> k = K_data_port_1" by blast
      with event obtain s1 where s1: "take_thread (ReadMark (Some k)) s = Some s1"
        by (auto simp: client_event_def split: option.splits)
      have "due (ReadMark (Some k)) s1" using due_taken [OF assms(1) s1] by simp
      from connecting_error [OF this, of ?e c u] k(2) obtain q where "on_mark ?e k c u s1 = Inr q" "idle q"
        by (auto simp: on_mark_def data_thread_def)
      with k(1) s1 have "client_event ?e ev s = Some (Inr q)" by (simp add: client_event_def)
      with \<open>idle q\<close> t tk assms(4) event show ?thesis by (auto simp: failing_event_def fate_def)
    next
      case listed
      with a t show ?thesis by (auto simp: only_def list_all_iff)
    next
      case confirm
      with t a have tk: "t = ReadMark (Some K_stor_3)" by simp
      from confirm(1) event obtain s1 where s1: "take_thread (Streaming K_stor_2) s = Some s1"
        by (auto simp: client_event_def split: option.splits)
      have "dead (stor_2_unread s1)" using unread_dead due_taken [OF assms(1) s1] by simp
      with s1 t tk assms(4) event show ?thesis by (auto simp: failing_event_def fate_def)
    qed
  qed
qed


lemma dead_no_start:
  assumes "dead s" and "client_event e ev s = Some (Inr s')"
  shows "starts s s' = []"
proof -
  have none: "take_thread t s = None" if "t \<noteq> ReadMark None" for t
    using assms(1) that by (auto simp: dead_def talking_def filter_empty_conv take_thread_def)
  have "acts s' = acts s"
    using assms dead_not_editable [OF assms(1)] none
    by (cases ev) (auto simp: client_event_def dead_def btnModeClick_def split: if_splits option.splits dest: take_threadD)
  then show ?thesis by (simp add: starts_def)
qed

lemma failing_eventE:
  assumes "failing_event e ev i s = Some r"
  obtains s' where "client_event e ev s = Some (Inr s')" and "i < length (starts s s')"
  using assms by (auto simp: failing_event_def split: option.splits sum.splits if_splits)

lemma failing_keeps:
  assumes "live_or_dead s" and "env_ok e" and "failing_event e ev i s = Some (Inr q)"
  shows "live_or_dead q"
proof -
  obtain s' where event: "client_event e ev s = Some (Inr s')" and i: "i < length (starts s s')"
    using assms(3) by (rule failing_eventE)
  have u: "ui_inv s" using assms(1) dead_no_start [OF _ event] i by (auto simp: live_or_dead_def)
  obtain r where "failing_event e ev i s = Some r" "fate (starts s s' ! i) r"
    using fate_start_ok [OF u assms(2) event i] by blast
  with assms(3) show ?thesis
    by (auto simp: fate_def live_or_dead_def ui_inv_def split: action.splits thread.splits option.splits if_splits)
qed

interpretation faulty: transition_invariant faulty_step at_start live_or_dead
proof unfold_locales
  fix s assume "at_start s"
  then show "live_or_dead s" by (rule ui.start_inv)
next
  fix s s' assume "live_or_dead s" and "faulty_step s s'"
  from this(2,1) show "live_or_dead s'"
    by cases (auto intro: ui.step_inv client_step.event failing_keeps)
qed

definition blocked :: "app \<Rightarrow> bool" where
  "blocked q \<longleftrightarrow> dead q \<and> (\<forall>q'. faulty_step\<^sup>*\<^sup>* q q' \<longrightarrow> loading_now q' \<and> talking q' = [])"

lemma blocked_dead: "blocked q = dead q"
proof -
  have "dead q'" if "faulty_step\<^sup>*\<^sup>* q q'" and "dead q" for q'
    using that(1)
  proof (induction rule: rtranclp_induct)
    case (step x y)
    from step(2) show ?case
    proof cases
      case (event e ev)
      with dead_event step(3) show ?thesis by blast
    next
      case (fails e ev i)
      from fails(2) obtain s' where "client_event e ev x = Some (Inr s')" "i < length (starts x s')"
        by (rule failing_eventE)
      with dead_no_start [OF step(3)] show ?thesis by force
    qed
  qed (rule that(2))
  then show ?thesis unfolding blocked_def dead_def by blast
qed

text \<open>
  C35. When a thread cannot be created the client may crash, but not lose count of its conversation:
  in every state it can reach, also after such failures, at most one callback is due, and each start
  of each event has a known outcome. A write, a reader without a callback and the gathering of a
  listing call or read through a null pointer. A connection that cannot be waited for, and a reply
  that cannot be read, leave the user interface free; but a transfer whose thread cannot be created,
  whose error code is shown as a number of bytes, and the confirmation of an upload that cannot be
  read leave it blocked for good.
\<close>

theorem thread_failures:
  assumes "faulty_step\<^sup>*\<^sup>* (app_start l) s" and "env_ok e" and "client_event e ev s = Some (Inr s')"
    and "i < length (starts s s')"
  shows "length (talking s) \<le> 1 \<and> (\<exists>r. failing_event e ev i s = Some r \<and>
    (case starts s s' ! i of
       Thread (Connecting k) \<Rightarrow> (\<exists>q. r = Inr q \<and> idle q)
     | Thread (ReadMark (Some k)) \<Rightarrow> (\<exists>q. r = Inr q \<and> (if k = K_stor_3 then blocked q else idle q))
     | Thread (Streaming k) \<Rightarrow>
         (\<exists>q z. r = Inr q \<and> blocked q \<and> last (acts q) = Progress (word_of_int XFER_ERR_THREAD) z)
     | _ \<Rightarrow> r = Inl NULL_POINTER))"
proof -
  have "live_or_dead s" by (rule faulty.reachable [OF _ assms(1)]) (auto simp: at_start_def)
  with dead_no_start [OF _ assms(3)] assms(4) have u: "ui_inv s" by (auto simp: live_or_dead_def)
  then have "length (talking s) \<le> 1" by (auto simp: ui_inv_def idle_def busy_def)
  then show ?thesis
    unfolding blocked_dead by (intro conjI fate_start_ok [OF u assms(2-4), unfolded fate_def])
qed

lemma faulty_steps: "client_step\<^sup>*\<^sup>* s s' \<Longrightarrow> faulty_step\<^sup>*\<^sup>* s s'"
  by (erule rtranclp_mono [THEN predicate2D, rotated]) (auto elim!: client_step.cases intro: faulty_step.event)

text \<open>A client that has logged in, and gets a reply to PWD: it asks for passive mode.\<close>

theorem thread_failures_witness:
  "\<exists>s' q. client_event env0 (Reply (Some K_list_1) 257 [DQUOTE, CHR ''/'', DQUOTE]) logged_in_app = Some (Inr s') \<and>
    starts logged_in_app s' = [SendX (''PASV'' @ CRLF), Thread (ReadMark (Some K_data_pasv_1))] \<and>
    failing_event env0 (Reply (Some K_list_1) 257 [DQUOTE, CHR ''/'', DQUOTE]) 0 logged_in_app = Some (Inl NULL_POINTER) \<and>
    failing_event env0 (Reply (Some K_list_1) 257 [DQUOTE, CHR ''/'', DQUOTE]) 1 logged_in_app = Some (Inr q) \<and> idle q"
proof -
  let ?ev = "Reply (Some K_list_1) 257 [DQUOTE, CHR ''/'', DQUOTE]"
  obtain s' where s': "client_event env0 ?ev logged_in_app = Some (Inr s')"
    "starts logged_in_app s' = [SendX (''PASV'' @ CRLF), Thread (ReadMark (Some K_data_pasv_1))]"
    by (simp add: reply_event logged_in_app on_mark_def list_1_def quoted_part_def bind_res_def do_data_def starts_def)
  note f = thread_failures [OF faulty_steps [OF logged_in_app(1)] env0_ok s'(1)]
  show ?thesis using f [of 0] f [of 1] s' by auto
qed

section \<open>How the user interface dies\<close>

text \<open>The starts whose failure is not handled.\<close>

fun fatal_start :: "action \<Rightarrow> bool" where
  "fatal_start (Thread (Streaming k)) = True"
| "fatal_start (Thread (ReadMark (Some k))) = (k = K_stor_3)"
| "fatal_start _ = False"

text \<open>
  C24. The user interface is blocked with no callback due (\<open>dead\<close>) in exactly three ways: by an
  upload whose confirmation is not 226, and when the thread that moves a file, or the one that
  reads the confirmation of an upload, cannot be created. Then it stays so for good, whatever
  happens afterwards. (A callback that is due and never comes is another matter.)
\<close>

theorem ui_dies_exactly:
  assumes "faulty_step\<^sup>*\<^sup>* (app_start l) s" and "\<not> dead s" and "env_ok e"
    and "client_event e ev s = Some (Inr s')"
  shows "(dead s' \<longleftrightarrow> refused_upload ev) \<and>
    (\<forall>i q. failing_event e ev i s = Some (Inr q) \<longrightarrow> (dead q \<longleftrightarrow> fatal_start (starts s s' ! i))) \<and>
    (\<forall>q q'. dead q \<longrightarrow> faulty_step\<^sup>*\<^sup>* q q' \<longrightarrow> loading_now q' \<and> talking q' = [])"
proof (intro conjI allI impI)
  have "live_or_dead s" by (rule faulty.reachable [OF _ assms(1)]) (auto simp: at_start_def)
  with assms(2) have i: "ui_inv s" by (simp add: live_or_dead_def)
  have nd: "\<not> dead x" if "ui_inv x" for x using that by (auto simp: ui_inv_def idle_def busy_def dead_def)
  then show "dead s' \<longleftrightarrow> refused_upload ev"
    using event_inv [OF i assms(3,4)] refused_dies [OF i assms(4)] by blast
  show "dead q \<longleftrightarrow> fatal_start (starts s s' ! i)" if "failing_event e ev i s = Some (Inr q)" for i q
  proof -
    have "i < length (starts s s')" using that assms(4) by (auto elim: failing_eventE)
    from fate_start_ok [OF i assms(3,4) this] that have "fate (starts s s' ! i) (Inr q)" by auto
    moreover have "\<not> dead q" if "idle q" using that nd by (simp add: ui_inv_def)
    ultimately show ?thesis
      by (cases "starts s s' ! i" rule: fatal_start.cases) (auto simp: fate_def split: if_splits)
  qed
  fix q q'
  assume "dead q" and "faulty_step\<^sup>*\<^sup>* q q'"
  then show "loading_now q'" "talking q' = []" using blocked_dead [of q] by (auto simp: blocked_def)
qed

section \<open>Events from the wire\<close>

text \<open>
  An event with the thread that brings it: \<open>Reads k b\<close> is a reply that the thread of \<open>k\<close> reads from
  the line buffer of the control connection, \<open>Gathers k rs\<close> the end of a listing read from a data
  connection, \<open>Other ev\<close> everything else. \<open>None\<close> is a thread that goes on reading for ever.
\<close>

datatype wire = Reads "mark_cb option" rlb | Gathers data_cb "rd list" | Other event

fun wire_event :: "env \<Rightarrow> wire \<Rightarrow> app \<Rightarrow> (mem_fault + app) option" where
  "wire_event e (Reads k b) s =
     (case read_mark_thr (k \<noteq> None) b of
        None \<Rightarrow> None
      | Some (Inl f) \<Rightarrow> Some (Inl f)
      | Some (Inr (None, b')) \<Rightarrow> client_event e (Reply None 0 []) s
      | Some (Inr (Some p, b')) \<Rightarrow>
          (case read_mark_cb p of
             Inl f \<Rightarrow> Some (Inl f)
           | Inr (c, t) \<Rightarrow> client_event e (Reply k (int c) t) s))"
| "wire_event e (Gathers k rs) s =
     (case read_all_thr True rs of
        None \<Rightarrow> None
      | Some (Inl f) \<Rightarrow> Some (Inl f)
      | Some (Inr (None, rs')) \<Rightarrow> None
      | Some (Inr (Some (len, m), rs')) \<Rightarrow> client_event e (All_read k len m) s)"
| "wire_event e (Other ev) s = client_event e ev s"

text \<open>The control connection stays open, and fewer than \<open>2 ^ 62\<close> bytes arrive.\<close>

fun wire_ok :: "wire \<Rightarrow> bool" where
  "wire_ok (Reads k b) \<longleftrightarrow> open_conn b \<and> length (events b) < 2 ^ 62"
| "wire_ok (Gathers k rs) \<longleftrightarrow> length (gathered_bytes rs) < 2 ^ 62"
| "wire_ok (Other ev) \<longleftrightarrow> (\<forall>k c t. ev \<noteq> Reply k c t) \<and> (\<forall>k len m. ev \<noteq> All_read k len m)"

text \<open>
  C31. The client leaves its buffers or uses a null pointer only on the text of the server: in every
  state it can reach, also when
  threads could not be created before, with fewer than \<open>10 ^ 8 - 1\<close> files listed, on a control
  connection that stays open, and as long as the threads of this event can be created, an event with
  its reader is a fault only when it is a reply to PWD or a listing whose parser leaves the text.
  The readers themselves, of replies and of listings, never touch a cell outside their buffers.
  (The \<open>memcmp\<close> of names is one that stops at the first difference, see FileList.)
\<close>

theorem faults_from_server_text:
  assumes "faulty_step\<^sup>*\<^sup>* (app_start l) s" and "n_files (flist s) < 10 ^ 8 - 1"
    and "wire_ok wi" and "wire_event e wi s = Some (Inl f)"
  shows "(\<exists>b p b' t. wi = Reads (Some K_list_1) b \<and> read_mark_thr True b = Some (Inr (Some p, b')) \<and>
      read_mark_cb p = Inr (257, t) \<and> quoted_part t = Inl f) \<or>
    (\<exists>rs len m rs' d. wi = Gathers K_list_3 rs \<and> read_all_thr True rs = Some (Inr (Some (len, m), rs')) \<and>
      cwd s = Some d \<and> listing_recs d m = Inl f)"
proof -
  have inv: "live_or_dead s" by (rule faulty.reachable [OF _ assms(1)]) (auto simp: at_start_def)
  note fault = event_fault [OF inv assms(2)]
  show ?thesis
  proof (cases wi)
    case (Reads k b)
    have rd: "case read_mark_thr (k \<noteq> None) b of None \<Rightarrow> True | Some (Inl e) \<Rightarrow> False
      | Some (Inr (q, b')) \<Rightarrow>
          if k \<noteq> None then \<exists>p s. q = Some p \<and> read_mark_cb p = Inr (fst p, s) else q = None"
      using assms(3) Reads by (intro reader_in_bounds) simp_all
    then obtain p b' where r: "read_mark_thr (k \<noteq> None) b = Some (Inr (p, b'))"
      using assms(4) Reads by (auto simp del: not_None_eq split: option.splits sum.splits)
    show ?thesis
    proof (cases p)
      case None
      with assms(4) Reads r fault show ?thesis by fastforce
    next
      case (Some q)
      then obtain t where t: "read_mark_cb q = Inr (fst q, t)" using rd r by (auto split: if_splits)
      with assms(4) Reads r Some have "client_event e (Reply k (int (fst q)) t) s = Some (Inl f)" by simp
      from fault [OF this] have "k = Some K_list_1" "fst q = 257" "quoted_part t = Inl f" by auto
      with Reads r Some t show ?thesis by (cases q) auto
    qed
  next
    case (Gathers k rs)
    with assms(3,4) gatherer_in_bounds [of rs True] obtain len m rs' where
      r: "read_all_thr True rs = Some (Inr (Some (len, m), rs'))" "client_event e (All_read k len m) s = Some (Inl f)"
      by (auto split: option.splits sum.splits)
    from fault [OF r(2)] Gathers r(1) show ?thesis by blast
  next
    case (Other ev)
    with assms(3,4) fault [of e ev f] show ?thesis by auto
  qed
qed

text \<open>A reply to PWD with one quote.\<close>

definition one_quote :: rlb where
  "one_quote = rlb_init [Data (''257 '' @ [DQUOTE, LF])]"

lemma one_quote_events: "events one_quote = line_events [''257 '' @ [DQUOTE]] @ []"
  by (simp add: one_quote_def events_def rlb_init_def)

theorem faults_from_server_text_witness:
  "wire_event env0 (Reads (Some K_list_1) one_quote) logged_in_app = Some (Inl OVERRUN) \<and>
    (\<exists>p b' t. read_mark_thr True one_quote = Some (Inr (Some p, b')) \<and> read_mark_cb p = Inr (257, t) \<and>
      quoted_part t = Inl OVERRUN)"
proof -
  have nm: "\<not> no_more one_quote" by (simp add: one_quote_def rlb_init_def)
  have "open_conn one_quote" and "length (events one_quote) < 2 ^ 62"
    using nm by (simp_all add: open_conn_def one_quote_events)
  then have ok: "wire_ok (Reads (Some K_list_1) one_quote)" by simp
  obtain p b' where r: "read_mark_thr True one_quote = Some (Inr (Some p, b'))" "read_mark_cb p = Inr (257, [DQUOTE, LF])"
  proof -
    have "\<exists>m b'. read_mark_thr True one_quote = Some (Inr (Some (257, m), b')) \<and>
        read_mark_cb (257, m) = Inr (257, [DQUOTE, LF]) \<and> events b' = line_events [] @ [] \<and> \<not> no_more b'"
    proof (rule read_mark_reads [OF one_quote_events nm])
      show "mark_text [''257 '' @ [DQUOTE]] = Some (257, [DQUOTE, LF], [])"
        by (simp add: final_line_def mark_code_def isdigit_def digit_val_def less_eq_char_def numeral_eq_Suc)
    qed (simp_all add: plain_line_def)
    with that show thesis by blast
  qed
  have "quoted_part [DQUOTE, LF] = Inl OVERRUN" by (simp add: quoted_part_def bind_res_def)
  then have f: "wire_event env0 (Reads (Some K_list_1) one_quote) logged_in_app = Some (Inl OVERRUN)"
    using r by (simp add: reply_event logged_in_app(2) on_mark_def list_1_def bind_res_def)
  have n: "n_files (flist logged_in_app) < 10 ^ 8 - 1"
    by (simp add: logged_in_app(5) list0_def demo_recs_def)
  from faults_from_server_text [OF faulty_steps [OF logged_in_app(1)] n ok f] f show ?thesis by blast
qed

end
