(* ===== verification/ClientWindow.thy ===== *)
theory ClientWindow
  imports ClientRun
begin

text \<open>
  The window of the client, as \<open>main()\<close> of \<^verbatim>\<open>client/main.c\<close> builds it, and the file list it starts
  with. A control of libui is a value; what a control can give back to the program follows from it.
  The texts of its buttons and the controls that can be used agree with the state of the program.
\<close>

section \<open>Controls\<close>

datatype click = C_btnConnClick | C_btnModeClick

text \<open>In a box: the controls with the flag \<open>stretchy\<close>. All boxes are padded.\<close>

datatype control = ULabel string | UEntry string | UPasswordEntry | USpinbox int int int
  | UButton string click | UProgressBar int | UTable "table_column list"
  | UVerticalBox "(control \<times> bool) list" | UHorizontalBox "(control \<times> bool) list"
  | UDisabled control | UWindow string int int control

definition conn_box :: control where
  "conn_box =
     UVerticalBox
       [(UHorizontalBox
           [(ULabel ''Host'', False), (UEntry ''127.0.0.1'', True),
            (ULabel ''Port'', False), (USpinbox 1 65535 21, False)], True),
        (UHorizontalBox
           [(ULabel ''User'', False), (UEntry ''anonymous'', True),
            (ULabel ''Password'', False), (UPasswordEntry, True)], True)]"

definition main_window :: control where
  "main_window =
     UWindow ''zzFTP Client'' 480 600 (UVerticalBox
       [(conn_box, False),
        (UButton ''Connect'' C_btnConnClick, False),
        (UProgressBar 0, False),
        (ULabel ''Disconnected'', False),
        (UDisabled (UVerticalBox [(UTable table_columns, True)]), False),
        (UButton ''Current mode: Passive'' C_btnModeClick, False)])"

section \<open>The start of the program\<close>

text \<open>The static variables of the file list, and the records that \<open>file_list_table\<close> begins with.\<close>

definition file_list_init :: file_list where
  "file_list_init = \<lparr>has_contents = False, enabled = False, files = [], row_notes = []\<rparr>"

definition sample_recs :: "file_rec list" where
  "sample_recs =
     [\<lparr>is_dir = 2, fr_name = ''..'', fr_size = 0, fr_date = ''''\<rparr>,
      \<lparr>is_dir = 1, fr_name = ''dir_1'', fr_size = 0, fr_date = ''quq''\<rparr>,
      \<lparr>is_dir = 1, fr_name = ''dir_2'', fr_size = 0, fr_date = ''qvq''\<rparr>,
      \<lparr>is_dir = 0, fr_name = ''file_1'', fr_size = 123, fr_date = ''qwq''\<rparr>,
      \<lparr>is_dir = 0, fr_name = ''file_2'', fr_size = 456, fr_date = ''qxq''\<rparr>,
      \<lparr>is_dir = 0, fr_name = ''file_3'', fr_size = 1023, fr_date = ''uwu''\<rparr>]"

text \<open>\<open>file_list_table\<close>: the table is made once, and its list filled.\<close>

definition file_list_table ::
  "((file_rec \<Rightarrow> file_rec \<Rightarrow> int) \<Rightarrow> file_rec list \<Rightarrow> file_rec list) \<Rightarrow>
   control option \<times> file_list \<Rightarrow> control \<times> (control option \<times> file_list)" where
  "file_list_table qsort made =
     (case made of
        (Some t, l) \<Rightarrow> (t, (Some t, l))
      | (None, l) \<Rightarrow>
          (UTable table_columns, (Some (UTable table_columns), file_list_reset qsort sample_recs l)))"

text \<open>\<open>main()\<close> up to \<open>uiMain\<close>: it gets the table, clears the list and starts.\<close>

definition main_start :: "((file_rec \<Rightarrow> file_rec \<Rightarrow> int) \<Rightarrow> file_rec list \<Rightarrow> file_rec list) \<Rightarrow> app" where
  "main_start qsort = app_start (snd (snd (file_list_table qsort (None, file_list_init))))"

section \<open>What the window gives to the program\<close>

fun controls :: "control \<Rightarrow> control list" where
  "controls (UVerticalBox cs) = UVerticalBox cs # concat (map (\<lambda>(c, st). controls c) cs)"
| "controls (UHorizontalBox cs) = UHorizontalBox cs # concat (map (\<lambda>(c, st). controls c) cs)"
| "controls (UDisabled c) = controls c"
| "controls (UWindow t width height c) = controls c"
| "controls c = [c]"

text \<open>The values a spin box can have, as libui documents it.\<close>

fun spin_values :: "control \<Rightarrow> int set" where
  "spin_values (USpinbox lo hi v) = {lo..hi}"
| "spin_values c = {}"

text \<open>What the dialogues and entries of this window can answer.\<close>

definition window_env :: "env \<Rightarrow> bool" where
  "window_env e \<longleftrightarrow> (\<exists>c \<in> set (controls main_window). env_port e \<in> spin_values c)"

lemma port_in_range: "window_env e \<Longrightarrow> 1 \<le> env_port e \<and> env_port e \<le> 65535"
  by (auto simp: window_env_def main_window_def conn_box_def)

text \<open>The port the client connects to is the one that is shown: nothing is lost in \<open>htons\<close>.\<close>

lemma port_exact:
  assumes "window_env e"
  shows "uint (word_of_int (env_port e) :: u16) = env_port e"
  using port_in_range [OF assms] by (simp add: uint_word_of_int)

text \<open>The program starts with an empty table, whatever the list was filled with.\<close>

lemma main_start_empty: "modelNumRows (flist (main_start q)) = 0"
  by (simp add: main_start_def app_start_def file_list_clear_def modelNumRows_def)

lemma main_start_at_start: "at_start (main_start q)"
  by (auto simp: main_start_def at_start_def)

text \<open>No request can be made before the first listing: the table has no row to edit.\<close>

lemma main_start_no_edit: "\<not> editable (flist (main_start q)) row col"
  by (simp add: editable_def main_start_empty)

section \<open>The texts of the buttons\<close>

text \<open>What the window shows of the state of the connection; most operations leave it as it is.\<close>

definition facts :: "app \<Rightarrow> bool \<times> bool \<times> string \<times> bool \<times> string" where
  "facts s = (connected s, box_conn s, conn_text s, passive_mode s, mode_text s)"

lemma facts_basic [simp]:
  "facts (act a s) = facts s" "facts (loading s) = facts s" "facts (done_loading s) = facts s"
  "facts (status t s) = facts s" "facts (statusf t s) = facts s" "facts (instant_statusf t s) = facts s"
  "facts (start_thread th s) = facts s" "facts (send_x t s) = facts s" "facts (read_mark j s) = facts s"
  "facts (ask t k s) = facts s"
  by (simp_all add: facts_def op_defs)

lemma facts_upd [simp]:
  "facts (s\<lparr>cwd := d\<rparr>) = facts s" "facts (s\<lparr>flist := l\<rparr>) = facts s" "facts (s\<lparr>threads := ts\<rparr>) = facts s"
  "facts (s\<lparr>rename_from := u, rename_to := v\<rparr>) = facts s"
  "facts (s\<lparr>data_fd := a, data_inter := b, data_next := c\<rparr>) = facts s"
  by (simp_all add: facts_def)

lemma facts_data [simp]:
  "facts (data_2 c s) = facts s" "facts (start_data e a s) = facts s" "facts (call_inter s) = facts s"
  "facts (do_data e fd i k s) = facts s" "facts (do_list s) = facts s"
proof -
  show d2: "facts (data_2 c s) = facts s" for c s
    by (cases "data_next s") (auto simp: data_2_def Let_def)
  show "facts (start_data e a s) = facts s"
    by (auto simp: start_data_def d2 split: option.split)
  show "facts (call_inter s) = facts s"
    by (auto simp: call_inter_def run_inter_def split: option.split inter.split)
  show "facts (do_data e fd i k s) = facts s"
    by (auto simp: do_data_def Let_def split: option.split)
  show "facts (do_list s) = facts s" by (simp add: do_list_def)
qed

lemma facts_on_mark:
  assumes "on_mark e k c t s = Inr s'" and "k \<noteq> K_disconn_1" and "\<not> login_thread (ReadMark (Some k))"
  shows "facts s' = facts s"
  using assms
  by (cases k)
     (auto simp: on_mark_def login_thread_def data_pasv_1_def data_port_1_def list_1_def sys_1_def sys_2_def cwd_1_def
       rename_1_def rename_2_def mkd_1_def rm_1_def stor_3_def Let_def bind_res_eq_Inr split: if_splits option.splits)

lemma facts_retr [simp]: "facts (retr_2 n s) = facts s" "facts (stor_2 n s) = facts s"
  by (auto simp: retr_2_def stor_2_def)

lemma facts_on_data: "on_data e k n m s = Inr s' \<Longrightarrow> facts s' = facts s"
  by (cases k) (auto simp: on_data_def list_3_def bind_res_eq_Inr Let_def split: option.splits)

lemma facts_files [simp]:
  "facts (do_retr e nm n s) = facts s" "facts (do_stor e nm s) = facts s"
  by (auto simp: do_retr_def do_stor_def facts_def op_defs do_data_def Let_def split: sum.split option.split)

lemma facts_request: "do_request e r s = Some (Inr s') \<Longrightarrow> facts s' = facts s"
  by (cases r)
     (auto simp: do_request_def file_list_download_def file_list_upload_def do_cwd_def do_rename_def do_mkd_def
       do_rm_def bind_res_eq_Inr split: if_splits option.splits)


text \<open>The texts on the buttons are right, and the entries for the connection can be used exactly while
  there is none and none is being made.\<close>

definition truthful :: "app \<Rightarrow> bool" where
  "truthful s \<longleftrightarrow>
     conn_text s = (if connected s then ''Disconnect'' else ''Connect'') \<and>
     mode_text s = (if passive_mode s then ''Current mode: Passive'' else ''Current mode: Active'') \<and>
     (box_conn s \<longleftrightarrow> \<not> connected s \<and> talking s = [])"

lemma truthful_same:
  assumes "truthful s" and "facts s' = facts s" and "connected s \<or> talking s' = talking s"
  shows "truthful s'"
  using assms unfolding truthful_def facts_def by auto

text \<open>A callback that is due while there is a connection is not one of the login.\<close>

lemma due_login: "due t s \<Longrightarrow> login_thread t \<longleftrightarrow> \<not> connected s"
  by (simp add: due_def thread_ok_def)

lemma facts_due: "take_thread t s = Some s1 \<Longrightarrow> facts s1 = facts s"
  by (auto dest: take_threadD)

lemma truthful_login:
  assumes "truthful s" and "take_thread t s = Some s1" and "due t s1" and "login_thread t" and "t \<in> set (talking s)"
  shows "\<not> connected s1" and "\<not> box_conn s1" and "conn_text s1 = ''Connect''"
    and "mode_text s1 = (if passive_mode s1 then ''Current mode: Passive'' else ''Current mode: Active'')"
    and "talking s1 = []"
  using assms due_login [OF assms(3)] facts_due [OF assms(2)]
  by (auto simp: truthful_def facts_def due_def)

lemma facts_disconn_1:
  "facts (disconn_1 c t s) = (False, True, ''Connect'', passive_mode s, mode_text s)"
  "talking (disconn_1 c t s) = talking s"
  by (simp_all add: disconn_1_def Let_def facts_def op_defs talking_def)

lemma truthful_mark:
  assumes "truthful s" and "ui_inv s" and "take_thread (ReadMark (Some k)) s = Some s1"
    and "on_mark e k c t s1 = Inr s'"
  shows "truthful s'"
proof -
  have d: "due (ReadMark (Some k)) s1" using due_taken [OF assms(2,3)] by simp
  have m: "ReadMark (Some k) \<in> set (talking s)" using take_threadD [OF assms(3)] by (simp add: talking_def)
  show ?thesis
  proof (cases "login_thread (ReadMark (Some k))")
    case True
    note l = truthful_login [OF assms(1,3) d True m]
    from True l assms(4) show ?thesis
      by (cases k)
         (auto simp: login_thread_def on_mark_def auth_1_def auth_2_def auth_3_def enable_conn_def do_sys_setup_def
           Let_def truthful_def facts_def op_defs talking_def split: if_splits)
  next
    case False
    have c: "connected s" using due_login [OF d] False facts_due [OF assms(3)] by (simp add: facts_def)
    show ?thesis
    proof (cases "k = K_disconn_1")
      case True
      then have s': "s' = disconn_1 c t s1" using assms(4) by (simp add: on_mark_def)
      have "talking s' = []" using d facts_disconn_1(2) [of c t s1] s' by (simp add: due_def)
      with assms(1) facts_disconn_1(1) [of c t s1] facts_due [OF assms(3)] show ?thesis
        unfolding s' truthful_def facts_def by simp
    next
      case False
      with facts_on_mark [OF assms(4) False \<open>\<not> login_thread _\<close>] facts_due [OF assms(3)] c assms(1) show ?thesis
        by (intro truthful_same [OF assms(1)]) simp_all
    qed
  qed
qed

lemma truthful_event:
  assumes "truthful s" and "live_or_dead s" and "client_event e ev s = Some (Inr s')"
  shows "truthful s'"
proof (cases ev)
  case Click_mode
  with assms(1,3) show ?thesis by (auto simp: client_event_def btnModeClick_def truthful_def talking_def)
next
  case Click_conn
  with assms have i: "\<not> loading_now s" "idle s"
    by (auto simp: client_event_def live_or_dead_def ui_inv_def busy_def dead_def split: if_splits)
  with Click_conn assms(1,3) show ?thesis
    by (auto simp: client_event_def btnConnClick_def Let_def truthful_def connection_setup_def do_auth_def
        enable_conn_def idle_def talking_def op_defs split: if_splits option.splits)
next
  case (Edit row col v)
  with assms(3) have ed: "editable (flist s) row col" by (auto simp: client_event_def split: if_splits)
  from Edit assms(3) obtain r where r: "do_request e r s = Some (Inr s')"
    by (auto simp: client_event_def split: if_splits option.splits sum.splits)
  have "has_contents (flist s)" using ed by (auto simp: editable_def modelNumRows_def split: if_splits)
  with assms(2) have "connected s"
    by (auto simp: live_or_dead_def ui_inv_def idle_def busy_def dead_def list_ok_def)
  with facts_request [OF r] show ?thesis by (intro truthful_same [OF assms(1)]) simp_all
next
  case (Reply k c t)
  show ?thesis
  proof (cases k)
    case None
    with Reply assms(3) have "take_thread (ReadMark None) s = Some s'"
      by (auto simp: client_event_def split: option.splits)
    with facts_due [OF this] take_threadD [OF this] show ?thesis
      using talking_remove [of "ReadMark None" s]
      by (intro truthful_same [OF assms(1)]) (simp_all add: talking_def remove1_idem)
  next
    case (Some k')
    with Reply assms(3) obtain s1 where s1: "take_thread (ReadMark (Some k')) s = Some s1" "on_mark e k' c t s1 = Inr s'"
      by (auto simp: client_event_def split: option.splits)
    have "ui_inv s" using assms(2) take_threadD [OF s1(1)]
      by (auto simp: live_or_dead_def dead_def talking_def filter_empty_conv)
    from truthful_mark [OF assms(1) this s1] show ?thesis .
  qed
next
  case (Connection k c)
  with assms(3) obtain s1 where s1: "take_thread (Connecting k) s = Some s1" "s' = on_connected k c s1"
    by (auto simp: client_event_def)
  have u: "ui_inv s" using assms(2) take_threadD [OF s1(1)]
    by (auto simp: live_or_dead_def dead_def talking_def filter_empty_conv)
  have d: "due (Connecting k) s1" using due_taken [OF u s1(1)] by simp
  show ?thesis
  proof (cases k)
    case K_connection_setup
    have l: "login_thread (Connecting k)" "Connecting k \<in> set (talking s)"
      using take_threadD [OF s1(1)] K_connection_setup by (simp_all add: login_thread_def talking_def)
    note l = truthful_login [OF assms(1) s1(1) d l]
    from l K_connection_setup s1(2) show ?thesis
      by (auto simp: on_connected_def connection_setup_def do_auth_def enable_conn_def truthful_def facts_def
          talking_def op_defs split: if_splits)
  next
    case K_data_2
    then have "connected s" using due_login [OF d] facts_due [OF s1(1)] by (simp add: facts_def login_thread_def)
    with s1(2) K_data_2 facts_due [OF s1(1)] show ?thesis
      by (intro truthful_same [OF assms(1)]) (simp_all add: on_connected_def)
  qed
next
  case (All_read k len m)
  with assms(3) obtain s1 where s1: "take_thread (Gathering k) s = Some s1" "on_data e k len (Some m) s1 = Inr s'"
    by (auto simp: client_event_def)
  have u: "ui_inv s" using assms(2) take_threadD [OF s1(1)]
    by (auto simp: live_or_dead_def dead_def talking_def filter_empty_conv)
  have d: "due (Gathering k) s1" using due_taken [OF u s1(1)] by simp
  then have "connected s" using due_login [OF d] facts_due [OF s1(1)] by (simp add: facts_def login_thread_def)
  with facts_on_data [OF s1(2)] facts_due [OF s1(1)] show ?thesis
    by (intro truthful_same [OF assms(1)]) simp_all
next
  case (Moved k len)
  with assms(3) obtain s1 where s1: "take_thread (Streaming k) s = Some s1"
    "on_data e k len None (if len = -1 then s1 else s) = Inr s'"
    by (auto simp: client_event_def split: option.splits)
  have u: "ui_inv s" using assms(2) take_threadD [OF s1(1)]
    by (auto simp: live_or_dead_def dead_def talking_def filter_empty_conv)
  have d: "due (Streaming k) s1" using due_taken [OF u s1(1)] by simp
  then have "connected s" using due_login [OF d] facts_due [OF s1(1)] by (simp add: facts_def login_thread_def)
  with facts_on_data [OF s1(2)] facts_due [OF s1(1)] show ?thesis
    by (intro truthful_same [OF assms(1)]) simp_all
qed

interpretation window: transition_invariant client_step at_start "\<lambda>s. live_or_dead s \<and> truthful s"
proof unfold_locales
  fix s assume "at_start s"
  then show "live_or_dead s \<and> truthful s"
    using ui.start_inv [of s] by (auto simp: at_start_def app_start_def truthful_def talking_def)
next
  fix s s' assume i: "live_or_dead s \<and> truthful s" and st: "client_step s s'"
  from st obtain e ev where "client_event e ev s = Some (Inr s')" by (auto elim: client_step.cases)
  with i st show "live_or_dead s' \<and> truthful s'" using ui.step_inv truthful_event by blast
qed

text \<open>
  C30. The window tells the truth: in every state the program can reach from its start, the button
  offers to disconnect exactly while there is a connection, the other one names the mode of data
  connections that is used, and the entries for host, port, user and password can be used exactly
  while there is no connection and none is being made.
\<close>

theorem window_truthful:
  assumes "client_step\<^sup>*\<^sup>* (main_start qsort) s"
  shows "conn_text s = (if connected s then ''Disconnect'' else ''Connect'') \<and>
    mode_text s = (if passive_mode s then ''Current mode: Passive'' else ''Current mode: Active'') \<and>
    (box_conn s \<longleftrightarrow> \<not> connected s \<and> talking s = [])"
  using window.reachable [OF main_start_at_start assms] by (simp add: truthful_def)

theorem window_truthful_witness:
  "conn_text (btnModeClick (main_start insertion_sort)) = ''Connect'' \<and>
    mode_text (btnModeClick (main_start insertion_sort)) = ''Current mode: Active'' \<and>
    box_conn (btnModeClick (main_start insertion_sort))"
proof -
  have "client_step (main_start insertion_sort) (btnModeClick (main_start insertion_sort))"
    by (rule client_step.event [OF env0_ok, of Click_mode]) (simp add: client_event_def)
  then have "client_step\<^sup>*\<^sup>* (main_start insertion_sort) (btnModeClick (main_start insertion_sort))"
    by (rule r_into_rtranclp)
  from window_truthful [OF this] show ?thesis
    by (simp add: btnModeClick_def main_start_def app_start_def talking_def)
qed

end
