(* ===== verification/DataThread.thy ===== *)
theory DataThread
  imports Platform
begin

text \<open>
  The data connection thread, \<^verbatim>\<open>server/client_xfer_thr.h\<close>, as a step function: one step is
  one pass of the thread between two points where it looks at shared state. \<open>None\<close> is a
  thread that waits, or has ended, or is in a block that never returns: while a block moves the
  thread touches nothing that is shared, so a block that returns is one step, and one that does
  not leaves the thread at \<open>T_HANGS\<close> for good (what it has moved by then is not recorded).
\<close>

section \<open>Moving one block\<close>

definition BUF_SIZE :: nat where "BUF_SIZE = 1024"

definition double_and_limit :: "int \<Rightarrow> int \<Rightarrow> int" where
  "double_and_limit x limit = (let new_x = x * 2 in if new_x < limit then new_x else limit)"

text \<open>
  0 to continue, 1 completed normally, 2 aborted abnormally; with the new \<open>process_sleep\<close>.
  \<open>None\<close> is a block that never returns: a \<open>read()\<close> that does not, or \<open>write_all\<close> looping.
\<close>

definition process_block ::
  "('w, 'f) os \<Rightarrow> nat \<Rightarrow> dat_type \<Rightarrow> 'f \<Rightarrow> int \<Rightarrow> 'w \<Rightarrow> (nat \<times> int \<times> 'w) option" where
  "process_block os conn ty fp psleep w =
     map_option (\<lambda>(xfer_complete, ps, w').
         (if xfer_complete then 1 else if os_ferror os fp w' then 2 else 0, ps, w'))
       (if ty = DATA_SEND_FILE \<or> ty = DATA_SEND_PIPE then
          if os_hangs os (FREAD fp) w then None
          else (case os_fread os fp BUF_SIZE w of (bs, w1) \<Rightarrow>
             (case (if bs \<noteq> [] then write_all (os_write os conn) bs w1 else Some (0, w1)) of
                None \<Rightarrow> None
              | Some (_, w2) \<Rightarrow> Some (os_feof os fp w2, psleep, w2)))
        else if os_hangs os (READ conn) w then None
        else
          (case os_read os conn BUF_SIZE w of
             (Data bs, w1) \<Rightarrow>
               if bs \<noteq> [] then Some (False, 1000, os_fwrite os fp bs w1) else Some (True, psleep, w1)
           | (Again, w1) \<Rightarrow> Some (False, double_and_limit psleep 200000, w1)
           | (Fail, w1) \<Rightarrow> Some (True, psleep, w1)))"

section \<open>Steps of the thread\<close>

definition active_init :: "'f dthr" where
  "active_init = \<lparr>pc = A_START, t_sock = None, conn_fd = None, t_fp = None,
     t_ty = DATA_UNDEFINED, st = 0, accept_sleep = 1000, process_sleep = 1000\<rparr>"

definition passive_init :: "nat \<Rightarrow> 'f dthr" where
  "passive_init fd = \<lparr>pc = P_LOOP, t_sock = Some fd, conn_fd = None, t_fp = None,
     t_ty = DATA_UNDEFINED, st = 0, accept_sleep = 1000, process_sleep = 1000\<rparr>"

definition block_step ::
  "('w, 'f) os \<Rightarrow> 'f dthr \<Rightarrow> nat \<Rightarrow> ('w, 'f) sess \<Rightarrow> ('w, 'f) sess" where
  "block_step os t conn s =
     (case t_fp t of
        None \<Rightarrow> s\<lparr>fault := Some NULL_FILE\<rparr>
      | Some fp \<Rightarrow>
          (case process_block os conn (t_ty t) fp (process_sleep t) (ext s) of
             None \<Rightarrow> s\<lparr>thr := Some (t\<lparr>pc := T_HANGS\<rparr>)\<rparr>
           | Some (r, ps, w) \<Rightarrow>
               s\<lparr>ext := w, thr := Some (t\<lparr>st := r, process_sleep := ps,
                 pc := (if r \<noteq> 0 then T_CLOSE else pc t)\<rparr>)\<rparr>))"

text \<open>Socket and \<open>connect\<close> of the active mode.\<close>

definition connect_step :: "('w, 'f) os \<Rightarrow> 'f dthr \<Rightarrow> ('w, 'f) sess \<Rightarrow> ('w, 'f) sess" where
  "connect_step os t s =
     (case os_socket os (ext s) of
        (None, w1) \<Rightarrow>
          mark 425 ''Cannot establish connection: socket() failed.''
            (s\<lparr>ext := w1, thr := Some (t\<lparr>pc := T_CLOSE\<rparr>)\<rparr>)
      | (Some fd, w1) \<Rightarrow>
          (case os_connect os fd (addr (cl s)) (port (cl s)) w1 of
             (False, w2) \<Rightarrow>
               mark 425 ''Cannot establish connection.''
                 (s\<lparr>ext := w2, thr := Some (t\<lparr>conn_fd := Some fd, pc := T_CLOSE\<rparr>)\<rparr>)
           | (True, w2) \<Rightarrow>
               s\<lparr>ext := snd (os_nonblock os fd w2),
                 thr := Some (t\<lparr>conn_fd := Some fd, pc := A_LOOP\<rparr>)\<rparr>))"

text \<open>
  One pass of the loop of \<open>passive_data\<close> while it runs: accept a connection; with one, take up
  the file if there is one; move a block, or look whether the idle peer has gone.
\<close>

definition pasv_connected ::
  "('w, 'f) os \<Rightarrow> 'f dthr \<Rightarrow> nat \<Rightarrow> ('w, 'f) sess \<Rightarrow> ('w, 'f) sess" where
  "pasv_connected os t conn s =
     (let t1 = (if t_fp t = None then t\<lparr>t_fp := dat_fp (cl s), t_ty := dat_ty (cl s)\<rparr> else t) in
      if t_fp t1 \<noteq> None then block_step os t1 conn s
      else
        (case os_poll_hup os conn (ext s) of
           (False, w1) \<Rightarrow> s\<lparr>ext := w1, thr := Some t1\<rparr>
         | (True, w1) \<Rightarrow>
             (case os_peek_closed os conn w1 of
                (False, w2) \<Rightarrow> s\<lparr>ext := w2, thr := Some t1\<rparr>
              | (True, w2) \<Rightarrow>
                  s\<lparr>ext := os_close os conn w2, thr := Some (t1\<lparr>conn_fd := None\<rparr>)\<rparr>)))"

definition pasv_step :: "('w, 'f) os \<Rightarrow> 'f dthr \<Rightarrow> ('w, 'f) sess \<Rightarrow> ('w, 'f) sess" where
  "pasv_step os t s =
     (case conn_fd t of
        Some conn \<Rightarrow> pasv_connected os t conn s
      | None \<Rightarrow>
          (case os_accept os (the (t_sock t)) (ext s) of
             (AAgain, w1) \<Rightarrow>
               s\<lparr>ext := w1,
                 thr := Some (t\<lparr>accept_sleep := double_and_limit (accept_sleep t) 200000\<rparr>)\<rparr>
           | (AFail, w1) \<Rightarrow> s\<lparr>ext := w1, fault := Some (PANIC ''accept() failed'')\<rparr>
           | (AConn conn, w1) \<Rightarrow>
               pasv_connected os (t\<lparr>conn_fd := Some conn\<rparr>) conn (s\<lparr>ext := w1\<rparr>)))"

text \<open>\<open>cleanup\<close>: close what is open, then give up the file, then the state, then reply.\<close>

definition close_opt :: "('w, 'f) os \<Rightarrow> nat option \<Rightarrow> 'w \<Rightarrow> 'w" where
  "close_opt os fd w = (case fd of None \<Rightarrow> w | Some x \<Rightarrow> os_close os x w)"

definition close_file :: "('w, 'f) os \<Rightarrow> dat_type \<Rightarrow> 'f option \<Rightarrow> 'w \<Rightarrow> 'w" where
  "close_file os ty fp w =
     (case fp of None \<Rightarrow> w
      | Some f \<Rightarrow> if ty = DATA_SEND_PIPE then os_pclose os f w else os_fclose os f w)"

definition cleanup_close :: "('w, 'f) os \<Rightarrow> 'f dthr \<Rightarrow> ('w, 'f) sess \<Rightarrow> ('w, 'f) sess" where
  "cleanup_close os t s =
     s\<lparr>ext := close_file os (t_ty t) (t_fp t) (close_opt os (conn_fd t) (close_opt os (t_sock t) (ext s))),
       cl := (cl s)\<lparr>dat_fp := None\<rparr>, thr := Some (t\<lparr>pc := T_READY\<rparr>)\<rparr>"

definition cleanup_ready :: "'f dthr \<Rightarrow> ('w, 'f) sess \<Rightarrow> ('w, 'f) sess" where
  "cleanup_ready t s = s\<lparr>cl := (cl s)\<lparr>state := CLST_READY\<rparr>, thr := Some (t\<lparr>pc := T_MARK\<rparr>)\<rparr>"

definition cleanup_mark :: "'f dthr \<Rightarrow> ('w, 'f) sess \<Rightarrow> ('w, 'f) sess" where
  "cleanup_mark t s =
     (let s' = s\<lparr>thr := Some (t\<lparr>pc := T_DONE\<rparr>)\<rparr> in
      if st t = 1 then mark 226 ''Transfer complete.'' s'
      else if st t = 2 then mark 451 ''Transfer aborted by internal I/O error.'' s'
      else s')"

definition thr_step :: "('w, 'f) os \<Rightarrow> ('w, 'f) sess \<Rightarrow> ('w, 'f) sess option" where
  "thr_step os s =
     (case thr s of
        None \<Rightarrow> None
      | Some t \<Rightarrow>
          (case pc t of
             A_START \<Rightarrow> Some (s\<lparr>thr := Some (t\<lparr>pc := A_WAIT\<rparr>)\<rparr>)
           | A_WAIT \<Rightarrow> None
           | A_WOKEN \<Rightarrow>
               Some (s\<lparr>thr := Some (t\<lparr>t_fp := dat_fp (cl s), t_ty := dat_ty (cl s), pc := A_CONNECT\<rparr>)\<rparr>)
           | A_CONNECT \<Rightarrow> Some (connect_step os t s)
           | A_LOOP \<Rightarrow>
               if \<not> thr_dat_running (cl s) then Some (s\<lparr>thr := Some (t\<lparr>pc := T_CLOSE\<rparr>)\<rparr>)
               else (case conn_fd t of None \<Rightarrow> None | Some conn \<Rightarrow> Some (block_step os t conn s))
           | P_LOOP \<Rightarrow>
               if \<not> thr_dat_running (cl s) then Some (s\<lparr>thr := Some (t\<lparr>pc := T_CLOSE\<rparr>)\<rparr>)
               else Some (pasv_step os t s)
           | T_HANGS \<Rightarrow> None
           | T_CLOSE \<Rightarrow> Some (cleanup_close os t s)
           | T_READY \<Rightarrow> Some (cleanup_ready t s)
           | T_MARK \<Rightarrow> Some (cleanup_mark t s)
           | T_DONE \<Rightarrow> None))"

text \<open>\<open>pthread_join\<close>: the control thread waits while the data thread runs to its end.\<close>

partial_function (option) thr_join :: "('w, 'f) os \<Rightarrow> ('w, 'f) sess \<Rightarrow> ('w, 'f) sess option" where
  "thr_join os s =
     (case thr s of
        None \<Rightarrow> Some (s\<lparr>fault := Some BAD_JOIN\<rparr>)
      | Some t \<Rightarrow>
          if pc t = T_DONE then Some (s\<lparr>thr := None\<rparr>)
          else (case thr_step os s of None \<Rightarrow> None | Some s' \<Rightarrow> thr_join os s'))"

text \<open>\<open>client_close_threads\<close> of \<^verbatim>\<open>client.c\<close>.\<close>

definition client_close_threads :: "('w, 'f) os \<Rightarrow> ('w, 'f) sess \<Rightarrow> ('w, 'f) sess option" where
  "client_close_threads os s =
     (if thr_dat_running (cl s) then
        map_option (upd_cl (\<lambda>c. c\<lparr>state := CLST_READY\<rparr>))
          (thr_join os (upd_cl (\<lambda>c. c\<lparr>thr_dat_running := False\<rparr>) s))
      else Some s)"

text \<open>\<open>signal_file\<close>: the file is handed over; a thread that already waits is woken.\<close>

definition signal_file :: "'f \<Rightarrow> dat_type \<Rightarrow> ('w, 'f) sess \<Rightarrow> ('w, 'f) sess" where
  "signal_file f ty s =
     s\<lparr>cl := (cl s)\<lparr>dat_fp := Some f, dat_ty := ty\<rparr>,
       thr := map_option (\<lambda>t. if pc t = A_WAIT then t\<lparr>pc := A_WOKEN\<rparr> else t) (thr s)\<rparr>"

section \<open>What the thread leaves alone\<close>

text \<open>The thread writes \<open>state\<close> and \<open>dat_fp\<close> of the shared record, and nothing else of it.\<close>

definition same_client :: "'f client \<Rightarrow> 'f client \<Rightarrow> bool" where
  "same_client c c' \<longleftrightarrow> c' = c\<lparr>state := state c', dat_fp := dat_fp c'\<rparr>"

lemma same_client_refl [simp]: "same_client c c"
  by (simp add: same_client_def)

lemma same_client_trans: "same_client a b \<Longrightarrow> same_client b c \<Longrightarrow> same_client a c"
  unfolding same_client_def by (cases a; cases b; cases c) simp

lemma same_client_sel:
  assumes "same_client c c'"
  shows "wd c' = wd c" and "rnfr c' = rnfr c" and "username c' = username c"
    and "rest_offs c' = rest_offs c" and "thr_dat_running c' = thr_dat_running c"
    and "dat_ty c' = dat_ty c" and "sock_ctl c' = sock_ctl c" and "buf_ctl c' = buf_ctl c"
    and "addr c' = addr c" and "port c' = port c"
  using assms unfolding same_client_def by (cases c; cases c'; simp)+

lemma same_client_upd [simp]:
  "same_client c (c\<lparr>dat_fp := x\<rparr>)" "same_client c (c\<lparr>state := y\<rparr>)"
  by (simp_all add: same_client_def)

lemmas step_defs = thr_step_def pasv_step_def pasv_connected_def block_step_def
  connect_step_def cleanup_close_def cleanup_ready_def cleanup_mark_def

lemma block_step_cl [simp]: "cl (block_step os t conn s) = cl s" "out (block_step os t conn s) = out s"
  by (simp_all add: block_step_def split: option.splits prod.splits)

lemma connect_step_cl [simp]: "cl (connect_step os t s) = cl s"
  by (simp add: connect_step_def split: option.splits prod.splits bool.splits)

lemma pasv_connected_cl [simp]:
  "cl (pasv_connected os t conn s) = cl s" "out (pasv_connected os t conn s) = out s"
  by (simp_all add: pasv_connected_def Let_def split: prod.splits bool.splits)

lemma pasv_step_cl [simp]: "cl (pasv_step os t s) = cl s" "out (pasv_step os t s) = out s"
  by (simp_all add: pasv_step_def split: option.splits prod.splits accepted.splits)

text \<open>One case per line of \<open>thr_step\<close>.\<close>

lemma thr_stepE:
  assumes "thr_step os s = Some s'"
  obtains
    (start) t where "thr s = Some t" and "pc t = A_START"
      and "s' = s\<lparr>thr := Some (t\<lparr>pc := A_WAIT\<rparr>)\<rparr>"
  | (woken) t where "thr s = Some t" and "pc t = A_WOKEN"
      and "s' = s\<lparr>thr := Some (t\<lparr>t_fp := dat_fp (cl s), t_ty := dat_ty (cl s), pc := A_CONNECT\<rparr>)\<rparr>"
  | (connect) t where "thr s = Some t" and "pc t = A_CONNECT" and "s' = connect_step os t s"
  | (stop) t where "thr s = Some t" and "pc t = A_LOOP \<or> pc t = P_LOOP" and "\<not> thr_dat_running (cl s)"
      and "s' = s\<lparr>thr := Some (t\<lparr>pc := T_CLOSE\<rparr>)\<rparr>"
  | (actv) t conn where "thr s = Some t" and "pc t = A_LOOP" and "thr_dat_running (cl s)"
      and "conn_fd t = Some conn" and "s' = block_step os t conn s"
  | (pasv) t where "thr s = Some t" and "pc t = P_LOOP" and "thr_dat_running (cl s)"
      and "s' = pasv_step os t s"
  | (close) t where "thr s = Some t" and "pc t = T_CLOSE" and "s' = cleanup_close os t s"
  | (ready) t where "thr s = Some t" and "pc t = T_READY" and "s' = cleanup_ready t s"
  | (mark) t where "thr s = Some t" and "pc t = T_MARK" and "s' = cleanup_mark t s"
proof (cases "thr s")
  case None
  with assms show thesis by (simp add: thr_step_def)
next
  case (Some t)
  note step = assms [unfolded thr_step_def Some option.case]
  show thesis
  proof (cases "pc t")
    case A_START
    with step show thesis by (intro that(1) [OF Some]) simp_all
  next
    case A_WOKEN
    with step show thesis by (intro that(2) [OF Some]) simp_all
  next
    case A_CONNECT
    with step show thesis by (intro that(3) [OF Some]) simp_all
  next
    case A_LOOP
    show thesis
    proof (cases "thr_dat_running (cl s)")
      case True
      with step A_LOOP obtain conn where "conn_fd t = Some conn" "s' = block_step os t conn s"
        by (cases "conn_fd t") simp_all
      with A_LOOP True show thesis by (intro that(5) [OF Some])
    qed (use step A_LOOP in \<open>intro that(4) [OF Some]; simp\<close>)
  next
    case P_LOOP
    show thesis
    proof (cases "thr_dat_running (cl s)")
      case True
      with step P_LOOP show thesis by (intro that(6) [OF Some]) simp_all
    qed (use step P_LOOP in \<open>intro that(4) [OF Some]; simp\<close>)
  next
    case T_CLOSE
    with step show thesis by (intro that(7) [OF Some]) simp_all
  next
    case T_READY
    with step show thesis by (intro that(8) [OF Some]) simp_all
  next
    case T_MARK
    with step show thesis by (intro that(9) [OF Some]) simp_all
  qed (use step in simp_all)
qed

lemma thr_step_has_thread: "thr_step os s = Some s' \<Longrightarrow> \<exists>t. thr s = Some t"
  by (erule thr_stepE) auto

lemma cleanup_cl [simp]:
  "cl (cleanup_close os t s) = (cl s)\<lparr>dat_fp := None\<rparr>"
  "cl (cleanup_ready t s) = (cl s)\<lparr>state := CLST_READY\<rparr>"
  "cl (cleanup_mark t s) = cl s"
  by (simp_all add: cleanup_close_def cleanup_ready_def cleanup_mark_def Let_def)

lemma cleanup_thr [simp]:
  "thr (cleanup_close os t s) = Some (t\<lparr>pc := T_READY\<rparr>)"
  "thr (cleanup_ready t s) = Some (t\<lparr>pc := T_MARK\<rparr>)"
  "thr (cleanup_mark t s) = Some (t\<lparr>pc := T_DONE\<rparr>)"
  by (simp_all add: cleanup_close_def cleanup_ready_def cleanup_mark_def Let_def)

lemma cleanup_fault [simp]:
  "fault (cleanup_close os t s) = fault s"
  "fault (cleanup_ready t s) = fault s"
  "fault (cleanup_mark t s) = fault s"
  by (simp_all add: cleanup_close_def cleanup_ready_def cleanup_mark_def Let_def)

lemma thr_step_same_client: "thr_step os s = Some s' \<Longrightarrow> same_client (cl s) (cl s')"
  by (erule thr_stepE) auto

section \<open>Joining the thread\<close>

text \<open>A property that every step keeps holds after the join.\<close>

lemma thr_join_rule:
  assumes ret: "thr_join os s = Some s'"
    and step: "\<And>s s'. P s \<Longrightarrow> thr_step os s = Some s' \<Longrightarrow> P s'"
    and fin: "\<And>s. P s \<Longrightarrow> P (s\<lparr>thr := None\<rparr>)"
    and bad: "\<And>s. P s \<Longrightarrow> thr s = None \<Longrightarrow> P (s\<lparr>fault := Some BAD_JOIN\<rparr>)"
    and start: "P s"
  shows "P s'"
proof -
  have "(\<forall>s s'. P s \<longrightarrow> thr_step os s = Some s' \<longrightarrow> P s') \<longrightarrow> P s \<longrightarrow> P s'"
  proof (rule thr_join.raw_induct [where P = "\<lambda>os s s'.
      (\<forall>s s'. P s \<longrightarrow> thr_step os s = Some s' \<longrightarrow> P s') \<longrightarrow> P s \<longrightarrow> P s'", OF _ ret])
    fix f os s s'
    assume IH: "\<And>os s s'. f os s = Some s' \<Longrightarrow>
        (\<forall>s s'. P s \<longrightarrow> thr_step os s = Some s' \<longrightarrow> P s') \<longrightarrow> P s \<longrightarrow> P s'"
      and eq: "(case thr s of None \<Rightarrow> Some (s\<lparr>fault := Some BAD_JOIN\<rparr>)
        | Some t \<Rightarrow> if pc t = T_DONE then Some (s\<lparr>thr := None\<rparr>)
            else (case thr_step os s of None \<Rightarrow> None | Some s' \<Rightarrow> f os s')) = Some s'"
    show "(\<forall>s s'. P s \<longrightarrow> thr_step os s = Some s' \<longrightarrow> P s') \<longrightarrow> P s \<longrightarrow> P s'"
    proof (intro impI)
      assume st': "\<forall>s s'. P s \<longrightarrow> thr_step os s = Some s' \<longrightarrow> P s'" and P: "P s"
      consider (none) "thr s = None" | (fin) t where "thr s = Some t" "pc t = T_DONE"
        | (run) t s1 where "thr s = Some t" "pc t \<noteq> T_DONE" "thr_step os s = Some s1" "f os s1 = Some s'"
        using eq by (auto split: option.splits if_splits)
      then show "P s'"
      proof cases
        case none
        with eq bad [OF P] show ?thesis by simp
      next
        case fin
        with eq assms(3) [OF P] show ?thesis by simp
      next
        case run
        with st' P have "P s1" by blast
        with IH [OF run(4)] st' show ?thesis by blast
      qed
    qed
  qed
  with step start show ?thesis by blast
qed

lemma thr_join_same_client:
  assumes "thr_join os s = Some s'"
  shows "same_client (cl s) (cl s')"
  by (rule thr_join_rule [OF assms, where P = "\<lambda>x. same_client (cl s) (cl x)"])
     (auto dest: thr_step_same_client intro: same_client_trans)

lemma thr_join_no_thread: "thr_join os s = Some s' \<Longrightarrow> thr s' = None"
proof -
  assume ret: "thr_join os s = Some s'"
  show "thr s' = None"
  proof (rule thr_join.raw_induct [where P = "\<lambda>os s s'. thr s' = None", OF _ ret])
    fix f os s s'
    assume IH: "\<And>os s s'. f os s = Some s' \<Longrightarrow> thr s' = None"
      and eq: "(case thr s of None \<Rightarrow> Some (s\<lparr>fault := Some BAD_JOIN\<rparr>)
        | Some t \<Rightarrow> if pc t = T_DONE then Some (s\<lparr>thr := None\<rparr>)
            else (case thr_step os s of None \<Rightarrow> None | Some s' \<Rightarrow> f os s')) = Some s'"
    show "thr s' = None" using eq IH by (auto split: option.splits if_splits)
  qed
qed

lemma close_threads_same_client:
  assumes "client_close_threads os s = Some s'"
  shows "same_client (cl s) ((cl s')\<lparr>thr_dat_running := thr_dat_running (cl s)\<rparr>)"
    and "\<not> thr_dat_running (cl s')"
proof -
  have "same_client (cl s) ((cl s')\<lparr>thr_dat_running := thr_dat_running (cl s)\<rparr>) \<and> \<not> thr_dat_running (cl s')"
  proof (cases "thr_dat_running (cl s)")
    case True
    with assms obtain x where x: "thr_join os (upd_cl (\<lambda>c. c\<lparr>thr_dat_running := False\<rparr>) s) = Some x"
      and s': "s' = upd_cl (\<lambda>c. c\<lparr>state := CLST_READY\<rparr>) x"
      by (auto simp: client_close_threads_def)
    from thr_join_same_client [OF x] s' True show ?thesis
      by (cases "cl s"; cases "cl x") (simp add: same_client_def)
  next
    case False
    with assms show ?thesis by (cases "cl s") (simp add: client_close_threads_def same_client_def)
  qed
  then show "same_client (cl s) ((cl s')\<lparr>thr_dat_running := thr_dat_running (cl s)\<rparr>)"
    and "\<not> thr_dat_running (cl s')" by auto
qed

section \<open>Stopping the thread\<close>

text \<open>
  \<open>joins os s d\<close>: a join from \<open>s\<close> returns, with no thread left, no new fault, and \<open>d\<close> in
  \<open>dat_fp\<close>.
\<close>

definition joins :: "('w, 'f) os \<Rightarrow> ('w, 'f) sess \<Rightarrow> 'f option \<Rightarrow> bool" where
  "joins os s d \<longleftrightarrow>
     (\<exists>s'. thr_join os s = Some s' \<and> thr s' = None \<and> fault s' = fault s \<and> dat_fp (cl s') = d)"

lemma joins_done: "thr s = Some t \<Longrightarrow> pc t = T_DONE \<Longrightarrow> joins os s (dat_fp (cl s))"
  by (simp add: joins_def thr_join.simps)

lemma joins_step:
  "thr s = Some t \<Longrightarrow> pc t \<noteq> T_DONE \<Longrightarrow> thr_step os s = Some s1 \<Longrightarrow> fault s1 = fault s \<Longrightarrow>
     joins os s1 d \<Longrightarrow> joins os s d"
  by (simp add: joins_def thr_join.simps [of os s])

lemma joins_mark:
  assumes "thr s = Some t" and "pc t = T_MARK"
  shows "joins os s (dat_fp (cl s))"
proof (rule joins_step)
  show "thr_step os s = Some (cleanup_mark t s)" using assms by (simp add: thr_step_def)
  have "thr (cleanup_mark t s) = Some (t\<lparr>pc := T_DONE\<rparr>)" and "cl (cleanup_mark t s) = cl s"
    by (simp_all add: cleanup_mark_def Let_def)
  then show "joins os (cleanup_mark t s) (dat_fp (cl s))"
    using joins_done [of "cleanup_mark t s" "t\<lparr>pc := T_DONE\<rparr>" os] by simp
qed (use assms in \<open>auto simp: cleanup_mark_def Let_def\<close>)

lemma joins_ready:
  assumes "thr s = Some t" and "pc t = T_READY"
  shows "joins os s (dat_fp (cl s))"
proof (rule joins_step)
  show "thr_step os s = Some (cleanup_ready t s)" using assms by (simp add: thr_step_def)
  show "joins os (cleanup_ready t s) (dat_fp (cl s))"
    using joins_mark [of "cleanup_ready t s" "t\<lparr>pc := T_MARK\<rparr>" os] by (simp add: cleanup_ready_def)
qed (use assms in \<open>auto simp: cleanup_ready_def\<close>)

lemma joins_close:
  assumes "thr s = Some t" and "pc t = T_CLOSE"
  shows "joins os s None"
proof (rule joins_step)
  show "thr_step os s = Some (cleanup_close os t s)" using assms by (simp add: thr_step_def)
  show "joins os (cleanup_close os t s) None"
    using joins_ready [of "cleanup_close os t s" "t\<lparr>pc := T_READY\<rparr>" os]
    by (simp add: cleanup_close_def)
qed (use assms in \<open>auto simp: cleanup_close_def\<close>)

lemma joins_loop:
  assumes "thr s = Some t" and "pc t = A_LOOP \<or> pc t = P_LOOP" and "\<not> thr_dat_running (cl s)"
  shows "joins os s None"
proof (rule joins_step)
  let ?s = "s\<lparr>thr := Some (t\<lparr>pc := T_CLOSE\<rparr>)\<rparr>"
  show "thr_step os s = Some ?s" using assms by (auto simp: thr_step_def)
  show "joins os ?s None"
    using joins_close [of ?s "t\<lparr>pc := T_CLOSE\<rparr>" os] by simp
qed (use assms in auto)

lemma connect_step_ex:
  "\<exists>t'. thr (connect_step os t s) = Some t' \<and> (pc t' = T_CLOSE \<or> pc t' = A_LOOP)"
  by (auto simp: connect_step_def split: option.splits prod.splits bool.splits)

lemma connect_step_fault [simp]: "fault (connect_step os t s) = fault s"
  by (auto simp: connect_step_def split: option.splits prod.splits bool.splits)

lemma joins_connect:
  assumes "thr s = Some t" and "pc t = A_CONNECT" and "\<not> thr_dat_running (cl s)"
  shows "joins os s None"
proof (rule joins_step)
  show "thr_step os s = Some (connect_step os t s)" using assms by (simp add: thr_step_def)
  obtain t' where t': "thr (connect_step os t s) = Some t'" "pc t' = T_CLOSE \<or> pc t' = A_LOOP"
    using connect_step_ex by blast
  with assms(3) show "joins os (connect_step os t s) None"
    by (auto intro: joins_close joins_loop)
qed (use assms in auto)

lemma joins_woken:
  assumes "thr s = Some t" and "pc t = A_WOKEN" and "\<not> thr_dat_running (cl s)"
  shows "joins os s None"
proof (rule joins_step)
  let ?t = "t\<lparr>t_fp := dat_fp (cl s), t_ty := dat_ty (cl s), pc := A_CONNECT\<rparr>"
  show "thr_step os s = Some (s\<lparr>thr := Some ?t\<rparr>)" using assms by (simp add: thr_step_def)
  show "joins os (s\<lparr>thr := Some ?t\<rparr>) None"
    using joins_connect [of "s\<lparr>thr := Some ?t\<rparr>" ?t os] assms(3) by simp
qed (use assms in auto)

lemmas joins_intros = joins_done joins_mark joins_ready joins_close joins_loop joins_connect joins_woken

lemma join_waiting: "thr s = Some t \<Longrightarrow> pc t = A_WAIT \<Longrightarrow> thr_join os s = None"
  by (subst thr_join.simps) (simp add: thr_step_def)

lemma join_not_waited:
  assumes "thr s = Some t" and "pc t = A_START"
  shows "thr_join os s = None"
proof -
  let ?s = "s\<lparr>thr := Some (t\<lparr>pc := A_WAIT\<rparr>)\<rparr>"
  have "thr_join os s = thr_join os ?s"
    using assms by (subst thr_join.simps) (simp add: thr_step_def)
  with join_waiting [of ?s "t\<lparr>pc := A_WAIT\<rparr>" os] show ?thesis by simp
qed

lemma join_hangs: "thr s = Some t \<Longrightarrow> pc t = T_HANGS \<Longrightarrow> thr_join os s = None"
  by (subst thr_join.simps) (simp add: thr_step_def)

text \<open>
  The thread will not see \<open>thr_dat_running\<close> go false: it has no file yet, or is in a block that
  never returns.
\<close>

definition parked :: "'f dthr \<Rightarrow> bool" where
  "parked t \<longleftrightarrow> pc t = A_START \<or> pc t = A_WAIT"

definition unjoinable :: "'f dthr \<Rightarrow> bool" where
  "unjoinable t \<longleftrightarrow> parked t \<or> pc t = T_HANGS"

lemma close_threads_result:
  assumes "thr_dat_running (cl s)" and "thr s = Some t"
  shows "if unjoinable t then client_close_threads os s = None
    else \<exists>s'. client_close_threads os s = Some s' \<and> thr s' = None \<and>
      \<not> thr_dat_running (cl s') \<and> state (cl s') = CLST_READY \<and> fault s' = fault s \<and>
      dat_fp (cl s') =
        (if pc t = T_READY \<or> pc t = T_MARK \<or> pc t = T_DONE then dat_fp (cl s) else None)"
proof (cases "unjoinable t")
  case True
  let ?s = "upd_cl (\<lambda>c. c\<lparr>thr_dat_running := False\<rparr>) s"
  show ?thesis
    using True assms join_waiting [of ?s t os] join_not_waited [of ?s t os] join_hangs [of ?s t os]
    by (auto simp: client_close_threads_def unjoinable_def parked_def)
next
  case False
  let ?s = "upd_cl (\<lambda>c. c\<lparr>thr_dat_running := False\<rparr>) s"
  let ?d = "if pc t = T_READY \<or> pc t = T_MARK \<or> pc t = T_DONE then dat_fp (cl s) else None"
  have "joins os ?s ?d"
    using False assms joins_intros [of ?s t os] by (cases "pc t") (simp_all add: unjoinable_def parked_def)
  then obtain x where x: "thr_join os ?s = Some x" "thr x = None" "fault x = fault s" "dat_fp (cl x) = ?d"
    by (auto simp: joins_def)
  from thr_join_same_client [OF x(1)] have "\<not> thr_dat_running (cl x)"
    by (auto dest: same_client_sel(5))
  with x assms(1) False show ?thesis by (simp add: client_close_threads_def)
qed

text \<open>
  Stopping the data thread returns exactly when the thread is neither a port-mode one that still
  waits for a file (nothing signals \<open>cond_dat\<close> then, so \<open>pthread_join\<close> never returns: PORT
  followed by PORT, PASV or QUIT hangs) nor in a block that never returns. When it returns the session is ready, the thread is gone
  without a fault, and \<open>dat_fp\<close> is clear unless the thread had already given up its file.
\<close>

theorem close_threads_stops:
  assumes "thr_dat_running (cl s)" and "thr s = Some t"
  shows "if unjoinable t then client_close_threads os s = None
    else \<exists>s'. client_close_threads os s = Some s' \<and> thr s' = None \<and>
      \<not> thr_dat_running (cl s') \<and> state (cl s') = CLST_READY \<and> fault s' = fault s \<and>
      dat_fp (cl s') =
        (if pc t = T_READY \<or> pc t = T_MARK \<or> pc t = T_DONE then dat_fp (cl s) else None)"
  using assms by (rule close_threads_result)

text \<open>
  The back-off delays never overflow an \<open>int\<close> and never leave their range: a delay between
  1 and 200000 microseconds stays in it, grows until it reaches the limit, and its doubling fits
  32 bits.
\<close>

theorem double_and_limit_range:
  assumes "0 < x" and "x \<le> 200000"
  shows "x * 2 < 2 ^ 31 \<and> x \<le> double_and_limit x 200000 \<and> double_and_limit x 200000 \<le> 200000 \<and>
    (double_and_limit x 200000 = x \<longleftrightarrow> x = 200000)"
  using assms by (auto simp: double_and_limit_def Let_def)

theorem double_and_limit_range_witness:
  "(1000 :: int) * 2 < 2 ^ 31 \<and> 1000 \<le> double_and_limit 1000 200000 \<and>
    double_and_limit 1000 200000 \<le> 200000 \<and>
    (double_and_limit 1000 200000 = 1000 \<longleftrightarrow> (1000 :: int) = 200000)"
  by (rule double_and_limit_range) simp_all

end
