(* ===== verification/Commands.thy ===== *)
theory Commands
  imports DataThread CScan
begin

text \<open>
  The command handlers of the server, \<^verbatim>\<open>server/client_cmds.c\<close> and \<^verbatim>\<open>server/auth.h\<close>, one
  definition per handler, and \<open>process_command\<close>. A handler returns its result code and the
  session, or \<open>None\<close> when it waits in \<open>pthread_join\<close> for a thread that never ends.
\<close>

section \<open>Guards\<close>

type_synonym ('w, 'f) reply = "(cmd_result \<times> ('w, 'f) sess) option"

abbreviation DONE :: "('w, 'f) sess \<Rightarrow> ('w, 'f) reply" where
  "DONE s \<equiv> Some (CMD_RESULT_DONE, s)"

abbreviation SHUTDOWN :: "('w, 'f) sess \<Rightarrow> ('w, 'f) reply" where
  "SHUTDOWN s \<equiv> Some (CMD_RESULT_SHUTDOWN, s)"

definition user_auth :: "string \<Rightarrow> string \<Rightarrow> bool" where
  "user_auth user pass \<longleftrightarrow> user = ''qwq'' \<and> pass = ''quq''"

definition client_xfer_in_progress :: "('w, 'f) sess \<Rightarrow> bool" where
  "client_xfer_in_progress s \<longleftrightarrow> dat_fp (cl s) \<noteq> None"

text \<open>A guard that refuses gives the session after its reply.\<close>

definition ignore_if_xfer :: "('w, 'f) sess \<Rightarrow> ('w, 'f) sess option" where
  "ignore_if_xfer s =
     (if client_xfer_in_progress s then Some (mark 503 ''Data transfer in progress, ignored.'' s)
      else None)"

definition auth :: "('w, 'f) sess \<Rightarrow> ('w, 'f) sess option" where
  "auth s = (if state (cl s) < CLST_READY then Some (mark 530 ''Log in first.'' s) else None)"

definition data :: "('w, 'f) sess \<Rightarrow> ('w, 'f) sess option" where
  "data s =
     (if state (cl s) \<noteq> CLST_PORT \<and> state (cl s) \<noteq> CLST_PASV
      then Some (mark 425 ''Use PORT or PASV first.'' s) else None)"

fun guards :: "(('w, 'f) sess \<Rightarrow> ('w, 'f) sess option) list \<Rightarrow> ('w, 'f) sess \<Rightarrow> ('w, 'f) sess option" where
  "guards [] s = None"
| "guards (g # gs) s = (case g s of Some s' \<Rightarrow> Some s' | None \<Rightarrow> guards gs s)"

declare guards.simps [simp del]

definition guarded ::
  "(('w, 'f) sess \<Rightarrow> ('w, 'f) sess option) list \<Rightarrow> (('w, 'f) sess \<Rightarrow> ('w, 'f) reply) \<Rightarrow>
     ('w, 'f) sess \<Rightarrow> ('w, 'f) reply" where
  "guarded gs body s = (case guards gs s of Some s' \<Rightarrow> DONE s' | None \<Rightarrow> body s)"

text \<open>\<open>disconnect\<close> and \<open>full_path\<close>.\<close>

definition disconnect :: "string \<Rightarrow> ('w, 'f) sess \<Rightarrow> ('w, 'f) reply" where
  "disconnect str s = SHUTDOWN (mark 421 (str @ '' Shutting down connection.'') s)"

definition full_path ::
  "string \<Rightarrow> (string \<Rightarrow> ('w, 'f) reply) \<Rightarrow> ('w, 'f) sess \<Rightarrow> ('w, 'f) reply" where
  "full_path arg k s =
     (case path_cat (wd (cl s)) arg of
        Inl _ \<Rightarrow> DONE (mark 501 ''Argument is not a valid path.'' s)
      | Inr d \<Rightarrow> k d)"

definition quoted :: "string \<Rightarrow> string" where
  "quoted d = DQUOTE # d @ [DQUOTE]"

definition char0 :: "string \<Rightarrow> char" where
  "char0 s = (if s = [] then NUL else hd s)"

section \<open>Log-in and connection commands\<close>

definition handler_QUIT :: "('w, 'f) os \<Rightarrow> string \<Rightarrow> ('w, 'f) sess \<Rightarrow> ('w, 'f) reply" where
  "handler_QUIT os arg s = map_option (Pair CMD_RESULT_SHUTDOWN) (client_close_threads os s)"

definition handler_SYST :: "string \<Rightarrow> ('w, 'f) sess \<Rightarrow> ('w, 'f) reply" where
  "handler_SYST arg s = DONE (mark 215 ''UNIX Type: L8'' s)"

definition handler_TYPE :: "string \<Rightarrow> ('w, 'f) sess \<Rightarrow> ('w, 'f) reply" where
  "handler_TYPE arg = guarded [ignore_if_xfer] (\<lambda>s.
     if toupper (char0 arg) = CHR ''I'' then DONE (mark 200 ''Type set to I.'' s)
     else if toupper (char0 arg) = CHR ''A'' then
       DONE (mark 200 (''Type set to A.'' @ [LF] @ ''Note: no conversion is applied.'') s)
     else DONE (mark 504 ''Only ASCII mode (A) and image mode (I) are supported.'' s))"

definition handler_USER :: "string \<Rightarrow> ('w, 'f) sess \<Rightarrow> ('w, 'f) reply" where
  "handler_USER arg = guarded [ignore_if_xfer] (\<lambda>s.
     if CLST_READY \<le> state (cl s) then DONE (mark 503 ''Already logged in.'' s)
     else
       let s1 = upd_cl (\<lambda>c. c\<lparr>state := CLST_WAIT_PASS\<rparr>) s in
       if arg = ''anonymous'' then
         DONE (mark 331 (''Logging in anonymously. '' @ ''Send your complete e-mail address as password.'')
           (upd_cl (\<lambda>c. c\<lparr>username := None\<rparr>) s1))
       else
         DONE (mark 331 ''Please specify the password.''
           (upd_cl (\<lambda>c. c\<lparr>username := Some arg\<rparr>) s1)))"

definition logged_in :: "string \<Rightarrow> ('w, 'f) sess \<Rightarrow> ('w, 'f) reply" where
  "logged_in user s =
     DONE (markf 230 (''Logged in. Welcome, '' @ user @ ''.'')
       (upd_cl (\<lambda>c. c\<lparr>state := CLST_READY\<rparr>) s))"

definition handler_PASS :: "string \<Rightarrow> ('w, 'f) sess \<Rightarrow> ('w, 'f) reply" where
  "handler_PASS arg = guarded [ignore_if_xfer] (\<lambda>s.
     if state (cl s) < CLST_WAIT_PASS then DONE (mark 503 ''Specify your username first.'' s)
     else if CLST_READY \<le> state (cl s) then DONE (mark 503 ''Already logged in.'' s)
     else
       (case username (cl s) of
          None \<Rightarrow>
            if 64 < length arg then DONE (mark 530 ''Password too long (more than 64 characters).'' s)
            else
              let u = ''anonymous/'' @ arg
              in logged_in u (upd_cl (\<lambda>c. c\<lparr>username := Some u\<rparr>) s)
        | Some u \<Rightarrow>
            if \<not> user_auth u arg then DONE (mark 530 ''Incorrect username/password.'' s)
            else logged_in u s))"

text \<open>The tail of \<open>handler_PORT\<close> from \<open>Create thread\<close> on.\<close>

definition port_start :: "('w, 'f) os \<Rightarrow> u32 list \<Rightarrow> ('w, 'f) sess \<Rightarrow> ('w, 'f) reply" where
  "port_start os x s =
     (let s2 = upd_cl (\<lambda>c. c\<lparr>thr_dat_running := True\<rparr>) s in
      case os_pthread_create os (ext s2) of
        (False, w1) \<Rightarrow> disconnect ''Cannot enter port mode: pthread_create() failed.'' (s2\<lparr>ext := w1\<rparr>)
      | (True, w1) \<Rightarrow>
          let p = ucast (x ! 4 * 256 + x ! 5);
              s3 = upd_cl (\<lambda>c. c\<lparr>state := CLST_PORT, addr := map ucast (take 4 x), port := p\<rparr>)
                     (s2\<lparr>ext := w1, thr := Some active_init\<rparr>)
          in DONE (markf 200 (''Will connect to '' @ dec (unat (x ! 0)) @ ''.'' @ dec (unat (x ! 1))
               @ ''.'' @ dec (unat (x ! 2)) @ ''.'' @ dec (unat (x ! 3)) @ '':'' @ dec (unat p) @ [LF]) s3))"

definition handler_PORT :: "('w, 'f) os \<Rightarrow> string \<Rightarrow> ('w, 'f) sess \<Rightarrow> ('w, 'f) reply" where
  "handler_PORT os arg = guarded [ignore_if_xfer, auth] (\<lambda>s.
     case client_close_threads os s of None \<Rightarrow> None | Some s1 \<Rightarrow>
       (case scan_address arg of
          None \<Rightarrow> DONE (mark 501 ''Incorrect address format.'' s1)
        | Some x \<Rightarrow> port_start os x s1))"

text \<open>\<open>ephemeral\<close>, \<open>fcntl\<close> and \<open>listen\<close>, stopping at the first that fails.\<close>

definition pasv_listen :: "('w, 'f) os \<Rightarrow> nat \<Rightarrow> 'w \<Rightarrow> (u8 list \<times> nat) option \<times> 'w" where
  "pasv_listen os sock w =
     (case ephemeral os sock w of
        (Inl _, w1) \<Rightarrow> (None, w1)
      | (Inr (a, fd), w1) \<Rightarrow>
          (case os_nonblock os fd w1 of
             (False, w2) \<Rightarrow> (None, w2)
           | (True, w2) \<Rightarrow>
               (case os_listen os fd w2 of
                  (False, w3) \<Rightarrow> (None, w3)
                | (True, w3) \<Rightarrow> (Some (a, fd), w3))))"

text \<open>The tail of \<open>handler_PASV\<close> from the change of state on.\<close>

definition pasv_start ::
  "('w, 'f) os \<Rightarrow> u8 list \<Rightarrow> nat \<Rightarrow> ('w, 'f) sess \<Rightarrow> ('w, 'f) reply" where
  "pasv_start os a fd s =
     (let s2 = upd_cl (\<lambda>c. c\<lparr>state := CLST_PASV, thr_dat_running := True\<rparr>) s in
      case os_pthread_create os (ext s2) of
        (False, w2) \<Rightarrow> disconnect ''Cannot enter passive mode: pthread_create() failed.'' (s2\<lparr>ext := w2\<rparr>)
      | (True, w2) \<Rightarrow>
          DONE (markf 227 (''Entering Passive Mode ('' @ commas (map (\<lambda>i. dec (unat (a ! i))) [0..<6])
            @ '')'') (s2\<lparr>ext := w2, thr := Some (passive_init fd)\<rparr>)))"

definition handler_PASV :: "('w, 'f) os \<Rightarrow> string \<Rightarrow> ('w, 'f) sess \<Rightarrow> ('w, 'f) reply" where
  "handler_PASV os arg = guarded [ignore_if_xfer, auth] (\<lambda>s.
     case client_close_threads os s of None \<Rightarrow> None | Some s1 \<Rightarrow>
       (case pasv_listen os (sock_ctl (cl s1)) (ext s1) of
          (None, w1) \<Rightarrow>
            disconnect ''Cannot enter passive mode: cannot start data connection.'' (s1\<lparr>ext := w1\<rparr>)
        | (Some (a, fd), w1) \<Rightarrow> pasv_start os a fd (s1\<lparr>ext := w1\<rparr>)))"

section \<open>Directory commands\<close>

definition handler_CWD :: "('w, 'f) os \<Rightarrow> string \<Rightarrow> ('w, 'f) sess \<Rightarrow> ('w, 'f) reply" where
  "handler_CWD os arg = guarded [ignore_if_xfer, auth] (\<lambda>s.
     full_path arg (\<lambda>d.
       if \<not> path_exists (os_lstat os (ext s)) d PATH_REQUIREMENT_DIR then
         DONE (markf 550 (''Directory '' @ quoted d @ '' does not exist.'') s)
       else
         DONE (markf 250 (''Working directory changed to '' @ quoted d @ ''.'')
           (upd_cl (\<lambda>c. c\<lparr>wd := d\<rparr>) s))) s)"

definition handler_PWD :: "string \<Rightarrow> ('w, 'f) sess \<Rightarrow> ('w, 'f) reply" where
  "handler_PWD arg = guarded [ignore_if_xfer, auth] (\<lambda>s.
     DONE (markf 257 (''Working directory is '' @ quoted (wd (cl s)) @ ''.'') s))"

definition handler_MKD :: "('w, 'f) os \<Rightarrow> string \<Rightarrow> ('w, 'f) sess \<Rightarrow> ('w, 'f) reply" where
  "handler_MKD os arg = guarded [ignore_if_xfer, auth] (\<lambda>s.
     full_path arg (\<lambda>d.
       case os_mkdir os (tl d) (ext s) of
         (Some e, w1) \<Rightarrow>
           DONE (markf 550 (''Cannot create directory '' @ quoted d @ '' ('' @ e @ '').'') (s\<lparr>ext := w1\<rparr>))
       | (None, w1) \<Rightarrow> DONE (markf 250 (''Directory '' @ quoted d @ '' created.'') (s\<lparr>ext := w1\<rparr>))) s)"

text \<open>
  \<open>mark_dir\<close>: when the working directory is the one removed or renamed (\<open>cmp\<close>), it moves to
  the parent of \<open>d\<close>; the empty string stands for the \<open>NULL\<close> of a \<open>path_cat\<close> that fails.
\<close>

definition mark_dir :: "string \<Rightarrow> string \<Rightarrow> string \<Rightarrow> ('w, 'f) sess \<Rightarrow> ('w, 'f) sess" where
  "mark_dir msg cmp d s =
     (if wd (cl s) = cmp then
        let d_up = (case path_cat d ''..'' of Inr u \<Rightarrow> u | Inl _ \<Rightarrow> [])
        in markf 250 (msg @ '' Working directory changed to '' @ quoted d_up @ ''.'')
             (upd_cl (\<lambda>c. c\<lparr>wd := d_up\<rparr>) s)
      else markf 250 msg s)"

definition handler_RMD :: "('w, 'f) os \<Rightarrow> string \<Rightarrow> ('w, 'f) sess \<Rightarrow> ('w, 'f) reply" where
  "handler_RMD os arg = guarded [ignore_if_xfer, auth] (\<lambda>s.
     full_path arg (\<lambda>d.
       if length d = 1 then DONE (mark 550 ''Cannot remove root directory.'' s)
       else case os_rmdir os (tl d) (ext s) of
         (Some e, w1) \<Rightarrow>
           DONE (markf 550 (''Cannot remove directory '' @ quoted d @ '' ('' @ e @ '').'') (s\<lparr>ext := w1\<rparr>))
       | (None, w1) \<Rightarrow>
           DONE (mark_dir (''Directory '' @ quoted d @ '' removed.'') d d (s\<lparr>ext := w1\<rparr>))) s)"

definition handler_RNFR :: "('w, 'f) os \<Rightarrow> string \<Rightarrow> ('w, 'f) sess \<Rightarrow> ('w, 'f) reply" where
  "handler_RNFR os arg = guarded [ignore_if_xfer, auth] (\<lambda>s.
     full_path arg (\<lambda>d.
       if length d = 1 then DONE (mark 550 ''Cannot rename root directory.'' s)
       else if \<not> path_exists (os_lstat os (ext s)) d PATH_REQUIREMENT_NONE then
         DONE (markf 550 (''Path '' @ quoted d @ '' does not exist.'') s)
       else DONE (markf 250 (''Renaming '' @ quoted d @ ''.'') (upd_cl (\<lambda>c. c\<lparr>rnfr := Some d\<rparr>) s))) s)"

definition handler_RNTO :: "('w, 'f) os \<Rightarrow> string \<Rightarrow> ('w, 'f) sess \<Rightarrow> ('w, 'f) reply" where
  "handler_RNTO os arg = guarded [ignore_if_xfer, auth] (\<lambda>s.
     case rnfr (cl s) of
       None \<Rightarrow> DONE (mark 503 ''Use RNFR first.'' s)
     | Some from \<Rightarrow>
         let s1 = upd_cl (\<lambda>c. c\<lparr>rnfr := None\<rparr>) s in
         full_path arg (\<lambda>d.
           if length d = 1 then DONE (mark 550 ''Cannot rename to root directory.'' s1)
           else case os_rename os (tl from) (tl d) (ext s1) of
             (Some e, w1) \<Rightarrow>
               DONE (markf 550 (''Cannot rename '' @ quoted from @ '' to '' @ quoted d @ '' ('' @ e @ '').'')
                 (s1\<lparr>ext := w1\<rparr>))
           | (None, w1) \<Rightarrow>
               DONE (mark_dir (''Renamed '' @ quoted from @ '' to '' @ quoted d @ ''.'') from d
                 (s1\<lparr>ext := w1\<rparr>))) s1)"

definition handler_DELE :: "('w, 'f) os \<Rightarrow> string \<Rightarrow> ('w, 'f) sess \<Rightarrow> ('w, 'f) reply" where
  "handler_DELE os arg = guarded [ignore_if_xfer, auth] (\<lambda>s.
     full_path arg (\<lambda>d.
       if length d = 1 then DONE (mark 550 ''Cannot rename root directory.'' s)
       else if \<not> path_exists (os_lstat os (ext s)) d PATH_REQUIREMENT_REGULAR then
         DONE (markf 550 (''File '' @ quoted d @ '' does not exist.'') s)
       else case os_unlink os (tl d) (ext s) of
         (Some e, w1) \<Rightarrow> DONE (markf 550 (''Cannot delete '' @ quoted d @ '' ('' @ e @ '').'') (s\<lparr>ext := w1\<rparr>))
       | (None, w1) \<Rightarrow> DONE (markf 250 (''Deleted '' @ quoted d @ ''.'') (s\<lparr>ext := w1\<rparr>))) s)"

section \<open>Data commands\<close>

text \<open>
  LIST, RETR and STOR end with \<open>signal_file\<close>; up to there they are a stage that has replied
  or has a file open, so that the data thread can be scheduled in between.
\<close>

datatype ('w, 'f) stage = Replied "('w, 'f) sess" | Opened 'f dat_type "('w, 'f) sess"

definition staged ::
  "(('w, 'f) sess \<Rightarrow> ('w, 'f) stage) \<Rightarrow> ('w, 'f) sess \<Rightarrow> ('w, 'f) stage" where
  "staged body s =
     (case guards [ignore_if_xfer, auth, data] s of Some s' \<Rightarrow> Replied s' | None \<Rightarrow> body s)"

fun finish_stage :: "('w, 'f) stage \<Rightarrow> ('w, 'f) reply" where
  "finish_stage (Replied s) = DONE s"
| "finish_stage (Opened f ty s) = DONE (signal_file f ty s)"

definition list_cmd :: "string \<Rightarrow> string" where
  "list_cmd d = ''ls -lH '' @ tl d"

definition open_LIST :: "('w, 'f) os \<Rightarrow> string \<Rightarrow> ('w, 'f) sess \<Rightarrow> ('w, 'f) stage" where
  "open_LIST os arg = staged (\<lambda>s.
     case os_popen os (list_cmd (wd (cl s))) (ext s) of
       (None, w1) \<Rightarrow> Replied (mark 550 ''Internal error. Cannot list.'' (s\<lparr>ext := w1\<rparr>))
     | (Some f, w1) \<Rightarrow>
         Opened f DATA_SEND_PIPE
           (mark 150 ''Directory listing is being sent over the data connection.'' (s\<lparr>ext := w1\<rparr>)))"

definition open_RETR :: "('w, 'f) os \<Rightarrow> string \<Rightarrow> ('w, 'f) sess \<Rightarrow> ('w, 'f) stage" where
  "open_RETR os arg = staged (\<lambda>s.
     case path_cat (wd (cl s)) arg of
       Inl _ \<Rightarrow> Replied (mark 501 ''Argument is not a valid path.'' s)
     | Inr d \<Rightarrow>
         if \<not> path_exists (os_lstat os (ext s)) d PATH_REQUIREMENT_REGULAR then
           Replied (markf 550 (''File '' @ quoted d @ '' does not exist.'') s)
         else case os_fopen os (tl d) ''r'' (ext s) of
           (None, w1) \<Rightarrow> Replied (mark 550 ''Internal error. Cannot retrieve file.'' (s\<lparr>ext := w1\<rparr>))
         | (Some f, w1) \<Rightarrow>
             Opened f DATA_SEND_FILE
               (mark 150 ''File contents are being sent over the data connection.''
                 (upd_cl (\<lambda>c. c\<lparr>rest_offs := 0\<rparr>)
                   (s\<lparr>ext := os_fseek os f (rest_offs (cl s)) w1\<rparr>))))"

definition open_STOR :: "('w, 'f) os \<Rightarrow> string \<Rightarrow> ('w, 'f) sess \<Rightarrow> ('w, 'f) stage" where
  "open_STOR os arg = staged (\<lambda>s.
     case path_cat (wd (cl s)) arg of
       Inl _ \<Rightarrow> Replied (mark 501 ''Argument is not a valid path.'' s)
     | Inr d \<Rightarrow>
         let s1 = upd_cl (\<lambda>c. c\<lparr>rest_offs := 0\<rparr>)
                    (s\<lparr>ext := os_truncate os (tl d) (rest_offs (cl s)) (ext s)\<rparr>) in
         (case os_fopen os (tl d) ''a'' (ext s1) of
            (None, w1) \<Rightarrow> Replied (mark 550 ''Cannot write to file.'' (s1\<lparr>ext := w1\<rparr>))
          | (Some f, w1) \<Rightarrow>
              Opened f DATA_RECV_FILE
                (mark 150 ''Send file contents over the data connection.'' (s1\<lparr>ext := w1\<rparr>))))"

definition handler_LIST :: "('w, 'f) os \<Rightarrow> string \<Rightarrow> ('w, 'f) sess \<Rightarrow> ('w, 'f) reply" where
  "handler_LIST os arg s = finish_stage (open_LIST os arg s)"

definition handler_RETR :: "('w, 'f) os \<Rightarrow> string \<Rightarrow> ('w, 'f) sess \<Rightarrow> ('w, 'f) reply" where
  "handler_RETR os arg s = finish_stage (open_RETR os arg s)"

definition handler_STOR :: "('w, 'f) os \<Rightarrow> string \<Rightarrow> ('w, 'f) sess \<Rightarrow> ('w, 'f) reply" where
  "handler_STOR os arg s = finish_stage (open_STOR os arg s)"

definition handler_REST :: "string \<Rightarrow> ('w, 'f) sess \<Rightarrow> ('w, 'f) reply" where
  "handler_REST arg = guarded [ignore_if_xfer, auth] (\<lambda>s.
     case scan_zd arg of
       None \<Rightarrow> DONE (mark 501 ''Invalid mark. Expected an integer.'' s)
     | Some (offs, _) \<Rightarrow>
         DONE (markf 350 (''Restart position accepted ('' @ sdec (sint offs) @ '').'')
           (upd_cl (\<lambda>c. c\<lparr>rest_offs := offs\<rparr>) s)))"

definition handler_ABOR :: "('w, 'f) os \<Rightarrow> string \<Rightarrow> ('w, 'f) sess \<Rightarrow> ('w, 'f) reply" where
  "handler_ABOR os arg s =
     (if client_xfer_in_progress s then
        let ty = dat_ty (cl s) in
        (case client_close_threads os s of
           None \<Rightarrow> None
         | Some s1 \<Rightarrow>
             DONE (mark 226 (if ty = DATA_RECV_FILE then ''Transfer aborted. Partial data written.''
               else ''Transfer aborted.'') s1))
      else DONE (mark 225 ''No transfer in progress.'' s))"

section \<open>process_command\<close>

definition process_command ::
  "('w, 'f) os \<Rightarrow> string \<Rightarrow> string \<Rightarrow> ('w, 'f) sess \<Rightarrow> ('w, 'f) reply" where
  "process_command os verb arg s =
     (if verb = ''QUIT'' then handler_QUIT os arg s
      else if verb = ''SYST'' then handler_SYST arg s
      else if verb = ''TYPE'' then handler_TYPE arg s
      else if verb = ''USER'' then handler_USER arg s
      else if verb = ''PASS'' then handler_PASS arg s
      else if verb = ''PORT'' then handler_PORT os arg s
      else if verb = ''PASV'' then handler_PASV os arg s
      else if verb = ''CWD'' then handler_CWD os arg s
      else if verb = ''PWD'' then handler_PWD arg s
      else if verb = ''MKD'' then handler_MKD os arg s
      else if verb = ''RMD'' then handler_RMD os arg s
      else if verb = ''RNFR'' then handler_RNFR os arg s
      else if verb = ''RNTO'' then handler_RNTO os arg s
      else if verb = ''DELE'' then handler_DELE os arg s
      else if verb = ''LIST'' then handler_LIST os arg s
      else if verb = ''REST'' then handler_REST arg s
      else if verb = ''RETR'' then handler_RETR os arg s
      else if verb = ''STOR'' then handler_STOR os arg s
      else if verb = ''ABOR'' then handler_ABOR os arg s
      else DONE (mark 202 (snprintf 64 (''Unknown command '' @ quoted verb)) s))"

end
