(* ===== verification/SessionInv.thy ===== *)
theory SessionInv
  imports Commands
begin

text \<open>
  The invariant of a server session and its preservation by every command handler, by the data
  thread and by stopping it. The operating system is arbitrary throughout.
\<close>

section \<open>The invariant\<close>

text \<open>
  The working directory and the pending rename source are canonical paths (the latter not the
  root); a data thread exists exactly while \<open>thr_dat_running\<close> is set; a client that has not
  logged in has no thread, no file, no pending rename, no restart offset and is in the root; one
  that has logged in has a name.
\<close>

definition paths_ok :: "'f client \<Rightarrow> bool" where
  "paths_ok c \<longleftrightarrow>
     canonical (wd c) \<and> (\<forall>p. rnfr c = Some p \<longrightarrow> canonical p \<and> p \<noteq> ''/'')"

definition fresh :: "'f client \<Rightarrow> bool" where
  "fresh c \<longleftrightarrow>
     \<not> thr_dat_running c \<and> dat_fp c = None \<and> rnfr c = None \<and> wd c = ''/'' \<and> rest_offs c = 0"

definition login_ok :: "'f client \<Rightarrow> bool" where
  "login_ok c \<longleftrightarrow>
     (state c < CLST_READY \<longrightarrow> fresh c) \<and> (CLST_READY \<le> state c \<longrightarrow> username c \<noteq> None)"

definition sess_inv :: "('w, 'f) sess \<Rightarrow> bool" where
  "sess_inv s \<longleftrightarrow>
     paths_ok (cl s) \<and> login_ok (cl s) \<and> (thr_dat_running (cl s) \<longleftrightarrow> thr s \<noteq> None)"

lemma login_okI: "CLST_READY \<le> state c \<Longrightarrow> username c \<noteq> None \<Longrightarrow> login_ok c"
  by (simp add: login_ok_def leD)

lemma login_ok_name: "login_ok c \<Longrightarrow> CLST_READY \<le> state c \<Longrightarrow> username c \<noteq> None"
  by (simp add: login_ok_def)

lemma login_ok_running: "login_ok c \<Longrightarrow> thr_dat_running c \<Longrightarrow> CLST_READY \<le> state c"
  by (cases "CLST_READY \<le> state c") (simp_all add: login_ok_def fresh_def not_le)

text \<open>The texts of replies play no part here: the simplifier does not look into them.\<close>

lemma mark_weak_cong: "s = s' \<Longrightarrow> mark c m s = mark c m s'"
  and markf_weak_cong: "s = s' \<Longrightarrow> markf c m s = markf c m s'"
  by simp_all

declare mark_weak_cong [cong] markf_weak_cong [cong]

text \<open>One reply and nothing else.\<close>

definition replied :: "('w, 'f) sess \<Rightarrow> ('w, 'f) sess \<Rightarrow> bool" where
  "replied s s' \<longleftrightarrow>
     cl s' = cl s \<and> thr s' = thr s \<and> ext s' = ext s \<and> fault s' = fault s \<and>
     (\<exists>p. out s' = out s @ [p])"

lemma replied_mark [simp, intro]: "replied s (mark c m s)" "replied s (markf c m s)"
  by (simp_all add: replied_def)

lemma sess_inv_cong: "cl s' = cl s \<Longrightarrow> thr s' = thr s \<Longrightarrow> sess_inv s' \<longleftrightarrow> sess_inv s"
  by (simp add: sess_inv_def)

lemma sess_inv_mark [simp]: "sess_inv (mark c m s) \<longleftrightarrow> sess_inv s"
  and sess_inv_markf [simp]: "sess_inv (markf c m s) \<longleftrightarrow> sess_inv s"
  and sess_inv_ext [simp]: "sess_inv (s\<lparr>ext := w\<rparr>) \<longleftrightarrow> sess_inv s"
  by (rule sess_inv_cong; simp)+

lemma sess_inv_replied: "replied s s' \<Longrightarrow> sess_inv s \<Longrightarrow> sess_inv s'"
  using sess_inv_cong [of s' s] by (simp add: replied_def)

section \<open>The data thread\<close>

lemma block_step_thr: "thr s \<noteq> None \<Longrightarrow> thr (block_step os t conn s) \<noteq> None"
  by (simp add: block_step_def split: option.splits prod.splits)

lemma pasv_connected_thr: "thr s \<noteq> None \<Longrightarrow> thr (pasv_connected os t conn s) \<noteq> None"
  by (simp add: pasv_connected_def Let_def block_step_thr del: not_None_eq split: prod.splits bool.splits)

lemma pasv_step_thr: "thr s \<noteq> None \<Longrightarrow> thr (pasv_step os t s) \<noteq> None"
  by (simp add: pasv_step_def pasv_connected_thr del: not_None_eq
      split: option.splits prod.splits accepted.splits)

lemma thr_step_thr: "thr_step os s = Some s' \<Longrightarrow> thr s' \<noteq> None"
proof (erule thr_stepE)
  fix t
  assume "s' = connect_step os t s"
  with connect_step_ex [of os t s] show "thr s' \<noteq> None" by auto
next
  fix t conn
  assume "thr s = Some t" and "s' = block_step os t conn s"
  then show "thr s' \<noteq> None" using block_step_thr [of s] by simp
next
  fix t
  assume "thr s = Some t" and "s' = pasv_step os t s"
  then show "thr s' \<noteq> None" using pasv_step_thr [of s] by simp
qed simp_all

lemma thr_step_state: "thr_step os s = Some s' \<Longrightarrow> state (cl s') = state (cl s) \<or> state (cl s') = CLST_READY"
  by (erule thr_stepE) auto

lemma paths_ok_same: "same_client c c' \<Longrightarrow> paths_ok c' \<longleftrightarrow> paths_ok c"
  by (simp add: paths_ok_def same_client_sel)

lemma thr_step_inv:
  assumes inv: "sess_inv s" and st: "thr_step os s = Some s'"
  shows "sess_inv s'"
proof -
  have same: "same_client (cl s) (cl s')" using st by (rule thr_step_same_client)
  have run: "thr_dat_running (cl s)" using inv thr_step_has_thread [OF st] by (auto simp: sess_inv_def)
  have ready: "CLST_READY \<le> state (cl s)" and name: "username (cl s) \<noteq> None"
    using inv run login_ok_running login_ok_name by (auto simp: sess_inv_def)
  have "CLST_READY \<le> state (cl s')" using thr_step_state [OF st] ready by (metis order_refl)
  then have "login_ok (cl s')" using name by (intro login_okI) (simp_all add: same_client_sel(3) [OF same])
  with inv same run thr_step_thr [OF st] paths_ok_same [OF same] show ?thesis
    by (simp add: sess_inv_def same_client_sel)
qed

lemma close_threads_inv:
  assumes inv: "sess_inv s" and ret: "client_close_threads os s = Some s'"
  shows "sess_inv s' \<and> \<not> thr_dat_running (cl s') \<and> thr s' = None \<and> wd (cl s') = wd (cl s)"
proof (cases "thr_dat_running (cl s)")
  case False
  with inv ret show ?thesis by (simp add: client_close_threads_def sess_inv_def)
next
  case True
  let ?s = "upd_cl (\<lambda>c. c\<lparr>thr_dat_running := False\<rparr>) s"
  from True ret obtain x where x: "thr_join os ?s = Some x"
    and s': "s' = upd_cl (\<lambda>c. c\<lparr>state := CLST_READY\<rparr>) x"
    by (auto simp: client_close_threads_def)
  from x have same: "same_client (cl ?s) (cl x)" by (rule thr_join_same_client)
  have "username (cl s) \<noteq> None"
    using inv True login_ok_running login_ok_name by (auto simp: sess_inv_def)
  then have "login_ok (cl s')"
    using s' by (intro login_okI) (simp_all add: same_client_sel(3) [OF same])
  with same_client_sel [OF same] s' inv thr_join_no_thread [OF x] show ?thesis
    by (simp add: sess_inv_def paths_ok_def)
qed

section \<open>The handlers\<close>

lemma guards_two [simp]:
  "guards [ignore_if_xfer] s = None \<longleftrightarrow> dat_fp (cl s) = None"
  "guards [ignore_if_xfer, auth] s = None \<longleftrightarrow> dat_fp (cl s) = None \<and> CLST_READY \<le> state (cl s)"
  "guards [ignore_if_xfer, auth, data] s = None \<longleftrightarrow>
     dat_fp (cl s) = None \<and> (state (cl s) = CLST_PORT \<or> state (cl s) = CLST_PASV)"
  by (auto simp: guards.simps ignore_if_xfer_def auth_def data_def client_xfer_in_progress_def not_less)

lemma guard_reply:
  "g \<in> {ignore_if_xfer, auth, data} \<Longrightarrow> g s = Some s1 \<Longrightarrow> replied s s1"
  by (auto simp: ignore_if_xfer_def auth_def data_def split: if_splits)

lemma guards_reply:
  "set gs \<subseteq> {ignore_if_xfer, auth, data} \<Longrightarrow> guards gs s = Some s1 \<Longrightarrow> replied s s1"
proof (induction gs)
  case (Cons g gs)
  show ?case
  proof (cases "g s")
    case (Some x)
    have "g \<in> {ignore_if_xfer, auth, data}" using Cons.prems(1) by auto
    from guard_reply [OF this Some] Some Cons.prems(2) show ?thesis by (simp add: guards.simps)
  qed (use Cons in \<open>auto simp: guards.simps\<close>)
qed (simp add: guards.simps)

lemma guardedE:
  assumes "guarded gs body s = Some (r, s')" and "set gs \<subseteq> {ignore_if_xfer, auth, data}"
  obtains (refused) "replied s s'" and "r = CMD_RESULT_DONE"
  | (passed) "guards gs s = None" and "body s = Some (r, s')"
  using assms guards_reply [OF assms(2), of s]
  by (auto simp: guarded_def split: option.splits)

lemmas guarded1E [consumes 1, case_names refused passed] =
  guardedE [where gs = "[ignore_if_xfer]", simplified]

lemmas guarded2E [consumes 1, case_names refused passed] =
  guardedE [where gs = "[ignore_if_xfer, auth]", simplified]

lemma full_pathE:
  assumes "full_path arg k s = Some (r, s')" and "canonical (wd (cl s))"
  obtains (refused) "replied s s'" and "r = CMD_RESULT_DONE"
  | (passed) d where "path_cat (wd (cl s)) arg = Inr d" and "canonical d" and "k d = Some (r, s')"
  using assms by (auto simp: full_path_def split: sum.splits intro: path_cat_canonical)

lemma canonical_length_1: "canonical d \<Longrightarrow> length d \<noteq> 1 \<longleftrightarrow> d \<noteq> ''/''"
proof
  assume c: "canonical d" and "d \<noteq> ''/''"
  show "length d \<noteq> 1"
  proof
    assume "length d = 1"
    then obtain x where "d = [x]" by (cases d) auto
    with c \<open>d \<noteq> ''/''\<close> show False using canonical_rooted [OF c] by (simp add: rooted_def)
  qed
qed auto

lemma inv_paths: "sess_inv s \<Longrightarrow> canonical (wd (cl s))"
  by (simp add: sess_inv_def paths_ok_def)

text \<open>Updates of a logged-in session that keep the invariant.\<close>

lemma inv_set_wd:
  "sess_inv s \<Longrightarrow> CLST_READY \<le> state (cl s) \<Longrightarrow> canonical d \<Longrightarrow>
     sess_inv (upd_cl (\<lambda>c. c\<lparr>wd := d\<rparr>) s)"
  by (auto simp: sess_inv_def paths_ok_def login_ok_def)

lemma inv_set_rnfr:
  "sess_inv s \<Longrightarrow> CLST_READY \<le> state (cl s) \<Longrightarrow>
     (\<forall>d. x = Some d \<longrightarrow> canonical d \<and> d \<noteq> ''/'') \<Longrightarrow> sess_inv (upd_cl (\<lambda>c. c\<lparr>rnfr := x\<rparr>) s)"
  by (auto simp: sess_inv_def paths_ok_def login_ok_def)

lemma inv_set_rest:
  "sess_inv s \<Longrightarrow> CLST_READY \<le> state (cl s) \<Longrightarrow> sess_inv (upd_cl (\<lambda>c. c\<lparr>rest_offs := n\<rparr>) s)"
  by (auto simp: sess_inv_def paths_ok_def login_ok_def)

lemma inv_mark_dir:
  assumes "sess_inv s" and "CLST_READY \<le> state (cl s)" and "canonical d"
  shows "sess_inv (mark_dir msg cmp d s)"
proof -
  obtain u where "path_cat d ''..'' = Inr u" "canonical u"
    using paths.up_good [OF assms(3)] by blast
  with assms inv_set_wd [of s u] show ?thesis by (simp add: mark_dir_def Let_def)
qed

lemma inv_signal_file:
  "sess_inv s \<Longrightarrow> CLST_READY \<le> state (cl s) \<Longrightarrow> sess_inv (signal_file f ty s)"
  by (auto simp: sess_inv_def paths_ok_def login_ok_def signal_file_def)

lemma inv_TYPE: "sess_inv s \<Longrightarrow> handler_TYPE arg s = Some (r, s') \<Longrightarrow> sess_inv s'"
  unfolding handler_TYPE_def
  by (erule guarded1E) (auto intro: sess_inv_replied split: if_splits)

lemma inv_USER:
  assumes inv: "sess_inv s" and ret: "handler_USER arg s = Some (r, s')"
  shows "sess_inv s'"
  using ret [unfolded handler_USER_def]
proof (cases rule: guarded1E)
  case passed
  have "sess_inv (upd_cl (\<lambda>c. c\<lparr>username := u\<rparr>) (upd_cl (\<lambda>c. c\<lparr>state := CLST_WAIT_PASS\<rparr>) s))"
    if "state (cl s) < CLST_READY" for u
    using inv that by (auto simp: sess_inv_def paths_ok_def login_ok_def fresh_def)
  with passed inv show ?thesis
    by (auto simp: Let_def not_le split: if_splits)
qed (use inv in \<open>auto intro: sess_inv_replied\<close>)

lemma inv_logged_in:
  assumes "sess_inv s" and "username (cl s) \<noteq> None" and "logged_in u s = Some (r, s')"
  shows "sess_inv s'"
proof -
  have "s' = markf 230 (''Logged in. Welcome, '' @ u @ ''.'') (upd_cl (\<lambda>c. c\<lparr>state := CLST_READY\<rparr>) s)"
    using assms(3) by (simp add: logged_in_def)
  with assms(1,2) show ?thesis by (simp add: sess_inv_def paths_ok_def login_ok_def)
qed

lemma inv_set_username:
  "sess_inv s \<Longrightarrow> sess_inv (upd_cl (\<lambda>c. c\<lparr>username := Some u\<rparr>) s)"
  by (auto simp: sess_inv_def paths_ok_def login_ok_def fresh_def)

lemma inv_PASS:
  assumes inv: "sess_inv s" and ret: "handler_PASS arg s = Some (r, s')"
  shows "sess_inv s'"
  using ret [unfolded handler_PASS_def]
proof (cases rule: guarded1E)
  case passed
  show ?thesis
  proof (cases "username (cl s)")
    case None
    with passed inv inv_logged_in [OF inv_set_username [OF inv]] show ?thesis
      by (auto simp: Let_def split: if_splits)
  next
    case (Some u)
    with passed inv inv_logged_in [OF inv] show ?thesis
      by (auto split: if_splits)
  qed
qed (use inv in \<open>auto intro: sess_inv_replied\<close>)

lemma close_threads_ready:
  "client_close_threads os s = Some s' \<Longrightarrow> CLST_READY \<le> state (cl s) \<Longrightarrow> CLST_READY \<le> state (cl s')"
  by (auto simp: client_close_threads_def split: if_splits)

lemma inv_new_thread:
  assumes "sess_inv s" and "CLST_READY \<le> state (cl s)" and "thr s1 = Some t"
    and "cl s1 = (cl s)\<lparr>thr_dat_running := True, state := m, addr := a, port := p\<rparr>"
    and "m = CLST_PORT \<or> m = CLST_PASV"
  shows "sess_inv s1"
  using assms by (auto simp: sess_inv_def paths_ok_def login_ok_def)

lemma inv_port_start:
  assumes inv: "sess_inv s" and ready: "CLST_READY \<le> state (cl s)"
    and ret: "port_start os x s = Some (CMD_RESULT_DONE, s')"
  shows "sess_inv s'"
proof -
  obtain ok w where c: "os_pthread_create os (ext s) = (ok, w)" by (cases "os_pthread_create os (ext s)")
  let ?s = "upd_cl (\<lambda>c. c\<lparr>state := CLST_PORT, addr := map ucast (take 4 x), port := ucast (x ! 4 * 256 + x ! 5)\<rparr>)
       (upd_cl (\<lambda>c. c\<lparr>thr_dat_running := True\<rparr>) s\<lparr>ext := w, thr := Some active_init\<rparr>)"
  have "sess_inv ?s"
    using inv ready
    by (rule inv_new_thread [where s = s and t = active_init and m = CLST_PORT and
          a = "map ucast (take 4 x)" and p = "ucast (x ! 4 * 256 + x ! 5)"]) simp_all
  with ret c show ?thesis
    by (cases ok) (auto simp: port_start_def disconnect_def Let_def)
qed

lemma inv_pasv_start:
  assumes inv: "sess_inv s" and ready: "CLST_READY \<le> state (cl s)"
    and ret: "pasv_start os a fd s = Some (CMD_RESULT_DONE, s')"
  shows "sess_inv s'"
proof -
  obtain ok w where c: "os_pthread_create os (ext s) = (ok, w)" by (cases "os_pthread_create os (ext s)")
  let ?s = "upd_cl (\<lambda>c. c\<lparr>state := CLST_PASV, thr_dat_running := True\<rparr>) s
       \<lparr>ext := w, thr := Some (passive_init fd)\<rparr>"
  have "sess_inv ?s"
    using inv ready
    by (rule inv_new_thread [where s = s and t = "passive_init fd" and m = CLST_PASV and
          a = "addr (cl s)" and p = "port (cl s)"]) simp_all
  with ret c show ?thesis
    by (cases ok) (auto simp: pasv_start_def disconnect_def Let_def)
qed

lemma close_threads_inv_ready:
  assumes "sess_inv s" and "CLST_READY \<le> state (cl s)" and "client_close_threads os s = Some s1"
  shows "sess_inv s1" and "CLST_READY \<le> state (cl s1)"
  using close_threads_inv [OF assms(1,3)] close_threads_ready [OF assms(3,2)] by simp_all

lemma inv_PORT:
  assumes inv: "sess_inv s" and ret: "handler_PORT os arg s = Some (CMD_RESULT_DONE, s')"
  shows "sess_inv s'"
  using ret [unfolded handler_PORT_def]
proof (cases rule: guarded2E)
  case passed
  then obtain s1 where s1: "client_close_threads os s = Some s1" by (cases "client_close_threads os s") auto
  note inv1 = close_threads_inv_ready [OF inv conjunct2 [OF passed(1)] s1]
  from passed(2) s1 inv1 inv_port_start [OF inv1] show ?thesis
    by (cases "scan_address arg") auto
qed (use inv in \<open>auto intro: sess_inv_replied\<close>)

lemma inv_PASV:
  assumes inv: "sess_inv s" and ret: "handler_PASV os arg s = Some (CMD_RESULT_DONE, s')"
  shows "sess_inv s'"
  using ret [unfolded handler_PASV_def]
proof (cases rule: guarded2E)
  case passed
  then obtain s1 where s1: "client_close_threads os s = Some s1" by (cases "client_close_threads os s") auto
  note inv1 = close_threads_inv_ready [OF inv conjunct2 [OF passed(1)] s1]
  obtain l w where l: "pasv_listen os (sock_ctl (cl s1)) (ext s1) = (l, w)"
    by (cases "pasv_listen os (sock_ctl (cl s1)) (ext s1)")
  have "sess_inv (s1\<lparr>ext := w\<rparr>)" and "CLST_READY \<le> state (cl (s1\<lparr>ext := w\<rparr>))" using inv1 by simp_all
  note start = inv_pasv_start [OF this]
  show ?thesis
  proof (cases l)
    case None
    with passed(2) s1 l show ?thesis by (simp add: disconnect_def)
  next
    case (Some p)
    with passed(2) s1 l have "pasv_start os (fst p) (snd p) (s1\<lparr>ext := w\<rparr>) = Some (CMD_RESULT_DONE, s')"
      by (cases p) simp
    then show ?thesis by (rule start)
  qed
qed (use inv in \<open>auto intro: sess_inv_replied\<close>)

lemma inv_CWD:
  assumes inv: "sess_inv s" and ret: "handler_CWD os arg s = Some (r, s')"
  shows "sess_inv s'"
  using ret [unfolded handler_CWD_def]
proof (cases rule: guarded2E)
  case passed
  have ready: "CLST_READY \<le> state (cl s)" using passed(1) by simp
  from passed(2) inv_paths [OF inv] show ?thesis
  proof (cases rule: full_pathE)
    case (passed d)
    with inv inv_set_wd [OF inv ready passed(2)] show ?thesis by (auto split: if_splits)
  qed (use inv in \<open>auto intro: sess_inv_replied\<close>)
qed (use inv in \<open>auto intro: sess_inv_replied\<close>)

lemma inv_MKD:
  assumes inv: "sess_inv s" and ret: "handler_MKD os arg s = Some (r, s')"
  shows "sess_inv s'"
  using ret [unfolded handler_MKD_def]
proof (cases rule: guarded2E)
  case passed
  have ready: "CLST_READY \<le> state (cl s)" using passed(1) by simp
  from passed(2) inv_paths [OF inv] show ?thesis
  proof (cases rule: full_pathE)
    case (passed d)
    with inv show ?thesis by (auto split: option.splits prod.splits)
  qed (use inv in \<open>auto intro: sess_inv_replied\<close>)
qed (use inv in \<open>auto intro: sess_inv_replied\<close>)

lemma inv_RMD:
  assumes inv: "sess_inv s" and ret: "handler_RMD os arg s = Some (r, s')"
  shows "sess_inv s'"
  using ret [unfolded handler_RMD_def]
proof (cases rule: guarded2E)
  case passed
  have ready: "CLST_READY \<le> state (cl s)" using passed(1) by simp
  from passed(2) inv_paths [OF inv] show ?thesis
  proof (cases rule: full_pathE)
    case (passed d)
    have "sess_inv (mark_dir m d d (s\<lparr>ext := w\<rparr>))" for m w
      using inv ready passed(2) by (intro inv_mark_dir) simp_all
    with passed(3) inv show ?thesis by (auto split: option.splits prod.splits if_splits)
  qed (use inv in \<open>auto intro: sess_inv_replied\<close>)
qed (use inv in \<open>auto intro: sess_inv_replied\<close>)

lemma inv_RNFR:
  assumes inv: "sess_inv s" and ret: "handler_RNFR os arg s = Some (r, s')"
  shows "sess_inv s'"
  using ret [unfolded handler_RNFR_def]
proof (cases rule: guarded2E)
  case passed
  have ready: "CLST_READY \<le> state (cl s)" using passed(1) by simp
  from passed(2) inv_paths [OF inv] show ?thesis
  proof (cases rule: full_pathE)
    case (passed d)
    have "length d \<noteq> 1 \<Longrightarrow> sess_inv (upd_cl (\<lambda>c. c\<lparr>rnfr := Some d\<rparr>) s)"
      using inv ready passed(2) canonical_length_1 [OF passed(2)] by (intro inv_set_rnfr) simp_all
    with passed(3) inv show ?thesis by (auto split: if_splits)
  qed (use inv in \<open>auto intro: sess_inv_replied\<close>)
qed (use inv in \<open>auto intro: sess_inv_replied\<close>)

lemma inv_DELE:
  assumes inv: "sess_inv s" and ret: "handler_DELE os arg s = Some (r, s')"
  shows "sess_inv s'"
  using ret [unfolded handler_DELE_def]
proof (cases rule: guarded2E)
  case passed
  have ready: "CLST_READY \<le> state (cl s)" using passed(1) by simp
  from passed(2) inv_paths [OF inv] show ?thesis
  proof (cases rule: full_pathE)
    case (passed d)
    with inv show ?thesis by (auto split: option.splits prod.splits if_splits)
  qed (use inv in \<open>auto intro: sess_inv_replied\<close>)
qed (use inv in \<open>auto intro: sess_inv_replied\<close>)

lemma inv_RNTO:
  assumes inv: "sess_inv s" and ret: "handler_RNTO os arg s = Some (r, s')"
  shows "sess_inv s'"
  using ret [unfolded handler_RNTO_def]
proof (cases rule: guarded2E)
  case passed
  have ready: "CLST_READY \<le> state (cl s)" using passed(1) by simp
  let ?s = "upd_cl (\<lambda>c. c\<lparr>rnfr := None\<rparr>) s"
  have inv1: "sess_inv ?s" using inv ready by (intro inv_set_rnfr) simp_all
  show ?thesis
  proof (cases "rnfr (cl s)")
    case None
    with passed(2) inv show ?thesis by auto
  next
    case (Some old)
    from passed(2) [unfolded Some option.case Let_def] inv_paths [OF inv1] show ?thesis
    proof (cases rule: full_pathE)
      case (passed d)
      have "sess_inv (mark_dir m old d (?s\<lparr>ext := w\<rparr>))" for m w
        using inv1 ready passed(2) by (intro inv_mark_dir) simp_all
      with passed(3) inv1 show ?thesis by (auto split: option.splits prod.splits if_splits)
    qed (use inv1 in \<open>auto intro: sess_inv_replied\<close>)
  qed
qed (use inv in \<open>auto intro: sess_inv_replied\<close>)

section \<open>Data commands, REST, ABOR and QUIT\<close>

text \<open>What a stage of LIST, RETR or STOR keeps.\<close>

fun stage_inv :: "('w, 'f) stage \<Rightarrow> bool" where
  "stage_inv (Replied s) = sess_inv s"
| "stage_inv (Opened f ty s) = (sess_inv s \<and> CLST_READY \<le> state (cl s))"

lemma staged_inv:
  assumes "sess_inv s" and "CLST_READY \<le> state (cl s) \<Longrightarrow> stage_inv (body s)"
  shows "stage_inv (staged body s)"
proof (cases "guards [ignore_if_xfer, auth, data] s")
  case None
  then have "CLST_READY \<le> state (cl s)" by auto
  with None assms show ?thesis by (simp add: staged_def del: guards_two)
next
  case (Some s1)
  then have "replied s s1" by (rule guards_reply [rotated]) simp
  with Some assms(1) show ?thesis by (simp add: staged_def sess_inv_replied)
qed

lemma finish_stage_inv: "stage_inv x \<Longrightarrow> finish_stage x = Some (r, s') \<Longrightarrow> sess_inv s'"
  by (cases x) (auto intro: inv_signal_file)

lemma open_LIST_inv: "sess_inv s \<Longrightarrow> stage_inv (open_LIST os arg s)"
  unfolding open_LIST_def
  by (rule staged_inv) (auto split: option.splits prod.splits)

lemma inv_rest_ext:
  assumes "sess_inv s" and "CLST_READY \<le> state (cl s)"
  shows "sess_inv (upd_cl (\<lambda>c. c\<lparr>rest_offs := n\<rparr>) (s\<lparr>ext := w\<rparr>))"
  using inv_set_rest [of "s\<lparr>ext := w\<rparr>" n] assms by simp

lemma open_RETR_inv: "sess_inv s \<Longrightarrow> stage_inv (open_RETR os arg s)"
  unfolding open_RETR_def
  by (rule staged_inv) (auto simp: inv_rest_ext split: option.splits prod.splits sum.splits)

lemma open_STOR_inv: "sess_inv s \<Longrightarrow> stage_inv (open_STOR os arg s)"
  unfolding open_STOR_def Let_def
  by (rule staged_inv) (auto simp: inv_rest_ext split: option.splits prod.splits sum.splits)

lemma inv_REST:
  assumes inv: "sess_inv s" and ret: "handler_REST arg s = Some (r, s')"
  shows "sess_inv s'"
  using ret [unfolded handler_REST_def]
proof (cases rule: guarded2E)
  case passed
  have ready: "CLST_READY \<le> state (cl s)" using passed(1) by simp
  with passed(2) inv inv_set_rest [OF inv ready] show ?thesis
    by (auto split: option.splits prod.splits)
qed (use inv in \<open>auto intro: sess_inv_replied\<close>)

lemma inv_PWD: "sess_inv s \<Longrightarrow> handler_PWD arg s = Some (r, s') \<Longrightarrow> sess_inv s'"
  unfolding handler_PWD_def by (erule guarded2E) (auto intro: sess_inv_replied)

lemma inv_ABOR: "sess_inv s \<Longrightarrow> handler_ABOR os arg s = Some (r, s') \<Longrightarrow> sess_inv s'"
  by (auto simp: handler_ABOR_def Let_def dest: close_threads_inv split: if_splits option.splits)

lemma inv_QUIT: "sess_inv s \<Longrightarrow> handler_QUIT os arg s = Some (r, s') \<Longrightarrow> sess_inv s'"
  by (auto simp: handler_QUIT_def dest: close_threads_inv)

lemma inv_SYST: "sess_inv s \<Longrightarrow> handler_SYST arg s = Some (r, s') \<Longrightarrow> sess_inv s'"
  by (auto simp: handler_SYST_def)

lemma inv_LIST: "sess_inv s \<Longrightarrow> handler_LIST os arg s = Some (r, s') \<Longrightarrow> sess_inv s'"
  unfolding handler_LIST_def using finish_stage_inv open_LIST_inv by blast

lemma inv_RETR: "sess_inv s \<Longrightarrow> handler_RETR os arg s = Some (r, s') \<Longrightarrow> sess_inv s'"
  unfolding handler_RETR_def using finish_stage_inv open_RETR_inv by blast

lemma inv_STOR: "sess_inv s \<Longrightarrow> handler_STOR os arg s = Some (r, s') \<Longrightarrow> sess_inv s'"
  unfolding handler_STOR_def using finish_stage_inv open_STOR_inv by blast

lemmas inv_handlers =
  inv_QUIT inv_SYST inv_TYPE inv_USER inv_PASS inv_PORT inv_PASV inv_CWD inv_PWD inv_MKD inv_RMD
  inv_RNFR inv_RNTO inv_DELE inv_LIST inv_REST inv_RETR inv_STOR inv_ABOR

section \<open>The dispatcher\<close>

text \<open>
  A property of the result of every handler is one of the result of \<open>process_command\<close>.
\<close>

lemma if_eqE: "(if b then x else y) = z \<Longrightarrow> (b \<Longrightarrow> x = z \<Longrightarrow> P) \<Longrightarrow> (y = z \<Longrightarrow> P) \<Longrightarrow> P"
  by (cases b) simp_all

lemma process_command_cases:
  assumes "process_command os verb arg s = Some (r, s')"
  obtains (QUIT) "verb = ''QUIT''" and "handler_QUIT os arg s = Some (r, s')"
  | (SYST) "verb = ''SYST''" and "handler_SYST arg s = Some (r, s')"
  | (TYPE) "verb = ''TYPE''" and "handler_TYPE arg s = Some (r, s')"
  | (USER) "verb = ''USER''" and "handler_USER arg s = Some (r, s')"
  | (PASS) "verb = ''PASS''" and "handler_PASS arg s = Some (r, s')"
  | (PORT) "verb = ''PORT''" and "handler_PORT os arg s = Some (r, s')"
  | (PASV) "verb = ''PASV''" and "handler_PASV os arg s = Some (r, s')"
  | (CWD) "verb = ''CWD''" and "handler_CWD os arg s = Some (r, s')"
  | (PWD) "verb = ''PWD''" and "handler_PWD arg s = Some (r, s')"
  | (MKD) "verb = ''MKD''" and "handler_MKD os arg s = Some (r, s')"
  | (RMD) "verb = ''RMD''" and "handler_RMD os arg s = Some (r, s')"
  | (RNFR) "verb = ''RNFR''" and "handler_RNFR os arg s = Some (r, s')"
  | (RNTO) "verb = ''RNTO''" and "handler_RNTO os arg s = Some (r, s')"
  | (DELE) "verb = ''DELE''" and "handler_DELE os arg s = Some (r, s')"
  | (LIST) "verb = ''LIST''" and "handler_LIST os arg s = Some (r, s')"
  | (REST) "verb = ''REST''" and "handler_REST arg s = Some (r, s')"
  | (RETR) "verb = ''RETR''" and "handler_RETR os arg s = Some (r, s')"
  | (STOR) "verb = ''STOR''" and "handler_STOR os arg s = Some (r, s')"
  | (ABOR) "verb = ''ABOR''" and "handler_ABOR os arg s = Some (r, s')"
  | (other) m where "r = CMD_RESULT_DONE" and "s' = mark 202 m s"
proof -
  note ret = assms [unfolded process_command_def]
  show thesis
    by (rule if_eqE [OF ret], erule that(1), assumption, (erule if_eqE, erule that(1-19), assumption)+) (simp only: option.inject prod.inject, erule conjE, erule that(20) [OF sym sym])
qed

lemma process_command_inv:
  assumes "sess_inv s" and "process_command os verb arg s = Some (CMD_RESULT_DONE, s')"
  shows "sess_inv s'"
  by (cases rule: process_command_cases [OF assms(2)])
     (erule inv_handlers [OF assms(1)] | simp add: assms(1))+

declare mark_weak_cong [cong del] markf_weak_cong [cong del]

end
