(* ===== verification/DemoOs.thy ===== *)
theory DemoOs
  imports Commands
begin

text \<open>
  A small operating system in memory, an instance of the record of calls in Platform on which
  the witnesses of the development run: one directory tree with regular files, one data
  connection, writes of at most \<open>chunk + 1\<close> bytes, and reads answered from \<open>inbox\<close>. A \<open>FILE *\<close>
  is the path it was opened with; an open file has one position.
\<close>

record world =
  dirs :: "string list"
  files :: "(string \<times> string) list"
  pos :: nat
  at_eof :: bool
  sent :: string
  inbox :: "rd list"
  chunk :: nat
  threads :: bool

definition content :: "string \<Rightarrow> world \<Rightarrow> string" where
  "content p w = (case map_of (files w) p of Some c \<Rightarrow> c | None \<Rightarrow> [])"

lemma content_upd [simp]:
  "content p (w\<lparr>pos := n\<rparr>) = content p w" "content p (w\<lparr>at_eof := b\<rparr>) = content p w"
  "content p (w\<lparr>sent := x\<rparr>) = content p w" "content p (w\<lparr>inbox := rs\<rparr>) = content p w"
  by (simp_all add: content_def)

definition put :: "string \<Rightarrow> string \<Rightarrow> world \<Rightarrow> world" where
  "put p c w = w\<lparr>files := (p, c) # filter (\<lambda>x. fst x \<noteq> p) (files w)\<rparr>"

definition demo_lstat :: "world \<Rightarrow> string \<Rightarrow> file_kind option" where
  "demo_lstat w p =
     (if List.member (dirs w) p then Some KDir
      else if List.member (map fst (files w)) p then Some KRegular else None)"

definition demo_mkdir :: "string \<Rightarrow> world \<Rightarrow> string option \<times> world" where
  "demo_mkdir p w =
     (if demo_lstat w p \<noteq> None then (Some ''File exists'', w) else (None, w\<lparr>dirs := p # dirs w\<rparr>))"

definition demo_rmdir :: "string \<Rightarrow> world \<Rightarrow> string option \<times> world" where
  "demo_rmdir p w =
     (if demo_lstat w p = Some KDir then (None, w\<lparr>dirs := filter (\<lambda>x. x \<noteq> p) (dirs w)\<rparr>)
      else (Some ''No such file or directory'', w))"

definition demo_unlink :: "string \<Rightarrow> world \<Rightarrow> string option \<times> world" where
  "demo_unlink p w =
     (if demo_lstat w p = Some KRegular
      then (None, w\<lparr>files := filter (\<lambda>x. fst x \<noteq> p) (files w)\<rparr>)
      else (Some ''No such file or directory'', w))"

definition demo_rename :: "string \<Rightarrow> string \<Rightarrow> world \<Rightarrow> string option \<times> world" where
  "demo_rename p q w =
     (case demo_lstat w p of
        None \<Rightarrow> (Some ''No such file or directory'', w)
      | Some KRegular \<Rightarrow>
          (None, put q (content p w) (w\<lparr>files := filter (\<lambda>x. fst x \<noteq> p) (files w)\<rparr>))
      | Some _ \<Rightarrow> (None, w\<lparr>dirs := q # filter (\<lambda>x. x \<noteq> p) (dirs w)\<rparr>))"

definition demo_fopen :: "string \<Rightarrow> string \<Rightarrow> world \<Rightarrow> string option \<times> world" where
  "demo_fopen p m w =
     (if m = ''r'' \<and> demo_lstat w p = None then (None, w)
      else (Some p, (if demo_lstat w p = None then put p [] w else w)\<lparr>pos := 0, at_eof := False\<rparr>))"

definition demo_fread :: "string \<Rightarrow> nat \<Rightarrow> world \<Rightarrow> string \<times> world" where
  "demo_fread f n w =
     (let bs = take n (drop (pos w) (content f w))
      in (bs, w\<lparr>pos := pos w + length bs, at_eof := length bs < n\<rparr>))"

definition demo_read :: "nat \<Rightarrow> nat \<Rightarrow> world \<Rightarrow> rd \<times> world" where
  "demo_read fd n w =
     (case inbox w of [] \<Rightarrow> (Data [], w) | r # rs \<Rightarrow> (r, w\<lparr>inbox := rs\<rparr>))"

definition demo_write :: "nat \<Rightarrow> world \<Rightarrow> string \<Rightarrow> wr \<times> world" where
  "demo_write fd w bs =
     (Wrote (min (Suc (chunk w)) (length bs)), w\<lparr>sent := sent w @ take (Suc (chunk w)) bs\<rparr>)"

definition demo_os :: "(world, string) os" where
  "demo_os = \<lparr>
     os_lstat = demo_lstat, os_mkdir = demo_mkdir, os_rmdir = demo_rmdir,
     os_unlink = demo_unlink, os_rename = demo_rename,
     os_truncate = (\<lambda>p n w. if demo_lstat w p = Some KRegular
       then put p (take (unat n) (content p w)) w else w),
     os_fopen = demo_fopen,
     os_popen = (\<lambda>c w. (Some c, put c ''total 0'' w\<lparr>pos := 0, at_eof := False\<rparr>)),
     os_fseek = (\<lambda>f n w. w\<lparr>pos := unat n\<rparr>),
     os_fread = demo_fread,
     os_fwrite = (\<lambda>f bs w. put f (content f w @ bs) w),
     os_feof = (\<lambda>f. at_eof), os_ferror = (\<lambda>f w. False),
     os_fclose = (\<lambda>f w. w), os_pclose = (\<lambda>f w. w),
     os_pthread_create = (\<lambda>w. (threads w, w)),
     os_socket = (\<lambda>w. (Some 5, w)), os_bind = (\<lambda>fd w. (True, w)),
     os_listen = (\<lambda>fd w. (True, w)), os_nonblock = (\<lambda>fd w. (True, w)),
     os_getsockname = (\<lambda>fd w. ([127, 0, 0, 1], [7, 208])),
     os_connect = (\<lambda>fd a p w. (True, w)), os_accept = (\<lambda>fd w. (AConn 7, w)),
     os_read = demo_read, os_write = demo_write,
     os_poll_hup = (\<lambda>fd w. (False, w)), os_peek_closed = (\<lambda>fd w. (False, w)),
     os_close = (\<lambda>fd w. w), os_hangs = (\<lambda>c w. False)\<rparr>"

lemmas demo_simps =
  demo_os_def demo_lstat_def demo_mkdir_def demo_rmdir_def demo_unlink_def demo_rename_def
  demo_fopen_def demo_fread_def demo_read_def demo_write_def content_def put_def

definition world0 :: world where
  "world0 = \<lparr>dirs = [''pub''], files = [(''pub/a.txt'', ''hello, world'')], pos = 0,
     at_eof = False, sent = [], inbox = [], chunk = 4, threads = True\<rparr>"

text \<open>A client that has logged in, in the root.\<close>

definition client0 :: "string client" where
  "client0 = \<lparr>sock_ctl = 4, buf_ctl = rlb_init [], state = CLST_READY, username = Some ''qwq'',
     xferred_files_bytes = 0, xferred_files_num = 0, wd = ''/'', rnfr = None, rest_offs = 0,
     addr = [0, 0, 0, 0], port = 0, thr_dat_running = False, dat_fp = None,
     dat_ty = DATA_UNDEFINED\<rparr>"

definition sess0 :: "(world, string) sess" where
  "sess0 = \<lparr>cl = client0, thr = None, out = [], ext = world0, fault = None\<rparr>"

text \<open>The same client with a passive data thread that has accepted no connection yet.\<close>

definition sess_pasv :: "(world, string) sess" where
  "sess_pasv = sess0\<lparr>cl := client0\<lparr>state := CLST_PASV, thr_dat_running := True\<rparr>,
     thr := Some (passive_init 5)\<rparr>"

text \<open>The same client with an active data thread that waits for a file.\<close>

definition sess_port :: "(world, string) sess" where
  "sess_port = sess0\<lparr>cl := client0\<lparr>state := CLST_PORT, thr_dat_running := True,
     addr := [127, 0, 0, 1], port := 2000\<rparr>, thr := Some (active_init\<lparr>pc := A_WAIT\<rparr>)\<rparr>"

lemmas demo_sess = sess0_def sess_pasv_def sess_port_def client0_def world0_def

section \<open>A passive thread stops\<close>

theorem close_threads_stops_witness:
  "if unjoinable (passive_init 5 :: string dthr) then client_close_threads demo_os sess_pasv = None
    else \<exists>s'. client_close_threads demo_os sess_pasv = Some s' \<and> thr s' = None \<and>
      \<not> thr_dat_running (cl s') \<and> state (cl s') = CLST_READY \<and> fault s' = fault sess_pasv \<and>
      dat_fp (cl s') =
        (if pc (passive_init 5 :: string dthr) = T_READY \<or> pc (passive_init 5 :: string dthr) = T_MARK \<or>
            pc (passive_init 5 :: string dthr) = T_DONE then dat_fp (cl sess_pasv) else None)"
  by (rule close_threads_stops) (simp_all add: sess_pasv_def sess0_def client0_def)

end
