(* ===== verification/Replies.thy ===== *)
theory Replies
  imports SessionInv DemoOs
begin

text \<open>
  What a command sends and what it leaves alone: the replies of every handler, the lines the
  data thread adds while it is being stopped, and the parts of the session no handler touches.
\<close>

section \<open>Commands that only reply\<close>

definition reply_codes :: "nat list" where
  "reply_codes = [150, 200, 202, 215, 225, 226, 227, 230, 250, 257, 331, 350, 421, 425, 500, 501,
     503, 504, 530, 550]"

text \<open>Nothing has been sent and the data connection and the control connection are as before.\<close>

definition quiet :: "('w, 'f) sess \<Rightarrow> ('w, 'f) sess \<Rightarrow> bool" where
  "quiet s s' \<longleftrightarrow>
     thr s' = thr s \<and> fault s' = fault s \<and> out s' = out s \<and>
     thr_dat_running (cl s') = thr_dat_running (cl s) \<and> dat_fp (cl s') = dat_fp (cl s) \<and>
     dat_ty (cl s') = dat_ty (cl s) \<and> sock_ctl (cl s') = sock_ctl (cl s) \<and>
     buf_ctl (cl s') = buf_ctl (cl s)"

definition plain :: "('w, 'f) sess \<Rightarrow> ('w, 'f) sess \<Rightarrow> bool" where
  "plain s s' \<longleftrightarrow> (\<exists>x c m. quiet s x \<and> s' = mark c m x \<and> c \<in> set reply_codes)"

lemma quiet_refl [simp]: "quiet s s"
  by (simp add: quiet_def)

lemma quiet_upd [simp]:
  "quiet s (x\<lparr>ext := w\<rparr>) = quiet s x"
  "quiet s (upd_cl (\<lambda>c. c\<lparr>wd := d\<rparr>) x) = quiet s x"
  "quiet s (upd_cl (\<lambda>c. c\<lparr>rnfr := f\<rparr>) x) = quiet s x"
  "quiet s (upd_cl (\<lambda>c. c\<lparr>rest_offs := n\<rparr>) x) = quiet s x"
  "quiet s (upd_cl (\<lambda>c. c\<lparr>state := a\<rparr>) x) = quiet s x"
  "quiet s (upd_cl (\<lambda>c. c\<lparr>username := u\<rparr>) x) = quiet s x"
  by (simp_all add: quiet_def)

lemma plain_mark [simp]: "quiet s x \<Longrightarrow> c \<in> set reply_codes \<Longrightarrow> plain s (mark c m x)"
  by (auto simp: plain_def)

lemma plain_markf [simp]: "quiet s x \<Longrightarrow> c \<in> set reply_codes \<Longrightarrow> plain s (markf c m x)"
  by (simp add: markf_def)

lemma plain_mark_dir [simp]: "quiet s x \<Longrightarrow> plain s (mark_dir m cmp d x)"
  by (simp add: mark_dir_def Let_def reply_codes_def)

lemma codes_in [simp]:
  "150 \<in> set reply_codes" "200 \<in> set reply_codes" "202 \<in> set reply_codes" "215 \<in> set reply_codes"
  "225 \<in> set reply_codes" "226 \<in> set reply_codes" "227 \<in> set reply_codes" "230 \<in> set reply_codes"
  "250 \<in> set reply_codes" "257 \<in> set reply_codes" "331 \<in> set reply_codes" "350 \<in> set reply_codes"
  "421 \<in> set reply_codes" "425 \<in> set reply_codes" "500 \<in> set reply_codes" "501 \<in> set reply_codes"
  "503 \<in> set reply_codes" "504 \<in> set reply_codes" "530 \<in> set reply_codes" "550 \<in> set reply_codes"
  by (simp_all add: reply_codes_def)

lemma guard_plain: "g \<in> {ignore_if_xfer, auth, data} \<Longrightarrow> g s = Some s1 \<Longrightarrow> plain s s1"
  by (auto simp: ignore_if_xfer_def auth_def data_def split: if_splits)

lemma guards_plain:
  "set gs \<subseteq> {ignore_if_xfer, auth, data} \<Longrightarrow> guards gs s = Some s1 \<Longrightarrow> plain s s1"
proof (induction gs)
  case (Cons g gs)
  show ?case
  proof (cases "g s")
    case (Some x)
    have "g \<in> {ignore_if_xfer, auth, data}" using Cons.prems(1) by auto
    from guard_plain [OF this Some] Some Cons.prems(2) show ?thesis by (simp add: guards.simps)
  qed (use Cons in \<open>auto simp: guards.simps\<close>)
qed (simp add: guards.simps)

lemma guarded_plain:
  assumes "guarded gs body s = Some (r, s')" and "set gs \<subseteq> {ignore_if_xfer, auth, data}"
    and "body s = Some (r, s') \<Longrightarrow> plain s s'"
  shows "plain s s'"
  using assms guards_plain [OF assms(2), of s] by (auto simp: guarded_def split: option.splits)

text \<open>The replies that need no thread.\<close>

lemma full_path_plain:
  assumes "full_path arg k x = Some (r, s')" and "quiet s x"
    and "\<And>d. k d = Some (r, s') \<Longrightarrow> plain s s'"
  shows "plain s s'"
  using assms by (auto simp: full_path_def split: sum.splits)

lemma plain_SYST: "handler_SYST arg s = Some (r, s') \<Longrightarrow> plain s s'"
  by (auto simp: handler_SYST_def)

lemma plain_TYPE: "handler_TYPE arg s = Some (r, s') \<Longrightarrow> plain s s'"
  unfolding handler_TYPE_def by (erule guarded_plain) (auto split: if_splits)

lemma plain_USER: "handler_USER arg s = Some (r, s') \<Longrightarrow> plain s s'"
  unfolding handler_USER_def Let_def by (erule guarded_plain) (auto split: if_splits)

lemma plain_PASS: "handler_PASS arg s = Some (r, s') \<Longrightarrow> plain s s'"
  unfolding handler_PASS_def Let_def
  by (erule guarded_plain) (auto simp: logged_in_def split: if_splits option.splits)

lemma plain_PWD: "handler_PWD arg s = Some (r, s') \<Longrightarrow> plain s s'"
  unfolding handler_PWD_def by (erule guarded_plain) auto

lemma plain_REST: "handler_REST arg s = Some (r, s') \<Longrightarrow> plain s s'"
  unfolding handler_REST_def by (erule guarded_plain) (auto split: option.splits)

lemma plain_CWD: "handler_CWD os arg s = Some (r, s') \<Longrightarrow> plain s s'"
  unfolding handler_CWD_def
  by (erule guarded_plain, simp, erule full_path_plain) (auto split: if_splits)

lemma plain_MKD: "handler_MKD os arg s = Some (r, s') \<Longrightarrow> plain s s'"
  unfolding handler_MKD_def
  by (erule guarded_plain, simp, erule full_path_plain) (auto split: option.splits prod.splits)

lemma plain_RMD: "handler_RMD os arg s = Some (r, s') \<Longrightarrow> plain s s'"
  unfolding handler_RMD_def
  by (erule guarded_plain, simp, erule full_path_plain)
     (auto split: option.splits prod.splits if_splits)

lemma plain_RNFR: "handler_RNFR os arg s = Some (r, s') \<Longrightarrow> plain s s'"
  unfolding handler_RNFR_def
  by (erule guarded_plain, simp, erule full_path_plain) (auto split: if_splits)

lemma plain_DELE: "handler_DELE os arg s = Some (r, s') \<Longrightarrow> plain s s'"
  unfolding handler_DELE_def
  by (erule guarded_plain, simp, erule full_path_plain)
     (auto split: option.splits prod.splits if_splits)

lemma plain_RNTO:
  assumes "handler_RNTO os arg s = Some (r, s')"
  shows "plain s s'"
  using assms unfolding handler_RNTO_def Let_def
proof (rule guarded_plain, goal_cases)
  case 2
  show ?case
  proof (cases "rnfr (cl s)")
    case None
    with 2 show ?thesis by auto
  next
    case (Some old)
    with 2 show ?thesis
      by (simp only: option.case) (erule full_path_plain, simp,
          auto split: option.splits prod.splits if_splits)
  qed
qed simp

lemmas plain_handlers =
  plain_SYST plain_TYPE plain_USER plain_PASS plain_CWD plain_PWD plain_MKD plain_RMD plain_RNFR
  plain_RNTO plain_DELE plain_REST

section \<open>What the data thread sends\<close>

text \<open>The status of a thread is 0 until its loop ends; from then on it decides the last reply.\<close>

definition early :: "thr_pc \<Rightarrow> bool" where
  "early p \<longleftrightarrow> p \<notin> {T_CLOSE, T_READY, T_MARK, T_DONE}"

definition thr_ok :: "('w, 'f) sess \<Rightarrow> bool" where
  "thr_ok s \<longleftrightarrow> (\<forall>t. thr s = Some t \<longrightarrow> early (pc t) \<longrightarrow> st t = 0)"

text \<open>How many replies the thread may still send.\<close>

definition pending :: "('w, 'f) sess \<Rightarrow> nat" where
  "pending s =
     (case thr s of
        None \<Rightarrow> 0
      | Some t \<Rightarrow> if early (pc t) then 1 else if pc t = T_DONE \<or> st t = 0 then 0 else 1)"

lemma pending_le: "pending s \<le> (if thr s = None then 0 else 1)"
  by (simp add: pending_def split: option.splits)

lemma early_simps [simp]:
  "early A_START" "early A_WAIT" "early A_WOKEN" "early A_CONNECT" "early A_LOOP" "early P_LOOP" "early T_HANGS"
  "\<not> early T_CLOSE" "\<not> early T_READY" "\<not> early T_MARK" "\<not> early T_DONE"
  by (simp_all add: early_def)

text \<open>A step from \<open>s\<close> to \<open>s'\<close> that sends \<open>l\<close>.\<close>

definition sends :: "('w, 'f) sess \<Rightarrow> (nat \<times> string) list \<Rightarrow> ('w, 'f) sess \<Rightarrow> bool" where
  "sends s l s' \<longleftrightarrow>
     thr_ok s' \<and> out s' = out s @ l \<and> length l + pending s' \<le> pending s \<and>
     fst ` set l \<subseteq> {226, 425, 451}"

lemma sends_trans: "sends s l s1 \<Longrightarrow> sends s1 l' s2 \<Longrightarrow> sends s (l @ l') s2"
  by (auto simp: sends_def)

lemma thr_okI: "thr s = Some t \<Longrightarrow> \<not> early (pc t) \<or> st t = 0 \<Longrightarrow> thr_ok s"
  by (auto simp: thr_ok_def)

lemma thr_okD: "thr_ok s \<Longrightarrow> thr s = Some t \<Longrightarrow> early (pc t) \<Longrightarrow> st t = 0"
  by (simp add: thr_ok_def)

lemma block_step_sends:
  assumes "early (pc t)" and "st t = 0" and "thr s = Some u" and "early (pc u)" and "st u = 0"
  shows "sends s [] (block_step os t conn s)"
  using assms by (auto simp: block_step_def sends_def thr_ok_def pending_def split: option.split)

lemma pasv_connected_sends:
  assumes "early (pc t)" and "st t = 0" and "thr s = Some u" and "early (pc u)" and "st u = 0"
  shows "sends s [] (pasv_connected os t conn s)"
  using assms block_step_sends [of t s u] block_step_sends [of "t\<lparr>t_fp := dat_fp (cl s), t_ty := dat_ty (cl s)\<rparr>" s u]
  by (auto simp: pasv_connected_def Let_def sends_def thr_ok_def pending_def split: prod.split bool.split)

lemma pasv_step_sends:
  assumes "thr s = Some t" and "pc t = P_LOOP" and "st t = 0"
  shows "sends s [] (pasv_step os t s)"
proof (cases "conn_fd t")
  case (Some conn)
  with assms show ?thesis by (auto simp: pasv_step_def intro: pasv_connected_sends)
next
  case None
  obtain a w where a: "os_accept os (the (t_sock t)) (ext s) = (a, w)"
    by (cases "os_accept os (the (t_sock t)) (ext s)")
  show ?thesis
  proof (cases a)
    case (AConn conn)
    have "sends (s\<lparr>ext := w\<rparr>) [] (pasv_connected os (t\<lparr>conn_fd := Some conn\<rparr>) conn (s\<lparr>ext := w\<rparr>))"
      by (rule pasv_connected_sends) (use assms in simp_all)
    with None a AConn show ?thesis by (simp add: pasv_step_def sends_def pending_def)
  qed (use None a assms in \<open>auto simp: pasv_step_def sends_def thr_ok_def pending_def\<close>)
qed

lemma connect_step_sends:
  assumes "thr s = Some t" and "pc t = A_CONNECT" and "st t = 0"
  shows "\<exists>l. sends s l (connect_step os t s)"
proof -
  obtain fd w1 where s1: "os_socket os (ext s) = (fd, w1)" by (cases "os_socket os (ext s)")
  show ?thesis
  proof (cases fd)
    case None
    with s1 assms show ?thesis
      by (auto simp: connect_step_def sends_def thr_ok_def pending_def)
  next
    case (Some x)
    obtain ok w2 where s2: "os_connect os x (addr (cl s)) (port (cl s)) w1 = (ok, w2)"
      by (cases "os_connect os x (addr (cl s)) (port (cl s)) w1")
    with Some s1 assms show ?thesis
      by (cases ok) (auto simp: connect_step_def sends_def thr_ok_def pending_def)
  qed
qed

lemma thr_step_sends:
  assumes "thr_step os s = Some s'" and ok: "thr_ok s"
  shows "\<exists>l. sends s l s'"
  using assms(1)
proof (cases rule: thr_stepE)
  case (connect t)
  with connect_step_sends [of s t os] thr_okD [OF ok] show ?thesis by simp
next
  case (actv t conn)
  with block_step_sends [of t s t os conn] thr_okD [OF ok] show ?thesis by auto
next
  case (pasv t)
  with pasv_step_sends [of s t os] thr_okD [OF ok] show ?thesis by auto
next
  case (mark t)
  then show ?thesis
    by (auto simp: cleanup_mark_def Let_def sends_def thr_ok_def pending_def)
qed (use thr_okD [OF ok] in
    \<open>auto simp: sends_def thr_ok_def pending_def cleanup_close_def cleanup_ready_def\<close>)

lemma thr_join_sends:
  assumes "thr_join os s = Some s'" and "thr_ok s"
  shows "\<exists>l. sends s l s'"
proof (rule thr_join_rule [OF assms(1), where P = "\<lambda>x. thr_ok x \<and> (\<exists>l. sends s l x)", THEN conjunct2])
  fix x x'
  assume x: "thr_ok x \<and> (\<exists>l. sends s l x)" and st: "thr_step os x = Some x'"
  then obtain l l' where "sends s l x" "sends x l' x'"
    using thr_step_sends [OF st] by blast
  then show "thr_ok x' \<and> (\<exists>l. sends s l x')"
    using sends_trans by (auto simp: sends_def)
next
  fix x
  assume "thr_ok x \<and> (\<exists>l. sends s l x)"
  then obtain l where "sends s l x" by blast
  then have "sends s l (x\<lparr>thr := None\<rparr>)" by (simp add: sends_def thr_ok_def pending_def)
  then show "thr_ok (x\<lparr>thr := None\<rparr>) \<and> (\<exists>l. sends s l (x\<lparr>thr := None\<rparr>))"
    by (auto simp: thr_ok_def)
next
  fix x
  assume "thr_ok x \<and> (\<exists>l. sends s l x)"
  then obtain l where "sends s l x" "thr_ok x" by blast
  moreover have "sends s l (x\<lparr>fault := Some BAD_JOIN\<rparr>)"
    using \<open>sends s l x\<close> by (simp add: sends_def thr_ok_def pending_def)
  ultimately show "thr_ok (x\<lparr>fault := Some BAD_JOIN\<rparr>) \<and> (\<exists>l. sends s l (x\<lparr>fault := Some BAD_JOIN\<rparr>))"
    by (auto simp: thr_ok_def)
next
  have "sends s [] s" using assms(2) by (simp add: sends_def)
  then show "thr_ok s \<and> (\<exists>l. sends s l s)" using assms(2) by blast
qed

lemma close_threads_sends:
  assumes "client_close_threads os s = Some s'" and ok: "thr_ok s"
  shows "\<exists>l. out s' = out s @ l \<and> length l \<le> (if thr_dat_running (cl s) then 1 else 0) \<and>
    fst ` set l \<subseteq> {226, 425, 451} \<and> thr_ok s'"
proof (cases "thr_dat_running (cl s)")
  case False
  with assms show ?thesis by (auto simp: client_close_threads_def)
next
  case True
  let ?s = "upd_cl (\<lambda>c. c\<lparr>thr_dat_running := False\<rparr>) s"
  from True assms(1) obtain x where x: "thr_join os ?s = Some x"
    and s': "s' = upd_cl (\<lambda>c. c\<lparr>state := CLST_READY\<rparr>) x"
    by (auto simp: client_close_threads_def)
  obtain l where l: "sends ?s l x"
    using thr_join_sends [OF x] ok by (auto simp: thr_ok_def)
  have "length l \<le> 1" using l pending_le [of ?s] by (auto simp: sends_def split: if_splits)
  with l s' True show ?thesis by (intro exI [of _ l]) (auto simp: sends_def thr_ok_def)
qed

section \<open>One reply per command\<close>

definition same_conn :: "('w, 'f) sess \<Rightarrow> ('w, 'f) sess \<Rightarrow> bool" where
  "same_conn s s' \<longleftrightarrow> sock_ctl (cl s') = sock_ctl (cl s) \<and> buf_ctl (cl s') = buf_ctl (cl s)"

definition answers :: "('w, 'f) sess \<Rightarrow> ('w, 'f) sess \<Rightarrow> bool" where
  "answers s s' \<longleftrightarrow>
     thr_ok s' \<and> same_conn s s' \<and>
     (\<exists>pre p. out s' = out s @ pre @ [p] \<and> fst p \<in> set reply_codes \<and>
        length pre \<le> (if thr_dat_running (cl s) then 1 else 0) \<and> fst ` set pre \<subseteq> {226, 425, 451})"

lemma answers_plain: "plain s s' \<Longrightarrow> thr_ok s \<Longrightarrow> answers s s'"
  by (auto simp: plain_def quiet_def answers_def same_conn_def thr_ok_def)

lemma close_threads_conn: "client_close_threads os s = Some s' \<Longrightarrow> same_conn s s'"
  using close_threads_same_client(1) [of os s s']
  by (auto simp: same_conn_def dest: same_client_sel(7,8))

lemma answers_after:
  assumes "client_close_threads os s = Some s1" and "thr_ok s"
    and "out s' = out s1 @ [p]" and "fst p \<in> set reply_codes" and "thr_ok s'" and "same_conn s1 s'"
  shows "answers s s'"
proof -
  obtain l where "out s1 = out s @ l" "length l \<le> (if thr_dat_running (cl s) then 1 else 0)"
    "fst ` set l \<subseteq> {226, 425, 451}"
    using close_threads_sends [OF assms(1,2)] by blast
  with assms(3-6) close_threads_conn [OF assms(1)] show ?thesis
    by (auto simp: answers_def same_conn_def)
qed

lemma port_start_out:
  assumes "port_start os x s = Some (r, s')" and "thr_ok s"
  shows "\<exists>p. out s' = out s @ [p] \<and> fst p \<in> set reply_codes \<and> thr_ok s' \<and> same_conn s s'"
proof -
  obtain ok w where c: "os_pthread_create os (ext s) = (ok, w)" by (cases "os_pthread_create os (ext s)")
  with assms show ?thesis
    by (cases ok) (auto simp: port_start_def disconnect_def Let_def same_conn_def thr_ok_def active_init_def)
qed

lemma pasv_start_out:
  assumes "pasv_start os a fd s = Some (r, s')" and "thr_ok s"
  shows "\<exists>p. out s' = out s @ [p] \<and> fst p \<in> set reply_codes \<and> thr_ok s' \<and> same_conn s s'"
proof -
  obtain ok w where c: "os_pthread_create os (ext s) = (ok, w)" by (cases "os_pthread_create os (ext s)")
  with assms show ?thesis
    by (cases ok) (auto simp: pasv_start_def disconnect_def Let_def same_conn_def thr_ok_def passive_init_def)
qed

lemma guarded_answers:
  assumes "guarded gs body s = Some (r, s')" and "set gs \<subseteq> {ignore_if_xfer, auth, data}"
    and "body s = Some (r, s') \<Longrightarrow> answers s s'" and "thr_ok s"
  shows "answers s s'"
  using assms guards_plain [OF assms(2), of s] answers_plain
  by (auto simp: guarded_def split: option.splits)

lemma answers_PORT: "handler_PORT os arg s = Some (r, s') \<Longrightarrow> thr_ok s \<Longrightarrow> answers s s'"
  unfolding handler_PORT_def
proof (erule guarded_answers)
  assume ok: "thr_ok s" and body: "(case client_close_threads os s of None \<Rightarrow> None | Some s1 \<Rightarrow>
       (case scan_address arg of
          None \<Rightarrow> DONE (mark 501 ''Incorrect address format.'' s1)
        | Some x \<Rightarrow> port_start os x s1)) = Some (r, s')"
  then obtain s1 where s1: "client_close_threads os s = Some s1" by (cases "client_close_threads os s") auto
  have ok1: "thr_ok s1" using close_threads_sends [OF s1 ok] by blast
  show "answers s s'"
  proof (cases "scan_address arg")
    case None
    with body s1 ok1 answers_after [OF s1 ok, of s'] show ?thesis by (auto simp: same_conn_def thr_ok_def)
  next
    case (Some x)
    with body s1 have "port_start os x s1 = Some (r, s')" by simp
    from port_start_out [OF this ok1] answers_after [OF s1 ok] show ?thesis by blast
  qed
qed simp_all

lemma answers_PASV: "handler_PASV os arg s = Some (r, s') \<Longrightarrow> thr_ok s \<Longrightarrow> answers s s'"
  unfolding handler_PASV_def
proof (erule guarded_answers)
  assume ok: "thr_ok s" and body: "(case client_close_threads os s of None \<Rightarrow> None | Some s1 \<Rightarrow>
       (case pasv_listen os (sock_ctl (cl s1)) (ext s1) of
          (None, w1) \<Rightarrow>
            disconnect ''Cannot enter passive mode: cannot start data connection.'' (s1\<lparr>ext := w1\<rparr>)
        | (Some (a, fd), w1) \<Rightarrow> pasv_start os a fd (s1\<lparr>ext := w1\<rparr>))) = Some (r, s')"
  then obtain s1 where s1: "client_close_threads os s = Some s1" by (cases "client_close_threads os s") auto
  have ok1: "thr_ok s1" using close_threads_sends [OF s1 ok] by blast
  obtain l w where l: "pasv_listen os (sock_ctl (cl s1)) (ext s1) = (l, w)"
    by (cases "pasv_listen os (sock_ctl (cl s1)) (ext s1)")
  show "answers s s'"
  proof (cases l)
    case None
    with body s1 l ok1 answers_after [OF s1 ok, of s'] show ?thesis
      by (auto simp: disconnect_def same_conn_def thr_ok_def)
  next
    case (Some p)
    with body s1 l have "pasv_start os (fst p) (snd p) (s1\<lparr>ext := w\<rparr>) = Some (r, s')"
      by (cases p) simp
    from pasv_start_out [OF this] ok1 answers_after [OF s1 ok] show ?thesis
      by (auto simp: thr_ok_def same_conn_def)
  qed
qed simp_all

lemma answers_ABOR: "handler_ABOR os arg s = Some (r, s') \<Longrightarrow> thr_ok s \<Longrightarrow> answers s s'"
proof (cases "client_xfer_in_progress s")
  case False
  assume "handler_ABOR os arg s = Some (r, s')" "thr_ok s"
  with False show ?thesis by (auto simp: handler_ABOR_def intro!: answers_plain)
next
  case True
  assume ret: "handler_ABOR os arg s = Some (r, s')" and ok: "thr_ok s"
  then obtain s1 where s1: "client_close_threads os s = Some s1"
    using True by (cases "client_close_threads os s") (auto simp: handler_ABOR_def)
  have "thr_ok s1" using close_threads_sends [OF s1 ok] by blast
  with ret True s1 answers_after [OF s1 ok, of s'] show ?thesis
    by (auto simp: handler_ABOR_def Let_def same_conn_def thr_ok_def)
qed

text \<open>LIST, RETR and STOR.\<close>

fun stage_plain :: "('w, 'f) sess \<Rightarrow> ('w, 'f) stage \<Rightarrow> bool" where
  "stage_plain s (Replied s') = plain s s'"
| "stage_plain s (Opened f ty s') = plain s s'"

lemma staged_plain: "stage_plain s (body s) \<Longrightarrow> stage_plain s (staged body s)"
  using guards_plain [of "[ignore_if_xfer, auth, data]" s]
  by (auto simp: staged_def simp del: guards_two split: option.splits)

lemma open_LIST_plain: "stage_plain s (open_LIST os arg s)"
  unfolding open_LIST_def by (rule staged_plain) (auto split: option.splits prod.splits)

lemma open_RETR_plain: "stage_plain s (open_RETR os arg s)"
  unfolding open_RETR_def
  by (rule staged_plain) (auto split: option.splits prod.splits sum.splits)

lemma open_STOR_plain: "stage_plain s (open_STOR os arg s)"
  unfolding open_STOR_def Let_def
  by (rule staged_plain) (auto split: option.splits prod.splits sum.splits)

lemma signal_file_answers: "answers s s' \<Longrightarrow> answers s (signal_file f ty s')"
  by (auto simp: answers_def signal_file_def same_conn_def thr_ok_def)

lemma finish_stage_answers:
  assumes "stage_plain s x" and "thr_ok s" and "finish_stage x = Some (r, s')"
  shows "answers s s'"
  using assms by (cases x) (auto dest: answers_plain intro: signal_file_answers)

lemma answers_LIST: "handler_LIST os arg s = Some (r, s') \<Longrightarrow> thr_ok s \<Longrightarrow> answers s s'"
  unfolding handler_LIST_def using finish_stage_answers open_LIST_plain by blast

lemma answers_RETR: "handler_RETR os arg s = Some (r, s') \<Longrightarrow> thr_ok s \<Longrightarrow> answers s s'"
  unfolding handler_RETR_def using finish_stage_answers open_RETR_plain by blast

lemma answers_STOR: "handler_STOR os arg s = Some (r, s') \<Longrightarrow> thr_ok s \<Longrightarrow> answers s s'"
  unfolding handler_STOR_def using finish_stage_answers open_STOR_plain by blast

lemmas answers_handlers =
  answers_PORT answers_PASV answers_ABOR answers_LIST answers_RETR answers_STOR

lemma process_command_answers:
  assumes "thr_ok s" and "verb \<noteq> ''QUIT''" and "process_command os verb arg s = Some (r, s')"
  shows "answers s s'"
  by (cases rule: process_command_cases [OF assms(3)])
     (use assms(2) in blast |
      (erule answers_handlers, rule assms(1)) |
      (rule answers_plain [OF _ assms(1)], erule plain_handlers) |
      simp add: answers_plain assms(1))+

end
