(* ===== verification/ThreadInv.thy ===== *)
theory ThreadInv
  imports Replies
begin

text \<open>
  The data thread from the side of the commands: where its program counter can go, which
  commands wait for it, and when that wait never ends.
\<close>

section \<open>The program counter\<close>

lemma block_step_thread:
  assumes "t_fp t \<noteq> None"
  shows "\<exists>t'. thr (block_step os t conn s) = Some t' \<and>
    (pc t' = pc t \<or> pc t' = T_CLOSE \<or> pc t' = T_HANGS) \<and> t_fp t' = t_fp t \<and>
    conn_fd t' = conn_fd t \<and> fault (block_step os t conn s) = fault s"
  using assms by (auto simp: block_step_def split: option.splits)

lemma pasv_connected_thread:
  "\<exists>t'. thr (pasv_connected os t conn s) = Some t' \<and>
     (pc t' = pc t \<or> pc t' = T_CLOSE \<or> pc t' = T_HANGS) \<and> fault (pasv_connected os t conn s) = fault s"
proof -
  let ?t = "if t_fp t = None then t\<lparr>t_fp := dat_fp (cl s), t_ty := dat_ty (cl s)\<rparr> else t"
  have pct: "pc ?t = pc t" by simp
  show ?thesis
  proof (cases "t_fp ?t = None")
    case True
    with pct show ?thesis
      unfolding pasv_connected_def Let_def
      by (simp only: if_False not_not simp_thms split: prod.splits bool.splits) auto
  next
    case False
    then have "pasv_connected os t conn s = block_step os ?t conn s"
      unfolding pasv_connected_def Let_def by (simp only: if_True simp_thms)
    with block_step_thread [OF False, of os conn s] pct show ?thesis by metis
  qed
qed

lemma pasv_step_thread:
  assumes "thr s = Some t"
  shows "\<exists>t'. thr (pasv_step os t s) = Some t' \<and> (pc t' = pc t \<or> pc t' = T_CLOSE \<or> pc t' = T_HANGS) \<and>
    (fault (pasv_step os t s) = fault s \<or> fault (pasv_step os t s) = Some (PANIC ''accept() failed''))"
proof (cases "conn_fd t")
  case (Some conn)
  with pasv_connected_thread [of os t conn s] show ?thesis by (auto simp: pasv_step_def)
next
  case None
  obtain a w where a: "os_accept os (the (t_sock t)) (ext s) = (a, w)"
    by (cases "os_accept os (the (t_sock t)) (ext s)")
  show ?thesis
  proof (cases a)
    case (AConn conn)
    with None a pasv_connected_thread [of os "t\<lparr>conn_fd := Some conn\<rparr>" conn "s\<lparr>ext := w\<rparr>"] show ?thesis
      by (auto simp: pasv_step_def)
  qed (use None a assms in \<open>auto simp: pasv_step_def\<close>)
qed

text \<open>The edges of the program counter.\<close>

lemma thr_step_pc:
  assumes "thr_step os s = Some s'"
  obtains t t' where "thr s = Some t" and "thr s' = Some t'"
    and "(pc t, pc t') \<in> {(A_START, A_WAIT), (A_WOKEN, A_CONNECT), (A_CONNECT, A_LOOP), (A_CONNECT, T_CLOSE),
           (A_LOOP, A_LOOP), (A_LOOP, T_CLOSE), (A_LOOP, T_HANGS),
           (P_LOOP, P_LOOP), (P_LOOP, T_CLOSE), (P_LOOP, T_HANGS),
           (T_CLOSE, T_READY), (T_READY, T_MARK), (T_MARK, T_DONE)}"
  using assms
proof (cases rule: thr_stepE)
  case (connect t)
  with connect_step_ex [of os t s] that [of t] show thesis by fastforce
next
  case (actv t conn)
  show thesis
  proof (cases "t_fp t")
    case None
    with actv have "thr s' = Some t" by (auto simp: block_step_def)
    with actv that [of t t] show thesis by simp
  next
    case (Some f)
    with actv block_step_thread [of t os conn s] that [of t] show thesis by fastforce
  qed
next
  case (pasv t)
  with pasv_step_thread [OF pasv(1), of os] that [of t] show thesis by fastforce
qed (use that in fastforce)+

text \<open>Without PORT there is no thread in \<open>active_data\<close>.\<close>

definition active :: "thr_pc \<Rightarrow> bool" where
  "active p \<longleftrightarrow> p \<in> {A_START, A_WAIT, A_WOKEN, A_CONNECT, A_LOOP}"

lemma active_simps [simp]:
  "active A_START" "active A_WAIT" "active A_WOKEN" "active A_CONNECT" "active A_LOOP"
  "\<not> active P_LOOP" "\<not> active T_HANGS" "\<not> active T_CLOSE" "\<not> active T_READY" "\<not> active T_MARK"
  "\<not> active T_DONE"
  by (simp_all add: active_def)

definition passive_only :: "('w, 'f) sess \<Rightarrow> bool" where
  "passive_only s \<longleftrightarrow> (\<forall>t. thr s = Some t \<longrightarrow> \<not> active (pc t))"

text \<open>The thread is in a block that never returns.\<close>

definition hung :: "('w, 'f) sess \<Rightarrow> bool" where
  "hung s \<longleftrightarrow> (\<exists>t. thr s = Some t \<and> pc t = T_HANGS)"

lemma hung_step: "hung s \<Longrightarrow> thr_step os s = None"
  by (auto simp: hung_def thr_step_def)

lemma passive_only_cong: "thr s' = thr s \<Longrightarrow> passive_only s' \<longleftrightarrow> passive_only s"
  by (simp add: passive_only_def)

lemma hung_cong: "thr s' = thr s \<Longrightarrow> hung s' \<longleftrightarrow> hung s"
  by (simp add: hung_def)

lemma passive_only_mark [simp]: "passive_only (mark c m s) \<longleftrightarrow> passive_only s" "passive_only (markf c m s) \<longleftrightarrow> passive_only s"
  by (rule passive_only_cong; simp)+

lemma thr_step_passive_only:
  assumes "thr_step os s = Some s'" and "passive_only s"
  shows "passive_only s'"
proof -
  obtain t t' where "thr s = Some t" "thr s' = Some t'"
    "(pc t, pc t') \<in> {(A_START, A_WAIT), (A_WOKEN, A_CONNECT), (A_CONNECT, A_LOOP), (A_CONNECT, T_CLOSE),
           (A_LOOP, A_LOOP), (A_LOOP, T_CLOSE), (A_LOOP, T_HANGS),
           (P_LOOP, P_LOOP), (P_LOOP, T_CLOSE), (P_LOOP, T_HANGS),
           (T_CLOSE, T_READY), (T_READY, T_MARK), (T_MARK, T_DONE)}"
    using assms(1) by (rule thr_step_pc)
  with assms(2) show ?thesis by (auto simp: passive_only_def)
qed

section \<open>Which commands wait\<close>

lemma guarded_returns: "body s \<noteq> None \<Longrightarrow> guarded gs body s \<noteq> None"
  by (simp add: guarded_def split: option.splits)

lemma full_path_returns: "(\<And>d. k d \<noteq> None) \<Longrightarrow> full_path arg k s \<noteq> None"
  by (simp add: full_path_def split: sum.splits)

lemma handler_returns:
  "handler_SYST arg s \<noteq> None" "handler_TYPE arg s \<noteq> None" "handler_USER arg s \<noteq> None"
  "handler_PASS arg s \<noteq> None" "handler_PWD arg s \<noteq> None" "handler_REST arg s \<noteq> None"
  unfolding handler_SYST_def handler_TYPE_def handler_USER_def handler_PASS_def handler_PWD_def
    handler_REST_def logged_in_def Let_def
  by (intro guarded_returns | simp split: if_splits option.splits)+

lemma handler_returns_path:
  "handler_CWD os arg s \<noteq> None" "handler_MKD os arg s \<noteq> None" "handler_RMD os arg s \<noteq> None"
  "handler_RNFR os arg s \<noteq> None" "handler_DELE os arg s \<noteq> None"
  unfolding handler_CWD_def handler_MKD_def handler_RMD_def handler_RNFR_def handler_DELE_def
  by (intro guarded_returns full_path_returns; simp split: if_splits option.splits prod.splits)+

lemma handler_RNTO_returns: "handler_RNTO os arg s \<noteq> None"
proof (cases "rnfr (cl s)")
  case None
  then show ?thesis unfolding handler_RNTO_def by (intro guarded_returns) simp
next
  case (Some x)
  show ?thesis
    unfolding handler_RNTO_def Let_def
    by (intro guarded_returns, unfold Some option.case, intro full_path_returns)
       (simp split: if_splits option.splits prod.splits)
qed

lemma finish_stage_returns [simp]: "finish_stage x \<noteq> None"
  by (cases x) simp_all

lemma handler_returns_data:
  "handler_LIST os arg s \<noteq> None" "handler_RETR os arg s \<noteq> None" "handler_STOR os arg s \<noteq> None"
  by (simp_all add: handler_LIST_def handler_RETR_def handler_STOR_def del: not_None_eq)

lemmas handlers_return = handler_returns handler_returns_path handler_RNTO_returns handler_returns_data

lemma start_returns: "port_start os x s \<noteq> None" "pasv_start os a fd s \<noteq> None"
  by (auto simp: port_start_def pasv_start_def disconnect_def Let_def split: prod.splits bool.splits)

lemma handler_joins:
  "handler_QUIT os arg s = None \<longleftrightarrow> client_close_threads os s = None"
  "handler_ABOR os arg s = None \<longleftrightarrow> dat_fp (cl s) \<noteq> None \<and> client_close_threads os s = None"
  "handler_PORT os arg s = None \<longleftrightarrow>
     dat_fp (cl s) = None \<and> CLST_READY \<le> state (cl s) \<and> client_close_threads os s = None"
  "handler_PASV os arg s = None \<longleftrightarrow>
     dat_fp (cl s) = None \<and> CLST_READY \<le> state (cl s) \<and> client_close_threads os s = None"
proof -
  show "handler_QUIT os arg s = None \<longleftrightarrow> client_close_threads os s = None"
    by (simp add: handler_QUIT_def)
  show "handler_ABOR os arg s = None \<longleftrightarrow> dat_fp (cl s) \<noteq> None \<and> client_close_threads os s = None"
    by (simp add: handler_ABOR_def client_xfer_in_progress_def Let_def split: option.splits)
  have "guarded [ignore_if_xfer, auth] body s = None \<longleftrightarrow>
      dat_fp (cl s) = None \<and> CLST_READY \<le> state (cl s) \<and> body s = None"
    for body :: "('a, 'b) sess \<Rightarrow> ('a, 'b) reply"
    using guards_two(2) [of s] by (cases "guards [ignore_if_xfer, auth] s") (auto simp: guarded_def simp del: guards_two)
  note g = this
  show "handler_PORT os arg s = None \<longleftrightarrow>
      dat_fp (cl s) = None \<and> CLST_READY \<le> state (cl s) \<and> client_close_threads os s = None"
    unfolding handler_PORT_def g by (auto simp: start_returns [simplified] split: option.splits)
  show "handler_PASV os arg s = None \<longleftrightarrow>
      dat_fp (cl s) = None \<and> CLST_READY \<le> state (cl s) \<and> client_close_threads os s = None"
    unfolding handler_PASV_def g disconnect_def
    by (auto simp: start_returns [simplified] split: option.splits prod.splits)
qed

section \<open>Commands that never return\<close>

lemma close_threads_None:
  "client_close_threads os s = None \<longleftrightarrow> thr_dat_running (cl s) \<and> (\<exists>t. thr s = Some t \<and> unjoinable t)"
proof (cases "thr_dat_running (cl s)")
  case True
  show ?thesis
  proof (cases "thr s")
    case None
    then show ?thesis by (simp add: client_close_threads_def thr_join.simps)
  next
    case (Some t)
    from close_threads_result [OF True Some, of os] Some True show ?thesis by (auto split: if_splits)
  qed
qed (simp add: client_close_threads_def)

lemma close_threads_None_iff:
  assumes "sess_inv s"
  shows "client_close_threads os s = None \<longleftrightarrow> (\<exists>t. thr s = Some t \<and> unjoinable t)"
  using assms unfolding close_threads_None by (auto simp: sess_inv_def)

lemma process_command_None_iff:
  "process_command os verb arg s = None \<longleftrightarrow>
     verb = ''QUIT'' \<and> handler_QUIT os arg s = None \<or> verb = ''ABOR'' \<and> handler_ABOR os arg s = None \<or>
     verb = ''PORT'' \<and> handler_PORT os arg s = None \<or> verb = ''PASV'' \<and> handler_PASV os arg s = None"
  unfolding process_command_def
  by (simp add: handlers_return del: not_None_eq)

lemma process_command_hangs:
  assumes "sess_inv s"
  shows "process_command os verb arg s = None \<longleftrightarrow>
    (\<exists>t. thr s = Some t \<and> unjoinable t) \<and>
    (verb = ''QUIT'' \<or> verb = ''ABOR'' \<and> dat_fp (cl s) \<noteq> None \<or>
     (verb = ''PORT'' \<or> verb = ''PASV'') \<and> dat_fp (cl s) = None)"
proof -
  have "CLST_READY \<le> state (cl s)" if "thr s = Some t" for t
    using assms that login_ok_running [of "cl s"] by (simp add: sess_inv_def)
  then show ?thesis
    unfolding process_command_None_iff handler_joins close_threads_None_iff [OF assms] by blast
qed

text \<open>
  C23. A command keeps the server busy for ever exactly when it has to stop the data thread (QUIT,
  another PORT or PASV, or ABOR when a file has been opened) and that thread will never look: it
  is a port-mode thread that still waits for a file (PORT has been accepted and no LIST, RETR or
  STOR has been signalled to it), or it is in a block that never returns, because the peer of the
  data connection neither sends nor reads nor closes it. Every other command returns in every
  session.
\<close>

theorem command_hangs_iff:
  assumes "sess_inv s"
  shows "process_command os verb arg s = None \<longleftrightarrow>
    (\<exists>t. thr s = Some t \<and> (parked t \<or> pc t = T_HANGS)) \<and>
    (verb = ''QUIT'' \<or> verb = ''ABOR'' \<and> dat_fp (cl s) \<noteq> None \<or>
     (verb = ''PORT'' \<or> verb = ''PASV'') \<and> dat_fp (cl s) = None)"
  using process_command_hangs [OF assms] by (simp add: unjoinable_def)

theorem command_hangs_iff_witness:
  "process_command demo_os ''QUIT'' [] sess_port = None \<longleftrightarrow>
    (\<exists>t. thr sess_port = Some t \<and> (parked t \<or> pc t = T_HANGS)) \<and>
    (''QUIT'' = ''QUIT'' \<or> ''QUIT'' = ''ABOR'' \<and> dat_fp (cl sess_port) \<noteq> None \<or>
     (''QUIT'' = ''PORT'' \<or> ''QUIT'' = ''PASV'') \<and> dat_fp (cl sess_port) = None)"
  by (rule command_hangs_iff)
     (simp add: sess_inv_def paths_ok_def login_ok_def sess_port_def sess0_def client0_def canonical_root)

text \<open>The command has to stop a thread that will never look at \<open>thr_dat_running\<close> again.\<close>

definition hangs_on :: "string \<Rightarrow> ('w, 'f) sess \<Rightarrow> bool" where
  "hangs_on verb s \<longleftrightarrow>
     (\<exists>t. thr s = Some t \<and> unjoinable t) \<and>
     (if dat_fp (cl s) = None then verb = ''PORT'' \<or> verb = ''PASV'' else verb = ''ABOR'')"

text \<open>
  C15. Every command but QUIT either is answered by exactly one reply of its own, with one of the
  codes of the program, and nothing else is sent on its behalf, except that a data thread it
  stops adds at most one line (226, 425 or 451) before it; or it never returns, and it does so
  exactly if it is PORT, PASV or (during a transfer) ABOR and the data thread it has to stop
  still waits for a file or is in a block that never returns. The control connection and its
  buffered input are left alone.
\<close>

theorem one_reply_per_command:
  assumes "sess_inv s" and "thr_ok s" and "verb \<noteq> ''QUIT''"
  shows "if hangs_on verb s then process_command os verb arg s = None
    else \<exists>r s' pre p. process_command os verb arg s = Some (r, s') \<and>
      out s' = out s @ pre @ [p] \<and> fst p \<in> set reply_codes \<and>
      length pre \<le> (if thr_dat_running (cl s) then 1 else 0) \<and> fst ` set pre \<subseteq> {226, 425, 451} \<and>
      sock_ctl (cl s') = sock_ctl (cl s) \<and> buf_ctl (cl s') = buf_ctl (cl s)"
proof (cases "process_command os verb arg s")
  case None
  with process_command_hangs [OF assms(1), of os verb arg] assms(3) have "hangs_on verb s"
    unfolding hangs_on_def by presburger
  with None show ?thesis by simp
next
  case (Some p)
  obtain r s' where p: "p = (r, s')" by (cases p)
  have "\<not> hangs_on verb s"
    using process_command_hangs [OF assms(1), of os verb arg] Some unfolding hangs_on_def
    by (simp only: option.distinct simp_thms split: if_splits) blast
  moreover have "answers s s'" using process_command_answers [OF assms(2,3)] Some p by blast
  ultimately show ?thesis using Some p by (simp add: answers_def same_conn_def)
qed

theorem one_reply_per_command_witness:
  "if hangs_on ''PWD'' sess_pasv then process_command demo_os ''PWD'' [] sess_pasv = None
    else \<exists>r s' pre p. process_command demo_os ''PWD'' [] sess_pasv = Some (r, s') \<and>
      out s' = out sess_pasv @ pre @ [p] \<and> fst p \<in> set reply_codes \<and>
      length pre \<le> (if thr_dat_running (cl sess_pasv) then 1 else 0) \<and> fst ` set pre \<subseteq> {226, 425, 451} \<and>
      sock_ctl (cl s') = sock_ctl (cl sess_pasv) \<and> buf_ctl (cl s') = buf_ctl (cl sess_pasv)"
proof (rule one_reply_per_command)
  show "sess_inv sess_pasv"
    by (simp add: sess_inv_def paths_ok_def login_ok_def sess_pasv_def sess0_def client0_def canonical_root)
  show "thr_ok sess_pasv" by (simp add: thr_ok_def sess_pasv_def passive_init_def)
qed simp

section \<open>What a command does to the thread\<close>

text \<open>The last words of a session whose thread could not be created.\<close>

definition thread_failed :: "nat \<times> string \<Rightarrow> bool" where
  "thread_failed p \<longleftrightarrow>
     p = (421, ''Cannot enter port mode: pthread_create() failed. Shutting down connection.'') \<or>
     p = (421, ''Cannot enter passive mode: pthread_create() failed. Shutting down connection.'')"

text \<open>
  A command leaves the thread as it is, or ends it (then it could be joined), possibly to start a
  fresh one; or it has failed to create one, which it has recorded as running nevertheless.
\<close>

definition clean :: "('w, 'f) sess \<Rightarrow> ('w, 'f) sess \<Rightarrow> bool" where
  "clean s s' \<longleftrightarrow> fault s' = fault s \<and>
     (thr s' = thr s \<and> dat_fp (cl s') = dat_fp (cl s) \<and> thr_dat_running (cl s') = thr_dat_running (cl s) \<or>
      (\<forall>t. thr s = Some t \<longrightarrow> \<not> unjoinable t) \<and>
        (thr s' = None \<and> (thr_dat_running (cl s') \<longrightarrow> thread_failed (last (out s'))) \<or>
         thr_dat_running (cl s') \<and> (thr s' = Some active_init \<or> (\<exists>fd. thr s' = Some (passive_init fd)))))"

lemma plain_clean: "plain s s' \<Longrightarrow> clean s s'"
  by (auto simp: plain_def quiet_def clean_def)

lemma replied_clean: "replied s s' \<Longrightarrow> clean s s'"
  by (auto simp: replied_def clean_def)

lemma close_threads_clean:
  assumes "sess_inv s" and "client_close_threads os s = Some s'"
  shows "thr s' = None \<and> fault s' = fault s \<and> \<not> thr_dat_running (cl s') \<and>
    (\<forall>t. thr s = Some t \<longrightarrow> \<not> unjoinable t)"
proof (cases "thr s")
  case None
  with assms show ?thesis by (auto simp: client_close_threads_def sess_inv_def)
next
  case (Some t)
  with assms(1) have "thr_dat_running (cl s)" by (auto simp: sess_inv_def)
  from close_threads_result [OF this Some, of os] assms(2) Some show ?thesis by (auto split: if_splits)
qed

lemma close_threads_is_clean:
  "sess_inv s \<Longrightarrow> client_close_threads os s = Some s' \<Longrightarrow> clean s s'"
  using close_threads_clean by (auto simp: clean_def)

lemma port_start_thr:
  assumes "port_start os x s = Some (r, s')"
  shows "fault s' = fault s \<and> thr_dat_running (cl s') \<and>
    (thr s' = thr s \<and> thread_failed (last (out s')) \<or> thr s' = Some active_init)"
proof -
  obtain ok w where "os_pthread_create os (ext s) = (ok, w)" by (cases "os_pthread_create os (ext s)")
  with assms show ?thesis
    by (cases ok) (auto simp: port_start_def disconnect_def Let_def thread_failed_def)
qed

lemma pasv_start_thr:
  assumes "pasv_start os a fd s = Some (r, s')"
  shows "fault s' = fault s \<and> thr_dat_running (cl s') \<and>
    (thr s' = thr s \<and> thread_failed (last (out s')) \<or> thr s' = Some (passive_init fd))"
proof -
  obtain ok w where "os_pthread_create os (ext s) = (ok, w)" by (cases "os_pthread_create os (ext s)")
  with assms show ?thesis
    by (cases ok) (auto simp: pasv_start_def disconnect_def Let_def thread_failed_def)
qed

lemma PORT_clean:
  assumes "sess_inv s" and "handler_PORT os arg s = Some (r, s')"
  shows "clean s s'"
  using assms(2) [unfolded handler_PORT_def]
proof (cases rule: guarded2E)
  case passed
  then obtain s1 where s1: "client_close_threads os s = Some s1" by (cases "client_close_threads os s") auto
  note c = close_threads_clean [OF assms(1) s1]
  show ?thesis
  proof (cases "scan_address arg")
    case None
    with passed(2) s1 c show ?thesis by (auto simp: clean_def)
  next
    case (Some x)
    with passed(2) s1 have "port_start os x s1 = Some (r, s')" by simp
    from port_start_thr [OF this] c show ?thesis by (auto simp: clean_def)
  qed
qed (rule replied_clean)

lemma PASV_clean:
  assumes "sess_inv s" and "handler_PASV os arg s = Some (r, s')"
  shows "clean s s'"
  using assms(2) [unfolded handler_PASV_def]
proof (cases rule: guarded2E)
  case passed
  then obtain s1 where s1: "client_close_threads os s = Some s1" by (cases "client_close_threads os s") auto
  note c = close_threads_clean [OF assms(1) s1]
  obtain l w where l: "pasv_listen os (sock_ctl (cl s1)) (ext s1) = (l, w)"
    by (cases "pasv_listen os (sock_ctl (cl s1)) (ext s1)")
  show ?thesis
  proof (cases l)
    case None
    with passed(2) s1 l c show ?thesis by (auto simp: disconnect_def clean_def)
  next
    case (Some p)
    with passed(2) s1 l have "pasv_start os (fst p) (snd p) (s1\<lparr>ext := w\<rparr>) = Some (r, s')"
      by (cases p) simp
    from pasv_start_thr [OF this] c show ?thesis by (auto simp: clean_def)
  qed
qed (rule replied_clean)

lemma ABOR_clean:
  assumes "sess_inv s" and "handler_ABOR os arg s = Some (r, s')"
  shows "clean s s'"
proof (cases "client_xfer_in_progress s")
  case True
  with assms(2) obtain s1 where s1: "client_close_threads os s = Some s1"
    by (cases "client_close_threads os s") (auto simp: handler_ABOR_def)
  from close_threads_clean [OF assms(1) s1] True s1 assms(2) show ?thesis
    by (auto simp: handler_ABOR_def Let_def clean_def)
qed (use assms in \<open>auto simp: handler_ABOR_def clean_def\<close>)

lemma QUIT_clean:
  "sess_inv s \<Longrightarrow> handler_QUIT os arg s = Some (r, s') \<Longrightarrow> clean s s'"
  by (auto simp: handler_QUIT_def intro: close_threads_is_clean)

lemma process_command_clean:
  assumes "sess_inv s" and "process_command os verb arg s = Some (r, s')"
    and "verb \<noteq> ''LIST''" and "verb \<noteq> ''RETR''" and "verb \<noteq> ''STOR''"
  shows "clean s s'"
  by (cases rule: process_command_cases [OF assms(2)])
     (erule notE [OF assms(3)] | erule notE [OF assms(4)] | erule notE [OF assms(5)] |
      erule QUIT_clean [OF assms(1)] |
      erule PORT_clean [OF assms(1)] | erule PASV_clean [OF assms(1)] | erule ABOR_clean [OF assms(1)] |
      (rule plain_clean, erule plain_handlers) | (rule plain_clean, simp))+

lemma clean_leaves:
  "clean s s' \<Longrightarrow> sess_inv s \<Longrightarrow> fault s' = fault s \<and> (thr s' \<noteq> None \<longrightarrow> thr_dat_running (cl s')) \<and>
     (thr s' = None \<and> thr_dat_running (cl s') \<longrightarrow> thread_failed (last (out s')))"
  unfolding clean_def sess_inv_def by (elim conjE disjE exE) auto

lemma finish_stage_leaves:
  assumes "stage_plain s x" and "finish_stage x = Some (r, s')" and "sess_inv s"
  shows "fault s' = fault s \<and> (thr s' \<noteq> None \<longrightarrow> thr_dat_running (cl s')) \<and>
    (thr s' = None \<and> thr_dat_running (cl s') \<longrightarrow> thread_failed (last (out s')))"
proof (cases x)
  case (Replied x')
  with assms clean_leaves [OF plain_clean] show ?thesis by simp
next
  case (Opened f ty x')
  with assms show ?thesis
    by (auto simp: plain_def quiet_def signal_file_def sess_inv_def)
qed

lemma process_command_leaves:
  assumes "sess_inv s" and "process_command os verb arg s = Some (r, s')"
  shows "fault s' = fault s \<and> (thr s' \<noteq> None \<longrightarrow> thr_dat_running (cl s')) \<and>
    (thr s' = None \<and> thr_dat_running (cl s') \<longrightarrow> thread_failed (last (out s')))"
proof (cases "verb = ''LIST'' \<or> verb = ''RETR'' \<or> verb = ''STOR''")
  case True
  with assms finish_stage_leaves [OF open_LIST_plain] finish_stage_leaves [OF open_RETR_plain]
    finish_stage_leaves [OF open_STOR_plain]
  show ?thesis
    by (elim disjE) (simp_all add: process_command_def handler_LIST_def handler_RETR_def handler_STOR_def)
next
  case False
  with process_command_clean [OF assms] clean_leaves assms(1) show ?thesis by blast
qed

text \<open>A command that shuts the session down is not one that opens a file.\<close>

lemma shutdown_clean:
  assumes "sess_inv s" and "process_command os verb arg s = Some (CMD_RESULT_SHUTDOWN, s')"
  shows "clean s s'"
proof (rule process_command_clean [OF assms])
  have "finish_stage x \<noteq> Some (CMD_RESULT_SHUTDOWN, s')" for x by (cases x) simp_all
  with assms(2) show "verb \<noteq> ''LIST''" "verb \<noteq> ''RETR''" "verb \<noteq> ''STOR''"
    by (auto simp: process_command_def handler_LIST_def handler_RETR_def handler_STOR_def)
qed

text \<open>A thread that hangs stays, and no command makes one hang.\<close>

lemma clean_hung: "clean s s' \<Longrightarrow> hung s' \<longleftrightarrow> hung s"
  unfolding clean_def hung_def unjoinable_def active_init_def passive_init_def
  by (elim conjE disjE exE) simp_all

lemma hung_signal_file [simp]: "hung (signal_file f ty s) \<longleftrightarrow> hung s"
  by (cases "thr s") (auto simp: hung_def signal_file_def)

lemma finish_stage_hung:
  "stage_plain s x \<Longrightarrow> finish_stage x = Some (r, s') \<Longrightarrow> hung s' \<longleftrightarrow> hung s"
  by (cases x) (use clean_hung [OF plain_clean] in fastforce)+

lemma process_command_hung:
  assumes "sess_inv s" and "process_command os verb arg s = Some (r, s')"
  shows "hung s' \<longleftrightarrow> hung s"
proof (cases "verb = ''LIST'' \<or> verb = ''RETR'' \<or> verb = ''STOR''")
  case True
  with assms(2) finish_stage_hung [OF open_LIST_plain] finish_stage_hung [OF open_RETR_plain]
    finish_stage_hung [OF open_STOR_plain]
  show ?thesis
    by (elim disjE) (simp_all add: process_command_def handler_LIST_def handler_RETR_def handler_STOR_def)
next
  case False
  with process_command_clean [OF assms] have "clean s s'" by blast
  then show ?thesis by (rule clean_hung)
qed

section \<open>Sessions without PORT\<close>

lemma close_threads_passive_only:
  assumes "client_close_threads os s = Some s'" and "passive_only s" and "sess_inv s"
  shows "passive_only s'"
  using close_threads_inv [OF assms(3,1)] by (simp add: passive_only_def)

lemma guarded_passive_only:
  assumes "guarded gs body s = Some (r, s')" and "set gs \<subseteq> {ignore_if_xfer, auth, data}"
    and "passive_only s" and "body s = Some (r, s') \<Longrightarrow> passive_only s'"
  shows "passive_only s'"
proof (cases "guards gs s")
  case None
  with assms show ?thesis by (simp add: guarded_def)
next
  case (Some x)
  from guards_reply [OF assms(2) this] have "passive_only x"
    using assms(3) passive_only_cong [of x s] by (simp add: replied_def)
  with assms(1) Some show ?thesis by (simp add: guarded_def)
qed

lemma plain_passive_only: "plain s s' \<Longrightarrow> passive_only s \<Longrightarrow> passive_only s'"
  by (auto simp: plain_def quiet_def passive_only_def)

lemma pasv_start_passive_only:
  assumes "pasv_start os a fd s = Some (r, s')" and "passive_only s"
  shows "passive_only s'"
proof -
  obtain ok w where "os_pthread_create os (ext s) = (ok, w)" by (cases "os_pthread_create os (ext s)")
  with assms show ?thesis
    by (cases ok)
       (auto simp: pasv_start_def disconnect_def Let_def passive_only_def passive_init_def)
qed

lemma PASV_passive_only:
  assumes "handler_PASV os arg s = Some (r, s')" and "passive_only s" and inv: "sess_inv s"
  shows "passive_only s'"
  using assms(1) [unfolded handler_PASV_def] _ assms(2)
proof (rule guarded_passive_only)
  assume body: "(case client_close_threads os s of None \<Rightarrow> None | Some s1 \<Rightarrow>
       (case pasv_listen os (sock_ctl (cl s1)) (ext s1) of
          (None, w1) \<Rightarrow>
            disconnect ''Cannot enter passive mode: cannot start data connection.'' (s1\<lparr>ext := w1\<rparr>)
        | (Some (a, fd), w1) \<Rightarrow> pasv_start os a fd (s1\<lparr>ext := w1\<rparr>))) = Some (r, s')"
  then obtain s1 where s1: "client_close_threads os s = Some s1" by (cases "client_close_threads os s") auto
  have u1: "passive_only s1" using s1 assms(2) inv by (rule close_threads_passive_only)
  obtain l w where l: "pasv_listen os (sock_ctl (cl s1)) (ext s1) = (l, w)"
    by (cases "pasv_listen os (sock_ctl (cl s1)) (ext s1)")
  show "passive_only s'"
  proof (cases l)
    case None
    with body s1 l u1 show ?thesis by (auto simp: disconnect_def passive_only_def)
  next
    case (Some p)
    with body s1 l have "pasv_start os (fst p) (snd p) (s1\<lparr>ext := w\<rparr>) = Some (r, s')"
      by (cases p) simp
    then show ?thesis by (rule pasv_start_passive_only) (use u1 in \<open>simp add: passive_only_def\<close>)
  qed
qed simp

lemma ABOR_passive_only:
  "handler_ABOR os arg s = Some (r, s') \<Longrightarrow> passive_only s \<Longrightarrow> sess_inv s \<Longrightarrow> passive_only s'"
  by (auto simp: handler_ABOR_def Let_def intro: close_threads_passive_only split: if_splits option.splits)

lemma QUIT_passive_only:
  "handler_QUIT os arg s = Some (r, s') \<Longrightarrow> passive_only s \<Longrightarrow> sess_inv s \<Longrightarrow> passive_only s'"
  by (auto simp: handler_QUIT_def intro: close_threads_passive_only)

lemma signal_file_passive_only: "passive_only s \<Longrightarrow> passive_only (signal_file f ty s)"
  by (auto simp: passive_only_def signal_file_def)

lemma finish_stage_passive_only:
  assumes "stage_plain s x" and "passive_only s" and "finish_stage x = Some (r, s')"
  shows "passive_only s'"
  using assms by (cases x) (auto dest: plain_passive_only intro: signal_file_passive_only)

lemma data_passive_only:
  "handler_LIST os arg s = Some (r, s') \<Longrightarrow> passive_only s \<Longrightarrow> passive_only s'"
  "handler_RETR os arg s = Some (r, s') \<Longrightarrow> passive_only s \<Longrightarrow> passive_only s'"
  "handler_STOR os arg s = Some (r, s') \<Longrightarrow> passive_only s \<Longrightarrow> passive_only s'"
  unfolding handler_LIST_def handler_RETR_def handler_STOR_def
  using finish_stage_passive_only open_LIST_plain open_RETR_plain open_STOR_plain by blast+

lemma process_command_passive_only:
  assumes "process_command os verb arg s = Some (r, s')" and "verb \<noteq> ''PORT''"
    and "passive_only s" and "sess_inv s"
  shows "passive_only s'"
  by (cases rule: process_command_cases [OF assms(1)])
     (erule notE [OF assms(2)] |
      (erule QUIT_passive_only [OF _ assms(3,4)]) | (erule ABOR_passive_only [OF _ assms(3,4)]) |
      (erule PASV_passive_only [OF _ assms(3,4)]) | (erule data_passive_only [OF _ assms(3)]) |
      (rule plain_passive_only [OF _ assms(3)], erule plain_handlers) |
      (simp add: assms(3)))+

end
