(* ===== verification/ServerLoop.thy ===== *)
theory ServerLoop
  imports ThreadInv
begin

text \<open>
  The life of one client, \<^verbatim>\<open>server/client.c\<close> (\<open>client_create\<close>, \<open>client_run_loop\<close>,
  \<open>client_close\<close>), and the server program, \<^verbatim>\<open>server/main.c\<close>.
\<close>

section \<open>Creating and closing a client\<close>

text \<open>\<open>addr\<close>, \<open>port\<close> and \<open>dat_type\<close> are not initialised: their first values are arguments.\<close>

definition client_create :: "nat \<Rightarrow> rd list \<Rightarrow> u8 list \<Rightarrow> u16 \<Rightarrow> dat_type \<Rightarrow> 'f client" where
  "client_create sock rs a p ty = \<lparr>sock_ctl = sock, buf_ctl = rlb_init rs, state = CLST_CONN,
     username = None, xferred_files_bytes = 0, xferred_files_num = 0, wd = ''/'', rnfr = None,
     rest_offs = 0, addr = a, port = p, thr_dat_running = False, dat_fp = None, dat_ty = ty\<rparr>"

definition new_sess :: "'f client \<Rightarrow> 'w \<Rightarrow> ('w, 'f) sess" where
  "new_sess c w = \<lparr>cl = c, thr = None, out = [], ext = w, fault = None\<rparr>"

text \<open>\<open>shutdown\<close> and \<open>close\<close> of the control connection are one call here.\<close>

definition client_close :: "('w, 'f) os \<Rightarrow> ('w, 'f) sess \<Rightarrow> ('w, 'f) sess option" where
  "client_close os s =
     map_option (\<lambda>s. s\<lparr>ext := os_close os (sock_ctl (cl s)) (ext s)\<rparr>) (client_close_threads os s)"

section \<open>Parsing a command line\<close>

text \<open>
  \<open>while ((*p = toupper(*p)) >= 'A' && *p <= 'Z') p++;\<close> splits the line in the verb and the
  rest, whose first character has been through \<open>toupper\<close> too.
\<close>

fun scan_verb :: "string \<Rightarrow> string \<times> string" where
  "scan_verb [] = ([], [])"
| "scan_verb (c # cs) =
     (if CHR ''A'' \<le> toupper c \<and> toupper c \<le> CHR ''Z'' then
        (case scan_verb cs of (v, r) \<Rightarrow> (toupper c # v, r))
      else ([], toupper c # cs))"

definition parse_command :: "string \<Rightarrow> (string \<times> string) option" where
  "parse_command cmd =
     (case scan_verb (cstr cmd) of
        (v, []) \<Rightarrow> Some (v, [])
      | (v, c # r) \<Rightarrow> if c \<noteq> CHR '' '' then None else Some (v, r))"

section \<open>The command loop\<close>

definition CMD_SIZE :: nat where "CMD_SIZE = 1024"

definition WELCOME_MSG :: string where
  "WELCOME_MSG =
     ''                Welcome to zzftp.kawa.moe FTP archives                '' @ [LF] @
     [LF] @
     ''This site is provided as a public service.  Use in violation of any'' @ [LF] @
     ''applicable laws is strictly prohibited.  No guarantees, explicit or'' @ [LF] @
     ''implicit, about the contents of this site.  Use at your own risk.'' @ [LF] @
     [LF] @
     ''FTP server ready.'' @ [LF]"

definition GOODBYE_MSG :: string where
  "GOODBYE_MSG = ''Goodbye '' @ [CHR 0x5C] @ ''(^ ^)/~''"

definition LINE_TOO_LONG :: string where
  "LINE_TOO_LONG = ''Command line too long, the limit is 1023 characters.''"

definition VERB_NOT_ENDED :: string where
  "VERB_NOT_ENDED =
     ''The verb should be terminate the command line, '' @ ''or be followed by a space.''"

text \<open>
  One round of the loop: whether it goes on, and the session. \<open>None\<close> is a round that does
  not end (no line arrives, or a join never returns). Replies are only recorded: a client that
  never reads them and so lets \<open>send_mark\<close> fill its connection is left out.
\<close>

definition run_line :: "('w, 'f) os \<Rightarrow> string \<Rightarrow> ('w, 'f) sess \<Rightarrow> (bool \<times> ('w, 'f) sess) option" where
  "run_line os cmd s =
     (case parse_command cmd of
        None \<Rightarrow> Some (True, mark 500 VERB_NOT_ENDED s)
      | Some (verb, arg) \<Rightarrow>
          map_option (\<lambda>(r, s'). (r \<noteq> CMD_RESULT_SHUTDOWN, s')) (process_command os verb arg s))"

definition loop_round :: "('w, 'f) os \<Rightarrow> ('w, 'f) sess \<Rightarrow> (bool \<times> ('w, 'f) sess) option" where
  "loop_round os s =
     (case rlb_read_line CMD_SIZE (buf_ctl (cl s)) of
        None \<Rightarrow> None
      | Some (cmd_len, cmd, b) \<Rightarrow>
          let s1 = upd_cl (\<lambda>c. c\<lparr>buf_ctl := b\<rparr>) s in
          if sint cmd_len < 0 then Some (False, s1)
          else if cmd_len = of_nat CMD_SIZE then Some (True, mark 500 LINE_TOO_LONG s1)
          else run_line os cmd s1)"

text \<open>
  While the loop waits for its \<open>i\<close>-th line the data thread makes up to \<open>sched i\<close> steps; one that
  fails is the last, because \<open>panic()\<close> and a crash end the whole process.
\<close>

fun run_thread :: "('w, 'f) os \<Rightarrow> nat \<Rightarrow> ('w, 'f) sess \<Rightarrow> ('w, 'f) sess" where
  "run_thread os 0 s = s"
| "run_thread os (Suc n) s =
     (case thr_step os s of
        None \<Rightarrow> s
      | Some s' \<Rightarrow> if fault s' \<noteq> fault s then s' else run_thread os n s')"

partial_function (option) command_loop ::
  "('w, 'f) os \<Rightarrow> (nat \<Rightarrow> nat) \<Rightarrow> nat \<Rightarrow> ('w, 'f) sess \<Rightarrow> ('w, 'f) sess option" where
  "command_loop os sched i s =
     (let s1 = run_thread os (sched i) s in
      if fault s1 \<noteq> None then Some s1
      else case loop_round os s1 of
        None \<Rightarrow> None
      | Some (go, s') \<Rightarrow> if go then command_loop os sched (Suc i) s' else Some s')"

definition client_run_loop ::
  "('w, 'f) os \<Rightarrow> (nat \<Rightarrow> nat) \<Rightarrow> ('w, 'f) sess \<Rightarrow> ('w, 'f) sess option" where
  "client_run_loop os sched s =
     map_option (\<lambda>s. if fault s \<noteq> None then s else mark 221 GOODBYE_MSG s)
       (command_loop os sched 0 (mark 220 WELCOME_MSG s))"

text \<open>
  \<open>serve_client\<close> of \<^verbatim>\<open>main.c\<close>, the body of a client's thread: \<open>None\<close> if it never ends, and
  a session with a fault if the process does.
\<close>

definition serve_client ::
  "('w, 'f) os \<Rightarrow> (nat \<Rightarrow> nat) \<Rightarrow> 'f client \<Rightarrow> 'w \<Rightarrow> ('w, 'f) sess option" where
  "serve_client os sched c w =
     (case client_run_loop os sched (new_sess c w) of
        None \<Rightarrow> None
      | Some s \<Rightarrow> if fault s \<noteq> None then Some s else client_close os s)"

section \<open>What a command line means\<close>

lemma scan_verb_eq:
  "scan_verb s =
     (map toupper (takeWhile (\<lambda>c. isupper (toupper c)) s),
      (case dropWhile (\<lambda>c. isupper (toupper c)) s of [] \<Rightarrow> [] | c # cs \<Rightarrow> toupper c # cs))"
  by (induction s) (auto simp: isupper_def)


text \<open>The declarative reading: letters, then the end or a space and the argument.\<close>

definition letters :: "string \<Rightarrow> bool" where
  "letters w \<longleftrightarrow> list_all (\<lambda>c. isupper (toupper c)) w"

lemma takeWhile_letters:
  "letters w \<Longrightarrow> r = [] \<or> \<not> isupper (toupper (hd r)) \<Longrightarrow>
     takeWhile (\<lambda>c. isupper (toupper c)) (w @ r) = w \<and> dropWhile (\<lambda>c. isupper (toupper c)) (w @ r) = r"
  by (induction w) (cases r; auto simp: letters_def)+

text \<open>
  The server reads a command line as one or no word of letters, in any case, up to the end
  of the line or a space, and as its argument everything after that one space; every other line
  is refused. The verb is the word in upper case.
\<close>

theorem parse_command_iff:
  "parse_command cmd = Some (verb, arg) \<longleftrightarrow>
     (\<exists>w. letters w \<and> verb = map toupper w \<and>
        (cstr cmd = w \<and> arg = [] \<or> cstr cmd = w @ CHR '' '' # arg))"
proof -
  let ?P = "\<lambda>c. isupper (toupper c)" and ?s = "cstr cmd"
  have sp: "\<not> isupper (toupper (CHR '' ''))" by (simp add: isupper_def toupper_def less_eq_char_def)
  have w: "letters (takeWhile ?P ?s)"
    by (auto simp: letters_def list_all_iff dest: set_takeWhileD)
  have eq: "parse_command cmd =
      (case dropWhile ?P ?s of
         [] \<Rightarrow> Some (map toupper (takeWhile ?P ?s), [])
       | c # r \<Rightarrow> if c \<noteq> CHR '' '' then None else Some (map toupper (takeWhile ?P ?s), r))"
    by (cases "dropWhile ?P ?s") (simp_all add: parse_command_def scan_verb_eq toupper_eq_space del: dropWhile_eq_Nil_conv)
  have split: "?s = takeWhile ?P ?s @ dropWhile ?P ?s" by simp
  show ?thesis
  proof
    assume "parse_command cmd = Some (verb, arg)"
    with w split show "\<exists>w. letters w \<and> verb = map toupper w \<and>
        (?s = w \<and> arg = [] \<or> ?s = w @ CHR '' '' # arg)"
      unfolding eq by (intro exI [of _ "takeWhile ?P ?s"])
        (simp del: takeWhile_dropWhile_id dropWhile_eq_Nil_conv split: list.splits if_splits; metis append_Nil2)
  next
    assume "\<exists>w. letters w \<and> verb = map toupper w \<and>
        (?s = w \<and> arg = [] \<or> ?s = w @ CHR '' '' # arg)"
    then obtain w where w: "letters w" "verb = map toupper w"
      "?s = w \<and> arg = [] \<or> ?s = w @ CHR '' '' # arg" by blast
    then show "parse_command cmd = Some (verb, arg)"
      unfolding eq using takeWhile_letters [OF w(1), of "[]", unfolded append_Nil2] takeWhile_letters [OF w(1), of "CHR '' '' # arg"] sp
      by (auto simp del: dropWhile_eq_Nil_conv takeWhile_eq_all_conv)
  qed
qed

section \<open>A session ends with a farewell\<close>

text \<open>The lines a client sends, as the events of its connection.\<close>

function lines_of :: "(char \<times> bool) list \<Rightarrow> string list" where
  "lines_of es =
     (case dropWhile (\<lambda>p. fst p \<noteq> LF) es of
        [] \<Rightarrow> []
      | p # rest \<Rightarrow> map fst (takeWhile (\<lambda>p. fst p \<noteq> LF) es) # lines_of rest)"
  by pat_completeness auto
termination
proof (relation "measure length")
  fix es p rest
  assume "dropWhile (\<lambda>p. fst p \<noteq> LF) es = (p :: char \<times> bool) # rest"
  then have "length (p # rest) \<le> length es" by (metis length_dropWhile_le)
  then show "(rest, es) \<in> measure length" by simp
qed simp

declare lines_of.simps [simp del]

definition no_PORT :: "(char \<times> bool) list \<Rightarrow> bool" where
  "no_PORT es \<longleftrightarrow> (\<forall>l \<in> set (lines_of es). \<forall>a. parse_command l \<noteq> Some (''PORT'', a))"

text \<open>The end of the stream is reported twice, or has been reported once already.\<close>

definition ends :: "(char \<times> bool) list \<Rightarrow> bool \<Rightarrow> bool" where
  "ends es m \<longleftrightarrow> (\<exists>p. es = p @ [(LF, True), (LF, True)]) \<or> m \<and> es = [(LF, True)]"

lemma lines_of_step:
  "dropWhile (\<lambda>p. fst p \<noteq> LF) es = p # rest \<Longrightarrow>
     lines_of es = map fst (takeWhile (\<lambda>p. fst p \<noteq> LF) es) # lines_of rest"
  by (subst lines_of.simps) simp

lemma ends_step:
  assumes "ends es m"
  obtains e rest where "dropWhile (\<lambda>p. fst p \<noteq> LF) es = (LF, e) # rest"
    and "ends rest (m \<or> e) \<or> (takeWhile (\<lambda>p. fst p \<noteq> LF) es = [] \<and> (m \<or> e))"
    and "length rest < length es"
proof (cases "dropWhile (\<lambda>p. fst p \<noteq> LF) es")
  case Nil
  with assms show thesis by (auto simp: ends_def)
next
  case (Cons q rest)
  then have q: "fst q = LF" by (auto simp: dropWhile_eq_Cons_conv)
  obtain e where e: "q = (LF, e)" using q by (cases q) auto
  have split: "es = takeWhile (\<lambda>p. fst p \<noteq> LF) es @ (LF, e) # rest"
    using Cons e by (metis takeWhile_dropWhile_id)
  let ?t = "takeWhile (\<lambda>p. fst p \<noteq> LF) es"
  have "ends rest (m \<or> e) \<or> (?t = [] \<and> (m \<or> e))"
    using assms unfolding ends_def
  proof (elim disjE exE conjE)
    fix p
    assume p: "es = p @ [(LF, True), (LF, True)]"
    with split have "?t @ (LF, e) # rest = p @ [(LF, True), (LF, True)]" by simp
    then consider u where "p = ?t @ (LF, e) # u" "rest = u @ [(LF, True), (LF, True)]"
      | "e" "rest = [(LF, True)]" | "e" "rest = []" "?t = p @ [(LF, True)]"
      by (auto simp: append_eq_append_conv2 Cons_eq_append_conv append_eq_Cons_conv)
    then show "((\<exists>p. rest = p @ [(LF, True), (LF, True)]) \<or> (m \<or> e) \<and> rest = [(LF, True)]) \<or> ?t = [] \<and> (m \<or> e)"
    proof cases
      case 3
      then have "(LF, True) \<in> set ?t" by simp
      then show ?thesis by (auto dest: set_takeWhileD)
    qed auto
  next
    assume "m" and "es = [(LF, True)]"
    then show "((\<exists>p. rest = p @ [(LF, True), (LF, True)]) \<or> (m \<or> e) \<and> rest = [(LF, True)]) \<or> ?t = [] \<and> (m \<or> e)"
      by simp
  qed
  moreover have "length rest < length es" by (subst split) simp
  ultimately show thesis using that Cons e by blast
qed

text \<open>What holds of a live session between two commands, when PORT is never used.\<close>

definition live :: "('w, 'f) sess \<Rightarrow> bool" where
  "live s \<longleftrightarrow> sess_inv s \<and> thr_ok s \<and> passive_only s \<and> fault s = None"

definition source :: "('w, 'f) sess \<Rightarrow> (char \<times> bool) list" where
  "source s = events (buf_ctl (cl s))"

definition grows :: "('w, 'f) sess \<Rightarrow> ('w, 'f) sess \<Rightarrow> bool" where
  "grows s s' \<longleftrightarrow> (\<exists>l. out s' = out s @ l)"

lemma grows_refl [simp]: "grows s s"
  by (simp add: grows_def)

lemma grows_trans: "grows s s1 \<Longrightarrow> grows s1 s2 \<Longrightarrow> grows s s2"
  by (auto simp: grows_def)

definition panicked :: "('w, 'f) sess \<Rightarrow> bool" where
  "panicked s \<longleftrightarrow> fault s = Some (PANIC ''accept() failed'') \<and> \<not> hung s"

lemma thr_step_fault:
  assumes step: "thr_step os s = Some s'" and "passive_only s" and "fault s = None"
  shows "fault s' = None \<or> panicked s'"
  using step
proof (cases rule: thr_stepE)
  case (pasv t)
  show ?thesis
  proof (cases "conn_fd t")
    case (Some conn)
    with pasv assms(3) pasv_connected_thread [of os t conn s] show ?thesis by (auto simp: pasv_step_def)
  next
    case None
    obtain a w where a: "os_accept os (the (t_sock t)) (ext s) = (a, w)"
      by (cases "os_accept os (the (t_sock t)) (ext s)")
    with None pasv assms(3) pasv_connected_thread [of os "t\<lparr>conn_fd := Some c\<rparr>" c "s\<lparr>ext := w\<rparr>" for c]
    show ?thesis by (cases a) (fastforce simp: pasv_step_def panicked_def hung_def)+
  qed
qed (use assms(2,3) in \<open>auto simp: passive_only_def\<close>)

lemma thr_step_live:
  assumes step: "thr_step os s = Some s'" and "live s"
  shows "buf_ctl (cl s') = buf_ctl (cl s) \<and> grows s s' \<and> (live s' \<or> panicked s')"
proof -
  obtain l where "sends s l s'" using thr_step_sends [OF step] assms(2) by (auto simp: live_def)
  moreover have "fault s' = None \<or> panicked s'"
    by (rule thr_step_fault [OF step]) (use assms(2) in \<open>simp_all add: live_def\<close>)
  ultimately show ?thesis
    using assms(2) thr_step_inv [OF _ step] thr_step_passive_only [OF step]
      same_client_sel(8) [OF thr_step_same_client [OF step]]
    by (auto simp: live_def sends_def grows_def)
qed

lemma run_thread_live:
  "live s \<Longrightarrow> buf_ctl (cl (run_thread os n s)) = buf_ctl (cl s) \<and> grows s (run_thread os n s) \<and>
     (live (run_thread os n s) \<or> panicked (run_thread os n s))"
proof (induction n arbitrary: s)
  case (Suc n)
  show ?case
  proof (cases "thr_step os s")
    case (Some s1)
    note st = thr_step_live [OF Some Suc.prems]
    show ?thesis
    proof (cases "live s1")
      case True
      then have "fault s1 = fault s" using Suc.prems by (simp add: live_def)
      with True Suc.IH [OF True] st Some grows_trans [of s s1] show ?thesis by simp
    next
      case False
      with st have p: "panicked s1" by blast
      then have "fault s1 \<noteq> fault s" using Suc.prems by (simp add: live_def panicked_def)
      with st p Some show ?thesis by simp
    qed
  qed (use Suc.prems in simp)
qed simp

lemma run_thread_hung: "hung s \<Longrightarrow> run_thread os n s = s"
  by (cases n) (simp_all add: hung_step)

text \<open>How a session is left: the thread, if it is recorded, is there or could not be created.\<close>

definition closing :: "('w, 'f) sess \<Rightarrow> bool" where
  "closing s \<longleftrightarrow> thr_ok s \<and> passive_only s \<and> fault s = None \<and>
     (thr s \<noteq> None \<longrightarrow> thr_dat_running (cl s)) \<and>
     (thr s = None \<and> thr_dat_running (cl s) \<longrightarrow> thread_failed (last (out s)))"

lemma live_closing: "live s \<Longrightarrow> closing s"
  by (auto simp: live_def closing_def sess_inv_def)

text \<open>
  A command of a live session returns, unless it is PORT or has to stop a thread that hangs; the
  session stays live, or is about to be closed.
\<close>

lemma process_command_live:
  assumes live: "live s" and np: "verb \<noteq> ''PORT''"
  shows "case process_command os verb arg s of
      None \<Rightarrow> hung s
    | Some (r, s') \<Rightarrow> (r = CMD_RESULT_DONE \<longrightarrow> live s') \<and> closing s' \<and> (hung s' \<longleftrightarrow> hung s) \<and>
        buf_ctl (cl s') = buf_ctl (cl s) \<and> grows s s'"
proof (cases "process_command os verb arg s")
  case None
  then have "\<exists>t. thr s = Some t \<and> unjoinable t"
    using process_command_hangs [of s os verb arg] live by (simp add: live_def)
  with live None show ?thesis
    by (auto simp: hung_def live_def passive_only_def unjoinable_def parked_def)
next
  case (Some p)
  obtain r s' where p: "p = (r, s')" by (cases p)
  note ret = Some [unfolded p]
  have inv: "sess_inv s" "thr_ok s" "passive_only s" "fault s = None" using live by (simp_all add: live_def)
  have po: "passive_only s'" using ret np inv(3,1) by (rule process_command_passive_only)
  have "thr_ok s' \<and> buf_ctl (cl s') = buf_ctl (cl s) \<and> grows s s'"
  proof (cases "verb = ''QUIT''")
    case True
    with ret have c: "client_close_threads os s = Some s'"
      by (auto simp: process_command_def handler_QUIT_def)
    from close_threads_sends [OF c inv(2)] close_threads_conn [OF c] show ?thesis
      by (auto simp: same_conn_def grows_def)
  next
    case False
    from process_command_answers [OF inv(2) False ret] show ?thesis
      by (auto simp: answers_def same_conn_def grows_def)
  qed
  moreover have "fault s' = None \<and> (thr s' \<noteq> None \<longrightarrow> thr_dat_running (cl s')) \<and>
      (thr s' = None \<and> thr_dat_running (cl s') \<longrightarrow> thread_failed (last (out s')))"
    using process_command_leaves [OF inv(1) ret] inv(4) by simp
  moreover have "sess_inv s'" if "r = CMD_RESULT_DONE"
    using process_command_inv [OF inv(1)] ret that by blast
  ultimately show ?thesis
    using ret po process_command_hung [OF inv(1) ret] by (simp add: live_def closing_def)
qed

lemma run_line_live:
  assumes "live s" and "\<And>a. parse_command cmd \<noteq> Some (''PORT'', a)"
  shows "case run_line os cmd s of
      None \<Rightarrow> hung s
    | Some (go, s') \<Rightarrow> (go \<longrightarrow> live s') \<and> closing s' \<and> (hung s' \<longleftrightarrow> hung s) \<and>
        buf_ctl (cl s') = buf_ctl (cl s) \<and> grows s s'"
proof (cases "parse_command cmd")
  case None
  with assms(1) live_closing [OF assms(1)] show ?thesis
    by (auto simp: run_line_def live_def closing_def thr_ok_def grows_def hung_def sess_inv_def passive_only_def)
next
  case (Some va)
  obtain verb arg where va: "va = (verb, arg)" by (cases va)
  with Some assms(2) have np: "verb \<noteq> ''PORT''" by blast
  have done': "r \<noteq> CMD_RESULT_SHUTDOWN \<longleftrightarrow> r = CMD_RESULT_DONE" for r by (cases r) simp_all
  from process_command_live [OF assms(1) np, of os arg] Some va show ?thesis
    by (auto simp: run_line_def done' split: option.splits)
qed

lemma live_buf [simp]: "live (upd_cl (\<lambda>c. c\<lparr>buf_ctl := b\<rparr>) s) \<longleftrightarrow> live s"
  "hung (upd_cl (\<lambda>c. c\<lparr>buf_ctl := b\<rparr>) s) \<longleftrightarrow> hung s"
  by (simp_all add: live_def sess_inv_def paths_ok_def login_ok_def fresh_def thr_ok_def passive_only_def hung_def)

text \<open>A round reads one line of the source.\<close>

definition round_ok :: "('w, 'f) sess \<Rightarrow> (bool \<times> ('w, 'f) sess) option \<Rightarrow> bool" where
  "round_ok s r \<longleftrightarrow>
     (case r of
        None \<Rightarrow> hung s
      | Some (go, s') \<Rightarrow>
          (go \<longrightarrow> live s' \<and> ends (source s') (no_more (buf_ctl (cl s'))) \<and> no_PORT (source s')) \<and>
          closing s' \<and> (hung s' \<longleftrightarrow> hung s) \<and> length (source s') < length (source s) \<and> grows s s')"

lemma loop_round_live:
  assumes live: "live s" and en: "ends (source s) (no_more (buf_ctl (cl s)))" and np: "no_PORT (source s)"
  shows "round_ok s (loop_round os s)"
proof -
  let ?b = "buf_ctl (cl s)"
  let ?t = "takeWhile (\<lambda>p. fst p \<noteq> LF) (source s)"
  obtain e rest where d: "dropWhile (\<lambda>p. fst p \<noteq> LF) (source s) = (LF, e) # rest"
    and en': "ends rest (no_more ?b \<or> e) \<or> (?t = [] \<and> (no_more ?b \<or> e))"
    and len: "length rest < length (source s)"
    using en by (rule ends_step)
  have spec: "map_option (\<lambda>(n, str, b'). (n, str, events b', no_more b')) (rlb_read_line CMD_SIZE ?b) =
      read_line_spec CMD_SIZE (no_more ?b) (source s)"
    unfolding source_def by (rule read_line_eq_spec) (simp add: CMD_SIZE_def)
  have "read_line_spec CMD_SIZE (no_more ?b) (source s) \<noteq> None"
    using d by (auto simp add: read_line_spec_def Let_def)
  with spec obtain n str b' where r: "rlb_read_line CMD_SIZE ?b = Some (n, str, b')"
    by (cases "rlb_read_line CMD_SIZE ?b") auto
  let ?s = "upd_cl (\<lambda>c. c\<lparr>buf_ctl := b'\<rparr>) s"
  let ?str = "map fst ?t"
  have out: "(n, str, events b', no_more b') =
      (if CMD_SIZE \<le> length ?str then (of_nat CMD_SIZE, take (CMD_SIZE - 1) ?str, rest, no_more ?b \<or> e)
       else if ?str = [] \<and> (no_more ?b \<or> e) then (-1, [], rest, no_more ?b \<or> e)
       else (of_nat (length ?str), ?str, rest, no_more ?b \<or> e))"
    using spec r d by (auto simp add: read_line_spec_def Let_def split: if_splits)
  have b': "events b' = rest" "no_more b' = (no_more ?b \<or> e)" using out by (auto split: if_splits)
  have np': "no_PORT rest" and line: "\<And>a. parse_command ?str \<noteq> Some (''PORT'', a)"
    using np d by (auto simp: no_PORT_def lines_of_step)
  have live': "live ?s" using live by simp
  have src: "source ?s = rest" by (simp add: source_def b')
  consider (long) "CMD_SIZE \<le> length ?str" "n = of_nat CMD_SIZE"
    | (eof) "?str = []" "no_more ?b \<or> e" "n = -1"
    | (line) "length ?str < CMD_SIZE" "\<not> (?str = [] \<and> (no_more ?b \<or> e))" "n = of_nat (length ?str)" "str = ?str"
    using out by (auto split: if_splits)
  then show ?thesis
  proof cases
    case long
    then have "loop_round os s = Some (True, mark 500 LINE_TOO_LONG ?s)"
      using r by (simp add: loop_round_def Let_def CMD_SIZE_def)
    moreover have "ends rest (no_more ?b \<or> e)" using en' long by (auto simp: CMD_SIZE_def)
    moreover have "live (mark 500 LINE_TOO_LONG ?s)"
      using live' by (simp add: live_def thr_ok_def)
    ultimately show ?thesis
      using live_closing [of "mark 500 LINE_TOO_LONG ?s"] src len np' b' hung_cong [of "mark 500 LINE_TOO_LONG ?s" s]
      by (simp add: round_ok_def source_def grows_def)
  next
    case eof
    then have "loop_round os s = Some (False, ?s)" using r by (simp add: loop_round_def Let_def)
    then show ?thesis
      using live_closing [OF live'] src len by (simp add: round_ok_def source_def grows_def)
  next
    case line
    have en'': "ends rest (no_more ?b \<or> e)" using en' line(2) by auto
    have small: "\<not> sint n < 0" "n \<noteq> of_nat CMD_SIZE"
    proof -
      have "sint n = int (length ?str)"
        using line(1,3) by (simp add: CMD_SIZE_def signed_of_nat signed_take_bit_int_eq_self)
      then show "\<not> sint n < 0" by simp
      show "n \<noteq> of_nat CMD_SIZE"
      proof
        assume "n = of_nat CMD_SIZE"
        then have "sint n = 1024" by (simp add: CMD_SIZE_def)
        with \<open>sint n = int (length ?str)\<close> line(1) show False by (simp add: CMD_SIZE_def)
      qed
    qed
    have lr: "loop_round os s = run_line os ?str ?s"
      using r small line(4) by (simp add: loop_round_def Let_def)
    show ?thesis
    proof (cases "run_line os ?str ?s")
      case None
      with run_line_live [OF live' \<open>\<And>a. parse_command ?str \<noteq> Some (''PORT'', a)\<close>, of os] lr show ?thesis
        by (simp add: round_ok_def)
    next
      case (Some p)
      obtain go s' where g: "run_line os ?str ?s = Some (go, s')" using Some by (cases p) simp
      with run_line_live [OF live' \<open>\<And>a. parse_command ?str \<noteq> Some (''PORT'', a)\<close>, of os]
      have g': "go \<longrightarrow> live s'" "closing s'" "hung s' \<longleftrightarrow> hung s" "buf_ctl (cl s') = buf_ctl (cl ?s)" "grows ?s s'"
        by simp_all
      have "source s' = rest" and "no_more (buf_ctl (cl s')) = (no_more ?b \<or> e)"
        using g'(4) b' by (simp_all add: source_def)
      moreover have "grows s s'" using g'(5) by (simp add: grows_def)
      ultimately show ?thesis using lr g g' en'' np' len by (simp add: round_ok_def)
    qed
  qed
qed

text \<open>
  The data thread gets into a block that never returns while the loop runs.
\<close>

inductive thread_hangs :: "('w, 'f) os \<Rightarrow> (nat \<Rightarrow> nat) \<Rightarrow> nat \<Rightarrow> ('w, 'f) sess \<Rightarrow> bool"
  for os :: "('w, 'f) os" and sched :: "nat \<Rightarrow> nat" where
  now: "hung (run_thread os (sched i) s) \<Longrightarrow> thread_hangs os sched i s"
| later: "fault (run_thread os (sched i) s) = None \<Longrightarrow>
     loop_round os (run_thread os (sched i) s) = Some (True, s') \<Longrightarrow>
     thread_hangs os sched (Suc i) s' \<Longrightarrow> thread_hangs os sched i s"

inductive_simps thread_hangs_iff: "thread_hangs os sched i s"

lemma command_loop_ends:
  assumes "live s" and "ends (source s) (no_more (buf_ctl (cl s)))" and "no_PORT (source s)"
  shows "case command_loop os sched i s of
      None \<Rightarrow> thread_hangs os sched i s
    | Some s' \<Rightarrow> grows s s' \<and>
        (panicked s' \<and> \<not> thread_hangs os sched i s \<or> closing s' \<and> (hung s' \<longleftrightarrow> thread_hangs os sched i s))"
  using assms
proof (induction "length (source s)" arbitrary: s i rule: less_induct)
  case less
  let ?s = "run_thread os (sched i) s"
  have rt: "buf_ctl (cl ?s) = buf_ctl (cl s)" "grows s ?s" "live ?s \<or> panicked ?s"
    using run_thread_live [OF less.prems(1)] by auto
  have src: "source ?s = source s" by (simp add: source_def rt(1))
  show ?case
  proof (cases "live ?s")
    case False
    with rt(3) have p: "panicked ?s" by blast
    then have "command_loop os sched i s = Some ?s"
      by (subst command_loop.simps) (simp add: panicked_def Let_def)
    moreover have "\<not> thread_hangs os sched i s"
      using p by (subst thread_hangs_iff) (simp add: panicked_def)
    ultimately show ?thesis using rt(2) p by simp
  next
    case True
    then have nf: "fault ?s = None" by (simp add: live_def)
    have ok: "round_ok ?s (loop_round os ?s)"
      by (rule loop_round_live [OF True]) (use less.prems(2,3) src rt(1) in simp_all)
    have cl: "command_loop os sched i s =
        (case loop_round os ?s of None \<Rightarrow> None
         | Some (go, s') \<Rightarrow> if go then command_loop os sched (Suc i) s' else Some s')"
      by (subst command_loop.simps) (simp add: nf Let_def)
    show ?thesis
    proof (cases "loop_round os ?s")
      case None
      with ok have "hung ?s" by (simp add: round_ok_def)
      then have "thread_hangs os sched i s" by (rule thread_hangs.now)
      with None cl show ?thesis by simp
    next
      case (Some p)
      obtain go s1 where p: "loop_round os ?s = Some (go, s1)" using Some by (cases p) simp
      with ok have s1: "go \<longrightarrow> live s1 \<and> ends (source s1) (no_more (buf_ctl (cl s1))) \<and> no_PORT (source s1)"
        "closing s1" "hung s1 \<longleftrightarrow> hung ?s" "length (source s1) < length (source s)" "grows s s1"
        using grows_trans [OF rt(2)] src by (auto simp: round_ok_def)
      show ?thesis
      proof (cases go)
        case False
        then have "thread_hangs os sched i s \<longleftrightarrow> hung ?s"
          using p by (subst thread_hangs_iff) simp
        with False p cl s1 show ?thesis by simp
      next
        case True
        have "thread_hangs os sched i s \<longleftrightarrow> thread_hangs os sched (Suc i) s1"
          using p True nf s1(3) run_thread_hung [of s1] thread_hangs.now [of os sched "Suc i" s1]
          by (subst thread_hangs_iff) auto
        with less.hyps [of s1 "Suc i"] s1 True p cl grows_trans [OF s1(5)] show ?thesis
          by (auto split: option.splits)
      qed
    qed
  qed
qed

text \<open>Closing a session.\<close>

lemma client_close_result:
  assumes "closing s"
  shows "case client_close os (mark c m s) of
      None \<Rightarrow> hung s
    | Some s' \<Rightarrow> \<not> hung s \<and> (\<exists>l. out s' = out s @ (c, m) # l \<and> length l \<le> 1) \<and>
        (fault s' = None \<or> fault s' = Some BAD_JOIN \<and> thread_failed (last (out s)))"
proof (cases "client_close_threads os (mark c m s)")
  case None
  with close_threads_None [of os "mark c m s"] assms show ?thesis
    by (auto simp: client_close_def hung_def closing_def passive_only_def unjoinable_def parked_def)
next
  case (Some s2)
  obtain l where l: "out s2 = out s @ (c, m) # l" "length l \<le> 1"
    using close_threads_sends [OF Some] assms by (auto simp: closing_def thr_ok_def split: if_splits)
  have "\<not> hung s \<and> (fault s2 = None \<or> fault s2 = Some BAD_JOIN \<and> thread_failed (last (out s)))"
  proof (cases "thr s")
    case None
    with Some assms show ?thesis
      by (cases "thr_dat_running (cl s)")
         (auto simp: client_close_threads_def thr_join.simps closing_def hung_def)
  next
    case (Some t)
    then have "thr_dat_running (cl (mark c m s))" "thr (mark c m s) = Some t" using assms by (simp_all add: closing_def)
    from close_threads_result [OF this, of os] Some \<open>client_close_threads os (mark c m s) = Some s2\<close> assms
    show ?thesis by (auto simp: closing_def hung_def unjoinable_def split: if_splits)
  qed
  with l Some show ?thesis by (simp add: client_close_def)
qed

text \<open>
  C8. How a session ends: if the client's connection is eventually closed and the client never
  sends PORT, then, whatever else it sends and however the data thread is scheduled, its thread
  waits for ever exactly when the data thread gets into a block that never returns; otherwise it
  reaches its end, and what was sent starts with the welcome and ends with the goodbye, followed
  by at most the last line of a data thread stopped by the closing; unless \<open>accept()\<close> has failed,
  which ends the whole server. A thread that could not be created (the line before the goodbye
  says so) is joined nevertheless.
\<close>

theorem session_ends:
  fixes os :: "('w, 'f) os" and w :: 'w
  assumes "\<forall>l \<in> set (lines_of (rd_events rs)). \<forall>a. parse_command l \<noteq> Some (''PORT'', a)"
    and "rs = rs0 @ [Data [], Data []]"
  shows "case serve_client os sched (client_create sock rs a p ty) w of
      None \<Rightarrow> thread_hangs os sched 0 (mark 220 WELCOME_MSG (new_sess (client_create sock rs a p ty) w))
    | Some s \<Rightarrow> \<not> thread_hangs os sched 0 (mark 220 WELCOME_MSG (new_sess (client_create sock rs a p ty) w)) \<and>
        (fault s = Some (PANIC ''accept() failed'') \<or>
         (\<exists>mid post. out s = (220, WELCOME_MSG) # mid @ (221, GOODBYE_MSG) # post \<and> length post \<le> 1 \<and>
           (fault s = None \<or> fault s = Some BAD_JOIN \<and> thread_failed (last mid))))"
proof -
  let ?s = "mark 220 WELCOME_MSG (new_sess (client_create sock rs a p ty) w) :: ('w, 'f) sess"
  have src: "source ?s = rd_events rs"
    by (simp add: source_def new_sess_def client_create_def events_def rlb_init_def)
  have live: "live ?s"
    by (simp add: live_def sess_inv_def paths_ok_def login_ok_def fresh_def thr_ok_def passive_only_def
        new_sess_def client_create_def canonical_root)
  have "rd_events (xs @ ys) = rd_events xs @ rd_events ys" for xs ys
    by (induction xs rule: rd_events.induct) auto
  then have en: "ends (source ?s) (no_more (buf_ctl (cl ?s)))"
    unfolding src unfolding assms(2) by (auto simp: ends_def)
  have "no_PORT (source ?s)" unfolding src no_PORT_def by (rule assms(1))
  note loop = command_loop_ends [OF live en this, of os sched 0]
  show ?thesis
  proof (cases "command_loop os sched 0 ?s")
    case None
    with loop show ?thesis by (simp add: serve_client_def client_run_loop_def)
  next
    case (Some s1)
    obtain mid where mid: "out s1 = (220, WELCOME_MSG) # mid"
      using loop Some by (auto simp: grows_def new_sess_def)
    show ?thesis
    proof (cases "panicked s1")
      case True
      with loop Some show ?thesis
        by (auto simp: serve_client_def client_run_loop_def panicked_def closing_def)
    next
      case False
      with loop Some have c: "closing s1" "hung s1 \<longleftrightarrow> thread_hangs os sched 0 ?s" by simp_all
      have "serve_client os sched (client_create sock rs a p ty) w = client_close os (mark 221 GOODBYE_MSG s1)"
        using Some c(1) by (simp add: serve_client_def client_run_loop_def closing_def)
      moreover have "thread_failed (last (out s1)) \<Longrightarrow> thread_failed (last mid)"
        unfolding mid by (auto simp: thread_failed_def split: if_splits)
      ultimately show ?thesis
        using client_close_result [OF c(1), where os = os and c = 221 and m = GOODBYE_MSG] c(2) mid
        by (auto split: option.splits)
    qed
  qed
qed

lemma demo_lines:
  "lines_of (rd_events [Data ''USER anonymous'', Data [CR, LF], Data [], Data []]) = [''USER anonymous'', [], []]"
  by (simp add: lines_of.simps)

theorem session_ends_witness:
  "case serve_client demo_os (\<lambda>_. 0) (client_create 4 [Data ''USER anonymous'', Data [CR, LF], Data [], Data []] [] 0 DATA_UNDEFINED) world0 of
      None \<Rightarrow> thread_hangs demo_os (\<lambda>_. 0) 0 (mark 220 WELCOME_MSG (new_sess
        (client_create 4 [Data ''USER anonymous'', Data [CR, LF], Data [], Data []] [] 0 DATA_UNDEFINED) world0))
    | Some s \<Rightarrow> \<not> thread_hangs demo_os (\<lambda>_. 0) 0 (mark 220 WELCOME_MSG (new_sess
          (client_create 4 [Data ''USER anonymous'', Data [CR, LF], Data [], Data []] [] 0 DATA_UNDEFINED) world0)) \<and>
        (fault s = Some (PANIC ''accept() failed'') \<or>
         (\<exists>mid post. out s = (220, WELCOME_MSG) # mid @ (221, GOODBYE_MSG) # post \<and> length post \<le> 1 \<and>
           (fault s = None \<or> fault s = Some BAD_JOIN \<and> thread_failed (last mid))))"
proof -
  let ?rs = "[Data ''USER anonymous'', Data [CR, LF], Data [], Data []]"
  have 1: "\<forall>l \<in> set (lines_of (rd_events ?rs)). \<forall>a. parse_command l \<noteq> Some (''PORT'', a)"
    unfolding demo_lines by (simp add: parse_command_def cstr_def toupper_def less_eq_char_def)
  have 2: "?rs = [Data ''USER anonymous'', Data [CR, LF]] @ [Data [], Data []]" by simp
  show ?thesis by (rule session_ends [OF 1 2])
qed

end
