(* ===== verification/Interleave.thy ===== *)
theory Interleave
  imports ServerLoop
begin

text \<open>
  A session as a transition system: the commands of the control thread and the steps of the data
  thread in any order (\<open>session_step\<close>), and around it the end of the session (\<open>life_step\<close>): a
  command that shuts it down or the end of the input, the goodbye, and \<open>client_close\<close>. A command
  is one step, except that LIST, RETR and STOR open their file in one step and hand it over
  (\<open>signal_file\<close>) in a later one, with the data thread running in between. With \<open>spurious\<close> set
  \<open>pthread_cond_wait\<close> may return without a signal, as POSIX permits. A wake-up while a command
  joins the thread has the effect of one just before that command.
\<close>

section \<open>Steps\<close>

type_synonym ('w, 'f) conf = "('w, 'f) sess \<times> ('f \<times> dat_type) option"

definition open_cmd ::
  "('w, 'f) os \<Rightarrow> string \<Rightarrow> string \<Rightarrow> ('w, 'f) sess \<Rightarrow> ('w, 'f) stage option" where
  "open_cmd os verb arg s =
     (if verb = ''LIST'' then Some (open_LIST os arg s)
      else if verb = ''RETR'' then Some (open_RETR os arg s)
      else if verb = ''STOR'' then Some (open_STOR os arg s)
      else None)"

inductive session_step :: "bool \<Rightarrow> ('w, 'f) os \<Rightarrow> ('w, 'f) conf \<Rightarrow> ('w, 'f) conf \<Rightarrow> bool"
  for spurious :: bool and os :: "('w, 'f) os" where
  command: "fault s = None \<Longrightarrow> open_cmd os verb arg s = None \<Longrightarrow>
     process_command os verb arg s = Some (CMD_RESULT_DONE, s') \<Longrightarrow>
     session_step spurious os (s, None) (s', None)"
| refused: "fault s = None \<Longrightarrow> open_cmd os verb arg s = Some (Replied s') \<Longrightarrow>
     session_step spurious os (s, None) (s', None)"
| opened: "fault s = None \<Longrightarrow> open_cmd os verb arg s = Some (Opened f ty s') \<Longrightarrow>
     session_step spurious os (s, None) (s', Some (f, ty))"
| signalled: "fault s = None \<Longrightarrow>
     session_step spurious os (s, Some (f, ty)) (signal_file f ty s, None)"
| thread: "fault s = None \<Longrightarrow> thr_step os s = Some s' \<Longrightarrow>
     session_step spurious os (s, p) (s', p)"
| wakeup: "spurious \<Longrightarrow> fault s = None \<Longrightarrow> thr s = Some t \<Longrightarrow> pc t = A_WAIT \<Longrightarrow>
     session_step spurious os (s, p) (s\<lparr>thr := Some (t\<lparr>pc := A_WOKEN\<rparr>)\<rparr>, p)"

inductive_cases session_stepE: "session_step spurious os (s, p) c'"

text \<open>
  The two steps of LIST, RETR or STOR without a step in between are the command itself.
\<close>

lemma open_then_signal:
  "open_cmd os verb arg s = Some x \<Longrightarrow> process_command os verb arg s = finish_stage x"
  by (auto simp: open_cmd_def process_command_def handler_LIST_def handler_RETR_def handler_STOR_def
      split: if_splits)

section \<open>The invariant of the session\<close>

text \<open>
  The thread has a file whenever it may use one, if there are no spurious wake-ups; and no thread
  has failed except by a failing \<open>accept()\<close>, or by I/O on a \<open>NULL\<close> file after such a wake-up.
\<close>

definition file_ok :: "('w, 'f) sess \<Rightarrow> bool" where
  "file_ok s \<longleftrightarrow>
     (\<forall>t. thr s = Some t \<longrightarrow>
        (pc t = A_WOKEN \<longrightarrow> dat_fp (cl s) \<noteq> None) \<and>
        (pc t = A_CONNECT \<or> pc t = A_LOOP \<longrightarrow> t_fp t \<noteq> None) \<and>
        (pc t = A_LOOP \<longrightarrow> conn_fd t \<noteq> None))"

definition known_fault :: "bool \<Rightarrow> fault option \<Rightarrow> bool" where
  "known_fault spurious f \<longleftrightarrow>
     f = None \<or> f = Some (PANIC ''accept() failed'') \<or> spurious \<and> f = Some NULL_FILE"

definition conf_inv :: "bool \<Rightarrow> ('w, 'f) conf \<Rightarrow> bool" where
  "conf_inv spurious c \<longleftrightarrow>
     sess_inv (fst c) \<and> thr_ok (fst c) \<and> (\<not> spurious \<longrightarrow> file_ok (fst c)) \<and>
     known_fault spurious (fault (fst c)) \<and>
     (snd c \<noteq> None \<longrightarrow> CLST_READY \<le> state (cl (fst c)))"

lemma file_ok_cong:
  "thr s' = thr s \<Longrightarrow> dat_fp (cl s') = dat_fp (cl s) \<Longrightarrow> file_ok s' \<longleftrightarrow> file_ok s"
  by (simp add: file_ok_def)

lemma file_ok_start:
  "thr s = None \<Longrightarrow> file_ok s" "thr s = Some active_init \<Longrightarrow> file_ok s"
  "thr s = Some (passive_init fd) \<Longrightarrow> file_ok s"
  by (simp_all add: file_ok_def active_init_def passive_init_def)

text \<open>What a thread step does to the file and the faults.\<close>

lemma connect_step_file:
  "\<exists>t'. thr (connect_step os t s) = Some t' \<and> t_fp t' = t_fp t \<and>
     (pc t' = T_CLOSE \<or> pc t' = A_LOOP \<and> conn_fd t' \<noteq> None)"
  by (auto simp: connect_step_def split: option.splits prod.splits bool.splits)

lemma thr_step_file:
  assumes "thr_step os s = Some s'" and "\<not> spurious \<longrightarrow> file_ok s" and "fault s = None"
  shows "(\<not> spurious \<longrightarrow> file_ok s') \<and> known_fault spurious (fault s')"
  using assms(1)
proof (cases rule: thr_stepE)
  case (connect t)
  with connect_step_file [of os t s] assms(2,3) show ?thesis
    by (auto simp: file_ok_def known_fault_def)
next
  case (actv t conn)
  show ?thesis
  proof (cases "t_fp t = None")
    case True
    with actv have spurious using assms(2) by (auto simp: file_ok_def)
    with actv True show ?thesis by (simp add: known_fault_def block_step_def)
  next
    case False
    from block_step_thread [OF this, of os conn s] actv assms(3) False show ?thesis
      by (auto simp: file_ok_def known_fault_def)
  qed
next
  case (pasv t)
  from pasv_step_thread [OF pasv(1), of os] assms(3) show ?thesis
    by (auto simp: file_ok_def known_fault_def pasv(2,4))
qed (use assms(2,3) in \<open>auto simp: file_ok_def known_fault_def\<close>)

lemma clean_file_ok: "clean s s' \<Longrightarrow> file_ok s \<Longrightarrow> file_ok s'"
  unfolding clean_def using file_ok_cong [of s' s] file_ok_start [of s'] by blast

lemma QUIT_shuts_down: "handler_QUIT os arg s \<noteq> Some (CMD_RESULT_DONE, s')"
  by (simp add: handler_QUIT_def)

lemma command_clean:
  assumes "sess_inv s" and "process_command os verb arg s = Some (r, s')"
    and "open_cmd os verb arg s = None"
  shows "clean s s'"
  by (rule process_command_clean [OF assms(1,2)]) (use assms(3) in \<open>auto simp: open_cmd_def split: if_splits\<close>)

section \<open>Every reachable session is sound\<close>

lemma open_cmd_plain: "open_cmd os verb arg s = Some x \<Longrightarrow> stage_plain s x"
  using open_LIST_plain open_RETR_plain open_STOR_plain by (auto simp: open_cmd_def split: if_splits)

lemma open_cmd_inv: "open_cmd os verb arg s = Some x \<Longrightarrow> sess_inv s \<Longrightarrow> stage_inv x"
  using open_LIST_inv open_RETR_inv open_STOR_inv by (auto simp: open_cmd_def split: if_splits)

lemma plain_keeps:
  "plain s s' \<Longrightarrow> thr_ok s \<Longrightarrow> (\<not> spurious \<longrightarrow> file_ok s) \<Longrightarrow>
     thr_ok s' \<and> (\<not> spurious \<longrightarrow> file_ok s') \<and> fault s' = fault s"
  using plain_clean [of s s'] clean_file_ok [of s s'] answers_plain [of s s']
  by (auto simp: answers_def clean_def)

lemma signal_file_keeps:
  assumes "thr_ok s" and "\<not> spurious \<longrightarrow> file_ok s"
  shows "thr_ok (signal_file f ty s) \<and> (\<not> spurious \<longrightarrow> file_ok (signal_file f ty s)) \<and>
    fault (signal_file f ty s) = fault s"
  using assms by (auto simp: thr_ok_def file_ok_def signal_file_def)

lemma thr_step_ready:
  "thr_step os s = Some s' \<Longrightarrow> CLST_READY \<le> state (cl s) \<Longrightarrow> CLST_READY \<le> state (cl s')"
  using thr_step_state [of os s s'] by auto

lemma session_step_conf_inv:
  assumes "session_step spurious os c c'" and "conf_inv spurious c"
  shows "conf_inv spurious c'"
  using assms(1)
proof (cases rule: session_step.cases)
  case (command s verb arg s')
  have inv: "sess_inv s" "thr_ok s" "\<not> spurious \<longrightarrow> file_ok s" "known_fault spurious (fault s)"
    using assms(2) command by (simp_all add: conf_inv_def)
  have cl: "clean s s'" using inv(1) command by (intro command_clean) simp_all
  have "verb \<noteq> ''QUIT''"
    using command(5) QUIT_shuts_down [of os arg s s'] by (auto simp: process_command_def)
  then have "thr_ok s'"
    using process_command_answers [OF inv(2) _ command(5)] by (simp add: answers_def)
  moreover have "fault s' = fault s" using cl by (simp add: clean_def)
  ultimately show ?thesis
    using command inv(3,4) process_command_inv [OF inv(1) command(5)] clean_file_ok [OF cl]
    by (simp add: conf_inv_def)
next
  case (refused s verb arg s')
  have inv: "sess_inv s" "thr_ok s" "\<not> spurious \<longrightarrow> file_ok s" "known_fault spurious (fault s)"
    using assms(2) refused by (simp_all add: conf_inv_def)
  from open_cmd_plain [OF refused(4)] open_cmd_inv [OF refused(4) inv(1)] plain_keeps [OF _ inv(2,3)] inv refused
  show ?thesis by (auto simp: conf_inv_def)
next
  case (opened s verb arg f ty s')
  have inv: "sess_inv s" "thr_ok s" "\<not> spurious \<longrightarrow> file_ok s" "known_fault spurious (fault s)"
    using assms(2) opened by (simp_all add: conf_inv_def)
  from open_cmd_plain [OF opened(4)] open_cmd_inv [OF opened(4) inv(1)] plain_keeps [OF _ inv(2,3)] inv opened
  show ?thesis by (auto simp: conf_inv_def)
next
  case (signalled s f ty)
  have inv: "sess_inv s" "thr_ok s" "\<not> spurious \<longrightarrow> file_ok s" "CLST_READY \<le> state (cl s)"
    using assms(2) signalled by (simp_all add: conf_inv_def)
  with signal_file_keeps [OF inv(2,3)] inv_signal_file [OF inv(1,4)] signalled assms(2) show ?thesis
    by (simp add: conf_inv_def)
next
  case (thread s s' p)
  have inv: "sess_inv s" "thr_ok s" "\<not> spurious \<longrightarrow> file_ok s" using assms(2) thread by (simp_all add: conf_inv_def)
  obtain l where "sends s l s'" using thr_step_sends [OF thread(4) inv(2)] by blast
  with thr_step_inv [OF inv(1) thread(4)] thr_step_file [OF thread(4) inv(3) thread(3)]
    thr_step_ready [OF thread(4)] thread assms(2)
  show ?thesis by (auto simp: conf_inv_def sends_def)
next
  case (wakeup s t p)
  with assms(2) show ?thesis by (auto simp: conf_inv_def sess_inv_def thr_ok_def)
qed

definition new_conf :: "('w, 'f) conf \<Rightarrow> bool" where
  "new_conf c \<longleftrightarrow> (\<exists>sock rs a p ty w. c = (new_sess (client_create sock rs a p ty) w, None))"

lemma new_conf_inv: "new_conf c \<Longrightarrow> conf_inv spurious c"
  by (auto simp: new_conf_def conf_inv_def new_sess_def client_create_def sess_inv_def paths_ok_def
      login_ok_def fresh_def thr_ok_def file_ok_def known_fault_def canonical_root)

interpretation sessions: transition_invariant "session_step spurious os" new_conf "conf_inv spurious"
  for spurious os
  by unfold_locales (auto intro: new_conf_inv session_step_conf_inv)

section \<open>The end of a session\<close>

text \<open>
  A session in its command loop, after the loop (\<open>CMD_RESULT_SHUTDOWN\<close> or the end of the
  input) with its goodbye sent, and closed. The data thread may run on until \<open>client_close\<close>
  stops it.
\<close>

datatype ('w, 'f) life =
  Live "('w, 'f) conf" | Closing "('w, 'f) sess" | Closed "('w, 'f) sess"

inductive life_step :: "bool \<Rightarrow> ('w, 'f) os \<Rightarrow> ('w, 'f) life \<Rightarrow> ('w, 'f) life \<Rightarrow> bool"
  for spurious :: bool and os :: "('w, 'f) os" where
  live: "session_step spurious os c c' \<Longrightarrow> life_step spurious os (Live c) (Live c')"
| shutdown: "fault s = None \<Longrightarrow> process_command os verb arg s = Some (CMD_RESULT_SHUTDOWN, s') \<Longrightarrow>
     life_step spurious os (Live (s, None)) (Closing (mark 221 GOODBYE_MSG s'))"
| end_of_input: "fault s = None \<Longrightarrow>
     life_step spurious os (Live (s, None)) (Closing (mark 221 GOODBYE_MSG s))"
| thread: "fault s = None \<Longrightarrow> thr_step os s = Some s' \<Longrightarrow>
     life_step spurious os (Closing s) (Closing s')"
| wakeup: "spurious \<Longrightarrow> fault s = None \<Longrightarrow> thr s = Some t \<Longrightarrow> pc t = A_WAIT \<Longrightarrow>
     life_step spurious os (Closing s) (Closing (s\<lparr>thr := Some (t\<lparr>pc := A_WOKEN\<rparr>)\<rparr>))"
| close: "fault s = None \<Longrightarrow> client_close os s = Some s' \<Longrightarrow>
     life_step spurious os (Closing s) (Closed s')"

fun sess_of :: "('w, 'f) life \<Rightarrow> ('w, 'f) sess" where
  "sess_of (Live c) = fst c"
| "sess_of (Closing s) = s"
| "sess_of (Closed s) = s"

text \<open>The session ends with the failure to create a thread.\<close>

definition no_thread_left :: "('w, 'f) sess \<Rightarrow> bool" where
  "no_thread_left s \<longleftrightarrow> (\<exists>ls p. out s = ls @ [p, (221, GOODBYE_MSG)] \<and> thread_failed p)"

definition closing_inv :: "bool \<Rightarrow> ('w, 'f) sess \<Rightarrow> bool" where
  "closing_inv spurious s \<longleftrightarrow>
     (\<not> spurious \<longrightarrow> file_ok s) \<and> known_fault spurious (fault s) \<and>
     (thr s \<noteq> None \<longrightarrow> thr_dat_running (cl s)) \<and>
     (thr s = None \<and> thr_dat_running (cl s) \<longrightarrow> no_thread_left s)"

definition closed_inv :: "('w, 'f) sess \<Rightarrow> bool" where
  "closed_inv s \<longleftrightarrow> fault s = None \<or> fault s = Some BAD_JOIN \<and> no_thread_left s"

fun life_inv :: "bool \<Rightarrow> ('w, 'f) life \<Rightarrow> bool" where
  "life_inv spurious (Live c) = conf_inv spurious c"
| "life_inv spurious (Closing s) = closing_inv spurious s"
| "life_inv spurious (Closed s) = closed_inv s"

lemma goodbye_inv:
  assumes "\<not> spurious \<longrightarrow> file_ok s" and "known_fault spurious (fault s)"
    and "thr s \<noteq> None \<longrightarrow> thr_dat_running (cl s)"
    and "thr s = None \<and> thr_dat_running (cl s) \<longrightarrow> out s \<noteq> [] \<and> thread_failed (last (out s))"
  shows "closing_inv spurious (mark 221 GOODBYE_MSG s)"
proof -
  have "no_thread_left (mark 221 GOODBYE_MSG s)" if "out s \<noteq> []" "thread_failed (last (out s))"
    unfolding no_thread_left_def using that
    by (intro exI [of _ "butlast (out s)"] exI [of _ "last (out s)"]) simp
  then show ?thesis
    using assms file_ok_cong [of "mark 221 GOODBYE_MSG s" s] by (simp add: closing_inv_def del: not_None_eq)
qed

lemma close_inv:
  assumes "closing_inv spurious s" and "fault s = None" and "client_close os s = Some s'"
  shows "closed_inv s'"
proof -
  obtain s1 where s1: "client_close_threads os s = Some s1" and s': "fault s' = fault s1" "out s' = out s1"
    using assms(3) by (cases "client_close_threads os s") (auto simp: client_close_def)
  show ?thesis
  proof (cases "thr s")
    case None
    with s1 s' assms(1,2) show ?thesis
      by (cases "thr_dat_running (cl s)")
         (auto simp: client_close_threads_def thr_join.simps closing_inv_def closed_inv_def no_thread_left_def)
  next
    case (Some t)
    then have "thr_dat_running (cl s)" using assms(1) by (simp add: closing_inv_def)
    from close_threads_result [OF this Some, of os] s1 s' assms(2) show ?thesis
      by (auto simp: closed_inv_def split: if_splits)
  qed
qed

lemma shutdown_out:
  assumes "sess_inv s" and "process_command os verb arg s = Some (CMD_RESULT_SHUTDOWN, s')"
    and "thr_ok s" and "thr_dat_running (cl s')"
  shows "out s' \<noteq> []"
proof -
  have "verb \<noteq> ''QUIT''"
  proof
    assume "verb = ''QUIT''"
    with assms(2) have "client_close_threads os s = Some s'"
      by (auto simp: process_command_def handler_QUIT_def)
    from close_threads_clean [OF assms(1) this] assms(4) show False by simp
  qed
  from process_command_answers [OF assms(3) this assms(2)] show ?thesis by (auto simp: answers_def)
qed

lemma life_step_inv:
  assumes "life_step spurious os l l'" and "life_inv spurious l"
  shows "life_inv spurious l'"
  using assms(1)
proof (cases rule: life_step.cases)
  case (live c c')
  with assms(2) session_step_conf_inv [of spurious os c c'] show ?thesis by simp
next
  case (shutdown s verb arg s')
  have inv: "sess_inv s" "\<not> spurious \<longrightarrow> file_ok s" "known_fault spurious (fault s)" "thr_ok s"
    using assms(2) shutdown by (simp_all add: conf_inv_def)
  note leaves = process_command_leaves [OF inv(1) shutdown(4)]
  have "\<not> spurious \<longrightarrow> file_ok s'"
    using shutdown_clean [OF inv(1) shutdown(4)] clean_file_ok inv(2) by blast
  with goodbye_inv [of spurious s'] leaves inv(3) shutdown_out [OF inv(1) shutdown(4) inv(4)] shutdown(2)
  show ?thesis by simp
next
  case (end_of_input s)
  with assms(2) goodbye_inv [of spurious s] show ?thesis by (auto simp: conf_inv_def sess_inv_def)
next
  case (thread s s')
  have inv: "\<not> spurious \<longrightarrow> file_ok s" and run: "thr s \<noteq> None \<longrightarrow> thr_dat_running (cl s)"
    using assms(2) thread by (simp_all add: closing_inv_def)
  have "thr_dat_running (cl s') = thr_dat_running (cl s)" "thr s \<noteq> None" "thr s' \<noteq> None"
    using same_client_sel(5) [OF thr_step_same_client [OF thread(4)]] thr_step_has_thread [OF thread(4)]
      thr_step_thr [OF thread(4)] by auto
  with run thr_step_file [OF thread(4) inv thread(3)] thread(2) show ?thesis by (auto simp: closing_inv_def)
next
  case (wakeup s t)
  with assms(2) show ?thesis by (simp add: closing_inv_def)
next
  case (close s s')
  with assms(2) close_inv [of spurious s os s'] show ?thesis by simp
qed

definition new_life :: "('w, 'f) life \<Rightarrow> bool" where
  "new_life l \<longleftrightarrow> (\<exists>c. l = Live c \<and> new_conf c)"

interpretation lives: transition_invariant "life_step spurious os" new_life "life_inv spurious"
  for spurious os
  by unfold_locales (auto simp: new_life_def intro: new_conf_inv life_step_inv)

text \<open>
  C3. In every state a session can reach, in any order of commands and steps of the data thread,
  through its closing, with or without spurious wake-ups: while it lives, the working directory
  and the pending rename source are canonical paths; a client that has not logged in is in the
  root with no thread, file, rename or restart offset; the data thread exists exactly while it is
  recorded as running. The only faults are a failing \<open>accept()\<close>, a thread that uses a \<open>NULL\<close>
  file, but that only where wake-ups are spurious, and, when a session is closed, the join of a
  thread that is not there, but that only where \<open>pthread_create\<close> has failed and the last line
  before the goodbye has said so.
\<close>

theorem reachable_sound:
  assumes "(life_step spurious os)\<^sup>*\<^sup>* (Live (new_sess (client_create sock rs a p ty) w, None)) l"
  shows "case l of
      Live (s, q) \<Rightarrow> sess_inv s \<and>
        (fault s = None \<or> fault s = Some (PANIC ''accept() failed'') \<or> spurious \<and> fault s = Some NULL_FILE)
    | Closing s \<Rightarrow>
        fault s = None \<or> fault s = Some (PANIC ''accept() failed'') \<or> spurious \<and> fault s = Some NULL_FILE
    | Closed s \<Rightarrow> fault s = None \<or> fault s = Some BAD_JOIN \<and>
        (\<exists>ls p. out s = ls @ [p, (221, GOODBYE_MSG)] \<and> thread_failed p)"
proof -
  have "life_inv spurious l"
    by (rule lives.reachable [OF _ assms], unfold new_life_def new_conf_def) blast
  then show ?thesis
    by (auto simp: conf_inv_def known_fault_def closing_inv_def closed_inv_def no_thread_left_def split: life.split)
qed

section \<open>Sessions that cannot transfer any more\<close>

text \<open>
  A file is waiting (\<open>dat_fp\<close> is set) and no thread will take it: the port-mode thread missed
  the signal, because it had not reached \<open>pthread_cond_wait\<close>, which does not look at \<open>dat_fp\<close>
  before waiting; or the thread has already given up its own file and is about to end, but had
  not yet set the state back; or it is gone.
\<close>

definition late :: "'f dthr \<Rightarrow> bool" where
  "late t \<longleftrightarrow> pc t = T_READY \<or> pc t = T_MARK \<or> pc t = T_DONE"

definition stuck :: "('w, 'f) sess \<Rightarrow> bool" where
  "stuck s \<longleftrightarrow> sess_inv s \<and> dat_fp (cl s) \<noteq> None \<and> (\<forall>t. thr s = Some t \<longrightarrow> parked t \<or> late t)"

lemma ignore_if_xfer_busy: "dat_fp (cl s) \<noteq> None \<Longrightarrow> ignore_if_xfer s = Some (mark 503 ''Data transfer in progress, ignored.'' s)"
  by (simp add: ignore_if_xfer_def client_xfer_in_progress_def)

lemma guarded_refuses:
  "dat_fp (cl s) \<noteq> None \<Longrightarrow> guarded (ignore_if_xfer # gs) body s =
     DONE (mark 503 ''Data transfer in progress, ignored.'' s)"
  by (simp add: guarded_def guards.simps ignore_if_xfer_busy)

lemma staged_refuses:
  "dat_fp (cl s) \<noteq> None \<Longrightarrow> staged body s = Replied (mark 503 ''Data transfer in progress, ignored.'' s)"
  by (simp add: staged_def guards.simps ignore_if_xfer_busy)

definition busy :: "('w, 'f) sess \<Rightarrow> ('w, 'f) reply" where
  "busy s = DONE (mark 503 ''Data transfer in progress, ignored.'' s)"

lemma busy_replied: "busy s = Some (r, s') \<Longrightarrow> replied s s'"
  by (auto simp: busy_def)

lemma busy_handlers:
  assumes "dat_fp (cl s) \<noteq> None"
  shows "handler_TYPE arg s = busy s" "handler_USER arg s = busy s" "handler_PASS arg s = busy s"
    "handler_PORT os arg s = busy s" "handler_PASV os arg s = busy s" "handler_CWD os arg s = busy s"
    "handler_PWD arg s = busy s" "handler_MKD os arg s = busy s" "handler_RMD os arg s = busy s"
    "handler_RNFR os arg s = busy s" "handler_RNTO os arg s = busy s" "handler_DELE os arg s = busy s"
    "handler_REST arg s = busy s" "handler_LIST os arg s = busy s" "handler_RETR os arg s = busy s"
    "handler_STOR os arg s = busy s"
  unfolding handler_TYPE_def handler_USER_def handler_PASS_def handler_PORT_def handler_PASV_def
    handler_CWD_def handler_PWD_def handler_MKD_def handler_RMD_def handler_RNFR_def handler_RNTO_def
    handler_DELE_def handler_REST_def handler_LIST_def handler_RETR_def handler_STOR_def
    open_LIST_def open_RETR_def open_STOR_def guarded_refuses [OF assms] staged_refuses [OF assms]
    finish_stage.simps busy_def
  by (rule refl)+

text \<open>While a file is waiting every command but QUIT and ABOR is a reply and nothing else.\<close>

lemma busy_command:
  assumes "dat_fp (cl s) \<noteq> None" and "process_command os verb arg s = Some (r, s')"
    and "verb \<noteq> ''QUIT''" and "verb \<noteq> ''ABOR''"
  shows "replied s s'"
  by (cases rule: process_command_cases [OF assms(2)])
     (erule notE [OF assms(3)] | erule notE [OF assms(4)] |
      erule busy_replied | (unfold busy_handlers [OF assms(1)], erule busy_replied) |
      (simp add: handler_SYST_def, elim conjE, erule subst, rule replied_mark) | simp)+


lemma busy_open_cmd:
  assumes "dat_fp (cl s) \<noteq> None" and "open_cmd os verb arg s = Some x"
  shows "x = Replied (mark 503 ''Data transfer in progress, ignored.'' s)"
  using assms(2) staged_refuses [OF assms(1)]
  by (auto simp: open_cmd_def open_LIST_def open_RETR_def open_STOR_def split: if_splits)

text \<open>Stopping a thread that is already at its end only lets it finish.\<close>

lemma cleanup_ext [simp]: "ext (cleanup_ready t s) = ext s" "ext (cleanup_mark t s) = ext s"
  by (simp_all add: cleanup_ready_def cleanup_mark_def Let_def)

lemma join_late:
  assumes "thr s = Some t" and "late t"
  shows "\<exists>s'. thr_join os s = Some s' \<and> thr s' = None \<and> ext s' = ext s \<and> fault s' = fault s \<and>
    dat_fp (cl s') = dat_fp (cl s)"
proof -
  have done': "\<exists>s'. thr_join os s = Some s' \<and> thr s' = None \<and> ext s' = ext s \<and> fault s' = fault s \<and>
      dat_fp (cl s') = dat_fp (cl s)" if "thr s = Some t" "pc t = T_DONE" for s and t
    using that by (simp add: thr_join.simps)
  have mark': "\<exists>s'. thr_join os s = Some s' \<and> thr s' = None \<and> ext s' = ext s \<and> fault s' = fault s \<and>
      dat_fp (cl s') = dat_fp (cl s)" if "thr s = Some t" "pc t = T_MARK" for s and t
    using that done' [of "cleanup_mark t s" "t\<lparr>pc := T_DONE\<rparr>"]
    by (simp add: thr_join.simps [of os s] thr_step_def)
  have ready': "\<exists>s'. thr_join os s = Some s' \<and> thr s' = None \<and> ext s' = ext s \<and> fault s' = fault s \<and>
      dat_fp (cl s') = dat_fp (cl s)" if "thr s = Some t" "pc t = T_READY" for s and t
    using that mark' [of "cleanup_ready t s" "t\<lparr>pc := T_MARK\<rparr>"]
    by (simp add: thr_join.simps [of os s] thr_step_def)
  from assms done' mark' ready' show ?thesis by (auto simp: late_def)
qed

lemma stuck_replied: "replied s s' \<Longrightarrow> stuck s \<Longrightarrow> stuck s' \<and> ext s' = ext s \<and> dat_fp (cl s') = dat_fp (cl s)"
  using sess_inv_replied [of s s'] by (auto simp: replied_def stuck_def)

lemma stuck_ABOR:
  assumes st: "stuck s" and ret: "handler_ABOR os arg s = Some (r, s')"
  shows "stuck s' \<and> ext s' = ext s \<and> dat_fp (cl s') = dat_fp (cl s)"
proof -
  have inv: "sess_inv s" and busy: "client_xfer_in_progress s"
    using st by (simp_all add: stuck_def client_xfer_in_progress_def)
  with ret obtain s1 m where s1: "client_close_threads os s = Some s1" and s': "s' = mark 226 m s1"
    by (auto simp: handler_ABOR_def Let_def split: option.splits)
  have inv1: "sess_inv s1" using close_threads_inv [OF inv s1] by simp
  have "thr s1 = None \<and> ext s1 = ext s \<and> dat_fp (cl s1) = dat_fp (cl s)"
  proof (cases "thr s")
    case None
    with s1 inv show ?thesis by (auto simp: client_close_threads_def sess_inv_def)
  next
    case (Some t)
    then have run: "thr_dat_running (cl s)" using inv by (simp add: sess_inv_def)
    have "\<not> parked t" using s1 close_threads_result [OF run Some, of os] by (auto simp: unjoinable_def split: if_splits)
    with st Some have "late t" by (auto simp: stuck_def)
    with join_late [of "upd_cl (\<lambda>c. c\<lparr>thr_dat_running := False\<rparr>) s" t os] Some s1 run show ?thesis
      by (auto simp: client_close_threads_def)
  qed
  with inv1 s' st show ?thesis by (simp add: stuck_def)
qed

lemma stuck_thread:
  assumes st: "stuck s" and step: "thr_step os s = Some s'"
  shows "stuck s' \<and> ext s' = ext s \<and> dat_fp (cl s') = dat_fp (cl s)"
proof -
  have "sess_inv s'" using thr_step_inv [OF _ step] st by (simp add: stuck_def)
  with step st show ?thesis
    by (cases rule: thr_stepE [OF step])
       (auto simp: stuck_def parked_def late_def)
qed

lemma stuck_step:
  assumes "session_step False os (s, None) c'" and "stuck s"
  shows "snd c' = None \<and> stuck (fst c') \<and> ext (fst c') = ext s \<and> dat_fp (cl (fst c')) = dat_fp (cl s)"
  using assms(1)
proof (cases rule: session_step.cases)
  case (command verb arg s')
  have busy: "dat_fp (cl s) \<noteq> None" using assms(2) by (simp add: stuck_def)
  show ?thesis
  proof (cases "verb = ''ABOR''")
    case True
    with command(4) have "handler_ABOR os arg s = Some (CMD_RESULT_DONE, s')"
      by (simp add: process_command_def)
    from stuck_ABOR [OF assms(2) this] command show ?thesis by simp
  next
    case False
    have "verb \<noteq> ''QUIT''"
      using command(4) QUIT_shuts_down [of os arg s s'] by (auto simp: process_command_def)
    with busy_command [OF busy command(4)] False have "replied s s'" by blast
    from stuck_replied [OF this assms(2)] command show ?thesis by simp
  qed
next
  case (refused verb arg s')
  have "dat_fp (cl s) \<noteq> None" using assms(2) by (simp add: stuck_def)
  from busy_open_cmd [OF this refused(3)] stuck_replied [OF replied_mark(1) assms(2)] refused
  show ?thesis by auto
next
  case (opened verb arg f ty s')
  have "dat_fp (cl s) \<noteq> None" using assms(2) by (simp add: stuck_def)
  from busy_open_cmd [OF this opened(3)] show ?thesis by simp
next
  case (thread s')
  from stuck_thread [OF assms(2) thread(3)] thread show ?thesis by simp
qed simp_all

text \<open>
  C34. A session whose file no thread will take is out of use for as long as it lives, unless a
  thread that waits is woken without a signal: whatever the client
  sends and however the thread runs, the file stays there (so that every transfer, change of
  directory and so on is answered 503), nothing happens to the outside world, and not even ABOR,
  where it returns, clears it.
\<close>

theorem stuck_forever:
  assumes "stuck s" and "(session_step False os)\<^sup>*\<^sup>* (s, None) (s', q)"
  shows "stuck s' \<and> dat_fp (cl s') = dat_fp (cl s) \<and> ext s' = ext s \<and> q = None"
proof -
  have "snd c = None \<and> stuck (fst c) \<and> ext (fst c) = ext s \<and> dat_fp (cl (fst c)) = dat_fp (cl s)"
    if "(session_step False os)\<^sup>*\<^sup>* (s, None) c" for c
    using that
  proof (induction rule: rtranclp_induct)
    case base
    then show ?case by (simp add: assms(1))
  next
    case (step y z)
    then show ?case using stuck_step [of os "fst y" z] by (cases y) auto
  qed
  from this [OF assms(2)] show ?thesis by simp
qed

section \<open>Executing schedules\<close>

text \<open>A schedule, to reach concrete states by evaluation.\<close>

datatype action = Cmd string string | Sig | Thr

fun act :: "('w, 'f) os \<Rightarrow> action \<Rightarrow> ('w, 'f) conf \<Rightarrow> ('w, 'f) conf option" where
  "act os (Cmd verb arg) (s, None) =
     (if fault s \<noteq> None then None
      else case open_cmd os verb arg s of
        None \<Rightarrow>
          (case process_command os verb arg s of
             Some (CMD_RESULT_DONE, s') \<Rightarrow> Some (s', None)
           | _ \<Rightarrow> None)
      | Some (Replied s') \<Rightarrow> Some (s', None)
      | Some (Opened f ty s') \<Rightarrow> Some (s', Some (f, ty)))"
| "act os Sig (s, Some (f, ty)) =
     (if fault s \<noteq> None then None else Some (signal_file f ty s, None))"
| "act os Thr (s, p) =
     (if fault s \<noteq> None then None else map_option (\<lambda>s'. (s', p)) (thr_step os s))"
| "act os _ _ = None"

fun run :: "('w, 'f) os \<Rightarrow> action list \<Rightarrow> ('w, 'f) conf \<Rightarrow> ('w, 'f) conf option" where
  "run os [] c = Some c"
| "run os (a # as) c = (case act os a c of None \<Rightarrow> None | Some c' \<Rightarrow> run os as c')"

lemma act_step: "act os a c = Some c' \<Longrightarrow> session_step spurious os c c'"
  by (cases "(os, a, c)" rule: act.cases)
     (auto intro: session_step.intros split: if_splits option.splits stage.splits prod.splits cmd_result.splits)

lemma run_steps: "run os as c = Some c' \<Longrightarrow> (session_step False os)\<^sup>*\<^sup>* c c'"
proof (induction "as" arbitrary: c)
  case (Cons a "as")
  then show ?case
    by (auto split: option.splits intro: converse_rtranclp_into_rtranclp dest!: act_step)
qed simp

text \<open>A fresh session of the in-memory system, and what evaluating a schedule on it needs.\<close>

definition conf0 :: "(world, string) conf" where
  "conf0 = (new_sess (client_create 4 [] [] 0 DATA_UNDEFINED) world0, None)"

lemmas run_simps =
  open_cmd_def process_command_def handler_USER_def handler_PASS_def handler_PORT_def
  handler_PASV_def guarded_def guards.simps logged_in_def user_auth_def ignore_if_xfer_def auth_def
  data_def client_xfer_in_progress_def Let_def client_close_threads_def port_start_def
  pasv_start_def open_LIST_def staged_def list_cmd_def signal_file_def conf0_def new_sess_def
  client_create_def demo_os_def world0_def active_init_def passive_init_def pasv_listen_def
  ephemeral_def sock_ephemeral_def thr_step_def pasv_step_def pasv_connected_def block_step_def
  process_block_def demo_fread_def content_def put_def BUF_SIZE_def cleanup_close_def
  close_opt_def close_file_def

lemma demo_address: "scan_address ''127,0,0,1,7,208'' = Some [127, 0, 0, 1, 7, 208]"
proof -
  have "''127,0,0,1,7,208'' = commas (map dec [127, 0, 0, 1, 7, 208])"
    by (simp add: dec.simps digit_chars)
  then show ?thesis using scan_address_commas [of "[127, 0, 0, 1, 7, 208]" "[]"] by simp
qed

lemma demo_write_listing:
  "chunk w = 4 \<Longrightarrow> write_all (demo_write 7) ''total 0'' w = Some (0, w\<lparr>sent := sent w @ ''total 0''\<rparr>)"
  by (subst write_all.simps, simp add: demo_write_def, subst write_all.simps,
      simp add: demo_write_def, subst write_all.simps, simp)

text \<open>LIST right after PORT: the file is handed over before the thread waits for it.\<close>

definition early_list :: "action list" where
  "early_list = [Cmd ''USER'' ''qwq'', Cmd ''PASS'' ''quq'', Cmd ''PORT'' ''127,0,0,1,7,208'',
     Cmd ''LIST'' [], Sig]"

lemma early_list_runs:
  "\<exists>s t. run demo_os early_list conf0 = Some (s, None) \<and> dat_fp (cl s) \<noteq> None \<and>
     thr s = Some t \<and> pc t = A_START"
  by (simp add: early_list_def run_simps demo_address cong: mark_weak_cong markf_weak_cong)

text \<open>
  A second LIST as soon as the data connection of the first is closed, before the 226: it is
  accepted on the strength of the old state and handed to a thread that is about to end.
\<close>

definition second_list :: "action list" where
  "second_list = [Cmd ''USER'' ''qwq'', Cmd ''PASS'' ''quq'', Cmd ''PASV'' [], Cmd ''LIST'' [], Sig,
     Thr, Thr, Cmd ''LIST'' [], Sig]"

lemma second_list_runs:
  "\<exists>s t. run demo_os second_list conf0 = Some (s, None) \<and> dat_fp (cl s) \<noteq> None \<and>
     thr s = Some t \<and> pc t = T_READY"
  by (simp add: second_list_def run_simps demo_write_listing cong: mark_weak_cong markf_weak_cong)

lemma demo_reach_stuck:
  assumes "run demo_os as conf0 = Some (s, None)" and "dat_fp (cl s) \<noteq> None"
    and "thr s = Some t" and "pc t = A_START \<or> pc t = T_READY"
  shows "(session_step False demo_os)\<^sup>*\<^sup>* conf0 (s, None) \<and> stuck s"
proof -
  have reach: "(session_step False demo_os)\<^sup>*\<^sup>* conf0 (s, None)" using assms(1) by (rule run_steps)
  then have "conf_inv False (s, None)"
    by (rule sessions.reachable [rotated]) (unfold new_conf_def conf0_def, intro exI, rule refl)
  with reach assms(2-4) show ?thesis by (auto simp: conf_inv_def stuck_def parked_def late_def)
qed

text \<open>
  Such sessions are reached by ordinary clients: by PORT and LIST when the control thread
  gets to \<open>pthread_cond_signal\<close> before the data thread gets to \<open>pthread_cond_wait\<close>, and by a
  client in passive mode that sends its next LIST as soon as it sees the data connection closed.
\<close>

theorem stuck_reachable:
  "(\<exists>s t. (session_step False demo_os)\<^sup>*\<^sup>* conf0 (s, None) \<and> stuck s \<and> thr s = Some t \<and> pc t = A_START) \<and>
   (\<exists>s t. (session_step False demo_os)\<^sup>*\<^sup>* conf0 (s, None) \<and> stuck s \<and> thr s = Some t \<and> pc t = T_READY)"
  using early_list_runs second_list_runs demo_reach_stuck by blast

text \<open>The session of the first schedule.\<close>

definition stuck0 :: "(world, string) sess" where
  "stuck0 = fst (the (run demo_os early_list conf0))"

lemma stuck0_stuck: "stuck stuck0 \<and> dat_fp (cl stuck0) \<noteq> None"
  and stuck0_reached: "(session_step False demo_os)\<^sup>*\<^sup>* conf0 (stuck0, None)"
proof -
  obtain s t where s: "run demo_os early_list conf0 = Some (s, None)" "dat_fp (cl s) \<noteq> None"
    "thr s = Some t" "pc t = A_START"
    using early_list_runs by blast
  then have "stuck0 = s" by (simp add: stuck0_def)
  with demo_reach_stuck [OF s(1-3)] s
  show "stuck stuck0 \<and> dat_fp (cl stuck0) \<noteq> None" "(session_step False demo_os)\<^sup>*\<^sup>* conf0 (stuck0, None)"
    by simp_all
qed

theorem stuck_forever_witness:
  "\<exists>s' q. (session_step False demo_os)\<^sup>*\<^sup>* conf0 (stuck0, None) \<and>
     (session_step False demo_os)\<^sup>+\<^sup>+ (stuck0, None) (s', q) \<and>
     stuck s' \<and> dat_fp (cl s') = dat_fp (cl stuck0) \<and> ext s' = ext stuck0 \<and> q = None"
proof -
  obtain t where t: "thr stuck0 = Some t" "pc t = A_START" "fault stuck0 = None"
    using early_list_runs unfolding stuck0_def
    by (auto simp: early_list_def run_simps demo_address cong: mark_weak_cong markf_weak_cong)
  let ?s = "stuck0\<lparr>thr := Some (t\<lparr>pc := A_WAIT\<rparr>)\<rparr>"
  have "session_step False demo_os (stuck0, None) (?s, None)"
    using t by (intro session_step.thread) (simp_all add: thr_step_def)
  then have step: "(session_step False demo_os)\<^sup>+\<^sup>+ (stuck0, None) (?s, None)" by (rule tranclp.r_into_trancl)
  from stuck_forever [OF conjunct1 [OF stuck0_stuck] tranclp_into_rtranclp [OF step]] step stuck0_reached
  show ?thesis by blast
qed

text \<open>
  A session that cannot create the thread for PASV: it says goodbye, and then joins a thread that
  is not there.
\<close>

definition logged_in_conf :: "action list" where
  "logged_in_conf = [Cmd ''USER'' ''qwq'', Cmd ''PASS'' ''quq'']"

definition conf_busy :: "(world, string) conf" where
  "conf_busy = (new_sess (client_create 4 [] [] 0 DATA_UNDEFINED) (world0\<lparr>threads := False\<rparr>), None)"

lemma run_lives: "run os as c = Some c' \<Longrightarrow> (life_step spurious os)\<^sup>*\<^sup>* (Live c) (Live c')"
proof (induction "as" arbitrary: c)
  case (Cons a "as")
  then show ?case
    by (auto split: option.splits dest!: act_step [of os _ _ _ spurious]
        intro: converse_rtranclp_into_rtranclp life_step.live)
qed simp

lemma failed_thread_joined:
  "\<exists>s. (life_step False demo_os)\<^sup>*\<^sup>* (Live conf_busy) (Closed s) \<and> fault s = Some BAD_JOIN"
proof -
  obtain s where s: "run demo_os logged_in_conf conf_busy = Some (s, None)" "fault s = None"
    "thr s = None" "\<not> thr_dat_running (cl s)" "state (cl s) = CLST_READY" "dat_fp (cl s) = None"
    "threads (ext s) = False"
    by (simp add: logged_in_conf_def conf_busy_def run_simps cong: mark_weak_cong markf_weak_cong)
  obtain s1 where s1: "process_command demo_os ''PASV'' [] s = Some (CMD_RESULT_SHUTDOWN, s1)"
    "fault s1 = None" "thr s1 = None" "thr_dat_running (cl s1)"
    using s(2-) by (simp add: run_simps disconnect_def cong: mark_weak_cong markf_weak_cong)
  let ?g = "mark 221 GOODBYE_MSG s1"
  obtain s2 where s2: "client_close demo_os ?g = Some s2" "fault s2 = Some BAD_JOIN"
    using s1(3,4) by (simp add: client_close_def client_close_threads_def thr_join.simps)
  have "life_step False demo_os (Live (s, None)) (Closing ?g)"
    using s(2) s1(1) by (rule life_step.shutdown)
  moreover have "life_step False demo_os (Closing ?g) (Closed s2)"
    using s1(2) s2(1) by (intro life_step.close) simp_all
  moreover note run_lives [OF s(1), of False]
  ultimately have "(life_step False demo_os)\<^sup>*\<^sup>* (Live conf_busy) (Closed s2)"
    by (meson rtranclp.rtrancl_into_rtrancl)
  with s2(2) show ?thesis by blast
qed

theorem reachable_sound_witness:
  "\<exists>s. fault s = Some BAD_JOIN \<and>
    (case Closed s :: (world, string) life of
      Live (s, q) \<Rightarrow> sess_inv s \<and>
        (fault s = None \<or> fault s = Some (PANIC ''accept() failed'') \<or> False \<and> fault s = Some NULL_FILE)
    | Closing s \<Rightarrow>
        fault s = None \<or> fault s = Some (PANIC ''accept() failed'') \<or> False \<and> fault s = Some NULL_FILE
    | Closed s \<Rightarrow> fault s = None \<or> fault s = Some BAD_JOIN \<and>
        (\<exists>ls p. out s = ls @ [p, (221, GOODBYE_MSG)] \<and> thread_failed p))"
proof -
  obtain s where s: "(life_step False demo_os)\<^sup>*\<^sup>* (Live conf_busy) (Closed s)" "fault s = Some BAD_JOIN"
    using failed_thread_joined by blast
  from reachable_sound [OF s(1) [unfolded conf_busy_def]] s(2) show ?thesis by blast
qed

text \<open>
  \<open>pthread_cond_wait\<close> is not in a loop that checks \<open>dat_fp\<close>. If it returns without a
  signal, as POSIX allows, a thread that reaches its data connection goes on to read from a
  \<open>NULL\<close> file: such a wake-up, and then steps of that thread alone, crash the server.
\<close>

theorem spurious_wakeup_crashes:
  assumes "thr s = Some t" and "pc t = A_WAIT" and "dat_fp (cl s) = None"
    and "thr_dat_running (cl s)" and "fault s = None"
    and "os_socket os (ext s) = (Some fd, w1)"
    and "os_connect os fd (addr (cl s)) (port (cl s)) w1 = (True, w2)"
  shows "\<exists>s'. (session_step True os)\<^sup>*\<^sup>* (s, None) (s', None) \<and> fault s' = Some NULL_FILE"
proof -
  let ?t1 = "t\<lparr>pc := A_WOKEN\<rparr>"
  let ?s1 = "s\<lparr>thr := Some ?t1\<rparr>"
  let ?t2 = "?t1\<lparr>t_fp := dat_fp (cl s), t_ty := dat_ty (cl s), pc := A_CONNECT\<rparr>"
  let ?s2 = "s\<lparr>thr := Some ?t2\<rparr>"
  let ?s3 = "s\<lparr>ext := snd (os_nonblock os fd w2), thr := Some (?t2\<lparr>conn_fd := Some fd, pc := A_LOOP\<rparr>)\<rparr>"
  have 1: "session_step True os (s, None) (?s1, None)"
    using assms by (intro session_step.wakeup) simp_all
  have 2: "session_step True os (?s1, None) (?s2, None)"
    using assms by (intro session_step.thread) (simp_all add: thr_step_def)
  have 3: "session_step True os (?s2, None) (?s3, None)"
    using assms by (intro session_step.thread) (simp_all add: thr_step_def connect_step_def)
  have 4: "session_step True os (?s3, None) (?s3\<lparr>fault := Some NULL_FILE\<rparr>, None)"
    using assms by (intro session_step.thread) (simp_all add: thr_step_def block_step_def)
  have "(session_step True os)\<^sup>*\<^sup>* (s, None) (?s3\<lparr>fault := Some NULL_FILE\<rparr>, None)"
    using 1 2 3 4 by (meson converse_rtranclp_into_rtranclp rtranclp.rtrancl_refl)
  then show ?thesis by (intro exI [of _ "?s3\<lparr>fault := Some NULL_FILE\<rparr>"]) simp
qed

theorem spurious_wakeup_crashes_witness:
  "\<exists>s'. (session_step True demo_os)\<^sup>*\<^sup>* (sess_port, None) (s', None) \<and> fault s' = Some NULL_FILE"
  by (rule spurious_wakeup_crashes [where t = "active_init\<lparr>pc := A_WAIT\<rparr>" and fd = 5 and ?w1.0 = world0 and ?w2.0 = world0])
     (simp_all add: sess_port_def sess0_def client0_def demo_os_def)

end
