(* ===== verification/Confine.thy ===== *)
theory Confine
  imports Interleave
begin

text \<open>
  What a client can make the server do to the world: nothing before it has logged in, and
  afterwards only operations on paths under the served root. The second is parametric: every
  property of the world that the system calls keep when they are given such paths is kept by
  every session.
\<close>

section \<open>Before logging in\<close>

lemma unauth_guarded:
  assumes "guarded (ignore_if_xfer # auth # gs) body s = Some (r, s')" and "state (cl s) < CLST_READY"
  shows "replied s s'"
  using assms
  by (auto simp: guarded_def guards.simps ignore_if_xfer_def auth_def split: if_splits)

lemma unauth_staged:
  assumes "state (cl s) < CLST_READY"
  shows "\<exists>s'. staged body s = Replied s' \<and> replied s s'"
  using assms
  by (auto simp: staged_def guards.simps ignore_if_xfer_def auth_def split: if_splits)

lemma unauth_finish:
  assumes "state (cl s) < CLST_READY" and "finish_stage (staged body s) = Some (r, s')"
  shows "replied s s'"
proof -
  obtain x where "staged body s = Replied x" "replied s x" using unauth_staged [OF assms(1)] by blast
  with assms(2) show ?thesis by simp
qed

definition credentials :: "string option \<Rightarrow> string \<Rightarrow> bool" where
  "credentials user pass \<longleftrightarrow>
     (case user of None \<Rightarrow> length pass \<le> 64 | Some u \<Rightarrow> user_auth u pass)"

text \<open>What an unauthenticated command may do.\<close>

definition harmless :: "string \<Rightarrow> string \<Rightarrow> ('w, 'f) sess \<Rightarrow> ('w, 'f) sess \<Rightarrow> bool" where
  "harmless verb arg s s' \<longleftrightarrow>
     ext s' = ext s \<and> thr s' = thr s \<and> fault s' = fault s \<and>
     (CLST_READY \<le> state (cl s') \<longrightarrow>
        verb = ''PASS'' \<and> state (cl s) = CLST_WAIT_PASS \<and> credentials (username (cl s)) arg)"

lemma harmless_replied: "replied s s' \<Longrightarrow> state (cl s) < CLST_READY \<Longrightarrow> harmless verb arg s s'"
  by (auto simp: replied_def harmless_def)

lemma harmless_USER:
  "handler_USER arg s = Some (r, s') \<Longrightarrow> state (cl s) < CLST_READY \<Longrightarrow> harmless verb arg s s'"
  by (auto simp: handler_USER_def guarded_def guards.simps ignore_if_xfer_def harmless_def Let_def
      split: if_splits)

lemma harmless_PASS:
  assumes "handler_PASS arg s = Some (r, s')" and "state (cl s) < CLST_READY"
  shows "harmless ''PASS'' arg s s'"
proof -
  have "state (cl s) = CLST_CONN \<or> state (cl s) = CLST_WAIT_PASS" using assms(2) by (simp add: state_less_iff)
  then show ?thesis
    using assms
    by (auto simp: handler_PASS_def guarded_def guards.simps ignore_if_xfer_def harmless_def Let_def
        logged_in_def credentials_def state_less_iff split: if_splits option.splits)
qed

lemma harmless_TYPE:
  "handler_TYPE arg s = Some (r, s') \<Longrightarrow> state (cl s) < CLST_READY \<Longrightarrow> harmless verb arg s s'"
  by (rule harmless_replied)
     (auto simp: handler_TYPE_def guarded_def guards.simps ignore_if_xfer_def split: if_splits)

lemma unauth_handlers:
  assumes "state (cl s) < CLST_READY"
  shows "handler_PORT os arg s = Some (r, s') \<Longrightarrow> harmless verb arg s s'"
    "handler_PASV os arg s = Some (r, s') \<Longrightarrow> harmless verb arg s s'"
    "handler_CWD os arg s = Some (r, s') \<Longrightarrow> harmless verb arg s s'"
    "handler_PWD arg s = Some (r, s') \<Longrightarrow> harmless verb arg s s'"
    "handler_MKD os arg s = Some (r, s') \<Longrightarrow> harmless verb arg s s'"
    "handler_RMD os arg s = Some (r, s') \<Longrightarrow> harmless verb arg s s'"
    "handler_RNFR os arg s = Some (r, s') \<Longrightarrow> harmless verb arg s s'"
    "handler_RNTO os arg s = Some (r, s') \<Longrightarrow> harmless verb arg s s'"
    "handler_DELE os arg s = Some (r, s') \<Longrightarrow> harmless verb arg s s'"
    "handler_REST arg s = Some (r, s') \<Longrightarrow> harmless verb arg s s'"
  unfolding handler_PORT_def handler_PASV_def handler_CWD_def handler_PWD_def handler_MKD_def
    handler_RMD_def handler_RNFR_def handler_RNTO_def handler_DELE_def handler_REST_def
  by (rule harmless_replied [OF _ assms], erule unauth_guarded, rule assms)+

lemma unauth_data_handlers:
  assumes "state (cl s) < CLST_READY"
  shows "handler_LIST os arg s = Some (r, s') \<Longrightarrow> harmless verb arg s s'"
    "handler_RETR os arg s = Some (r, s') \<Longrightarrow> harmless verb arg s s'"
    "handler_STOR os arg s = Some (r, s') \<Longrightarrow> harmless verb arg s s'"
  unfolding handler_LIST_def handler_RETR_def handler_STOR_def open_LIST_def open_RETR_def open_STOR_def
  by (rule harmless_replied [OF _ assms], erule unauth_finish [OF assms])+

text \<open>
  C14. A client that has not logged in cannot touch the outside world or start a data
  connection, whatever command it sends, and the only command that logs it in is a PASS after
  a USER, with the right password for a named user, or with at most 64 characters for the
  anonymous one.
\<close>

theorem unauthenticated_harmless:
  assumes "sess_inv s" and "state (cl s) < CLST_READY"
    and "process_command os verb arg s = Some (r, s')"
  shows "ext s' = ext s \<and> thr s' = None \<and>
    (CLST_READY \<le> state (cl s') \<longrightarrow>
       verb = ''PASS'' \<and> state (cl s) = CLST_WAIT_PASS \<and> credentials (username (cl s)) arg)"
proof -
  have fresh: "thr s = None" "\<not> thr_dat_running (cl s)" "dat_fp (cl s) = None"
    using assms(1,2) by (auto simp: sess_inv_def login_ok_def fresh_def)
  have "harmless verb arg s s'"
    using assms(3)
  proof (cases rule: process_command_cases)
    case QUIT
    with fresh assms(2) show ?thesis
      by (auto simp: handler_QUIT_def client_close_threads_def harmless_def)
  next
    case SYST
    with assms(2) show ?thesis by (auto simp: handler_SYST_def intro: harmless_replied)
  next
    case PASS
    with harmless_PASS [OF PASS(2) assms(2)] show ?thesis by simp
  next
    case ABOR
    with fresh assms(2) show ?thesis
      by (auto simp: handler_ABOR_def client_xfer_in_progress_def intro: harmless_replied)
  next
    case (other m)
    with assms(2) show ?thesis by (auto intro: harmless_replied)
  qed (erule unauth_handlers [OF assms(2)] unauth_data_handlers [OF assms(2)]
      harmless_USER [OF _ assms(2)] harmless_TYPE [OF _ assms(2)])+
  with fresh show ?thesis by (simp add: harmless_def)
qed

theorem unauthenticated_harmless_witness:
  "ext (markf 230 (''Logged in. Welcome, '' @ ''qwq'' @ ''.'')
      (upd_cl (\<lambda>c. c\<lparr>state := CLST_READY\<rparr>) (sess0\<lparr>cl := client0\<lparr>state := CLST_WAIT_PASS\<rparr>\<rparr>))) = world0 \<and>
   credentials (Some ''qwq'') ''quq''"
proof -
  let ?s = "sess0\<lparr>cl := client0\<lparr>state := CLST_WAIT_PASS\<rparr>\<rparr>"
  let ?s' = "markf 230 (''Logged in. Welcome, '' @ ''qwq'' @ ''.'') (upd_cl (\<lambda>c. c\<lparr>state := CLST_READY\<rparr>) ?s)"
  have "sess_inv ?s"
    by (simp add: sess_inv_def paths_ok_def login_ok_def fresh_def sess0_def client0_def canonical_root)
  moreover have "state (cl ?s) < CLST_READY" by simp
  moreover have "process_command demo_os ''PASS'' ''quq'' ?s = Some (CMD_RESULT_DONE, ?s')"
    by (simp add: process_command_def handler_PASS_def guarded_def guards.simps ignore_if_xfer_def
        client_xfer_in_progress_def logged_in_def user_auth_def sess0_def client0_def state_less_iff)
  ultimately have "ext ?s' = ext ?s \<and> thr ?s' = None \<and> (CLST_READY \<le> state (cl ?s') \<longrightarrow>
      ''PASS'' = ''PASS'' \<and> state (cl ?s) = CLST_WAIT_PASS \<and> credentials (username (cl ?s)) ''quq'')"
    by (rule unauthenticated_harmless)
  then show ?thesis by (simp add: sess0_def client0_def state_less_iff)
qed

section \<open>Confinement of sessions\<close>

text \<open>A path relative to the served root, as the server hands it to the system: \<open>d + 1\<close>.\<close>

definition under_root :: "string \<Rightarrow> bool" where
  "under_root p \<longleftrightarrow> canonical (SLASH # p)"

lemma under_root_tl: "canonical d \<Longrightarrow> under_root (tl d)"
  using canonical_rooted [of d] by (cases d) (simp_all add: under_root_def rooted_def)

text \<open>
  A property of the world that the system calls the server makes keep, as long as the paths they
  get are under the root.
\<close>

definition respects_paths :: "('w, 'f) os \<Rightarrow> ('w \<Rightarrow> bool) \<Rightarrow> bool" where
  "respects_paths os P \<longleftrightarrow>
     (\<forall>p w. under_root p \<longrightarrow> P w \<longrightarrow>
        P (snd (os_mkdir os p w)) \<and> P (snd (os_rmdir os p w)) \<and> P (snd (os_unlink os p w)) \<and>
        (\<forall>n. P (os_truncate os p n w)) \<and> (\<forall>m. P (snd (os_fopen os p m w))) \<and>
        P (snd (os_popen os (''ls -lH '' @ p) w)) \<and>
        (\<forall>q. under_root q \<longrightarrow> P (snd (os_rename os p q w))))"

definition respects_files :: "('w, 'f) os \<Rightarrow> ('w \<Rightarrow> bool) \<Rightarrow> bool" where
  "respects_files os P \<longleftrightarrow>
     (\<forall>f w. P w \<longrightarrow>
        (\<forall>n. P (os_fseek os f n w)) \<and> (\<forall>n. P (snd (os_fread os f n w))) \<and>
        (\<forall>bs. P (os_fwrite os f bs w)) \<and> P (os_fclose os f w) \<and> P (os_pclose os f w))"

definition respects_sockets :: "('w, 'f) os \<Rightarrow> ('w \<Rightarrow> bool) \<Rightarrow> bool" where
  "respects_sockets os P \<longleftrightarrow>
     (\<forall>w. P w \<longrightarrow>
        P (snd (os_pthread_create os w)) \<and> P (snd (os_socket os w)) \<and>
        (\<forall>fd. P (snd (os_bind os fd w)) \<and> P (snd (os_listen os fd w)) \<and>
           P (snd (os_nonblock os fd w)) \<and> (\<forall>a p. P (snd (os_connect os fd a p w))) \<and>
           P (snd (os_accept os fd w)) \<and> (\<forall>n. P (snd (os_read os fd n w))) \<and>
           (\<forall>bs. P (snd (os_write os fd w bs))) \<and> P (snd (os_poll_hup os fd w)) \<and>
           P (snd (os_peek_closed os fd w)) \<and> P (os_close os fd w)))"

definition keeps_world :: "('w, 'f) os \<Rightarrow> ('w \<Rightarrow> bool) \<Rightarrow> bool" where
  "keeps_world os P \<longleftrightarrow> respects_paths os P \<and> respects_files os P \<and> respects_sockets os P"

lemma respects_path:
  assumes "keeps_world os P" and "under_root p" and "P w"
  shows "os_mkdir os p w = (e, w') \<Longrightarrow> P w'" "os_rmdir os p w = (e, w') \<Longrightarrow> P w'"
    "os_unlink os p w = (e, w') \<Longrightarrow> P w'" "os_fopen os p m w = (f, w') \<Longrightarrow> P w'"
    "os_popen os (''ls -lH '' @ p) w = (f, w') \<Longrightarrow> P w'" "P (os_truncate os p n w)"
    "under_root q \<Longrightarrow> os_rename os p q w = (e, w') \<Longrightarrow> P w'"
  using assms unfolding keeps_world_def respects_paths_def by (metis snd_conv)+

lemma respects_file:
  assumes "keeps_world os P" and "P w"
  shows "P (os_fseek os f n w)" "os_fread os f k w = (bs, w') \<Longrightarrow> P w'"
    "P (os_fwrite os f bs w)" "P (os_fclose os f w)" "P (os_pclose os f w)"
  using assms unfolding keeps_world_def respects_files_def by (metis snd_conv)+

lemma respects_socket:
  assumes "keeps_world os P" and "P w"
  shows "os_pthread_create os w = (b, w') \<Longrightarrow> P w'" "os_socket os w = (s, w') \<Longrightarrow> P w'"
    "os_bind os fd w = (b, w') \<Longrightarrow> P w'" "os_listen os fd w = (b, w') \<Longrightarrow> P w'"
    "os_nonblock os fd w = (b, w') \<Longrightarrow> P w'" "os_connect os fd a p w = (b, w') \<Longrightarrow> P w'"
    "os_accept os fd w = (acc, w') \<Longrightarrow> P w'" "os_read os fd n w = (r, w') \<Longrightarrow> P w'"
    "os_write os fd w bs = (v, w') \<Longrightarrow> P w'" "os_poll_hup os fd w = (b, w') \<Longrightarrow> P w'"
    "os_peek_closed os fd w = (b, w') \<Longrightarrow> P w'" "P (os_close os fd w)"
    "P (snd (os_nonblock os fd w))"
  using assms unfolding keeps_world_def respects_sockets_def by (metis snd_conv)+

text \<open>The data thread.\<close>

lemma write_all_respects:
  assumes ret: "write_all wrf buf w = Some r" and keep: "\<forall>w bs. P w \<longrightarrow> P (snd (wrf w bs))" and start: "P w"
  shows "P (snd r)"
proof -
  have "(\<forall>w bs. P w \<longrightarrow> P (snd (wrf w bs))) \<longrightarrow> P w \<longrightarrow> P (snd r)"
  proof (rule write_all.raw_induct [where P = "\<lambda>wrf buf w r.
       (\<forall>w bs. P w \<longrightarrow> P (snd (wrf w bs))) \<longrightarrow> P w \<longrightarrow> P (snd r)", OF _ ret])
    fix f wrf buf w r
    assume IH: "\<And>wrf buf w r. f wrf buf w = Some r \<Longrightarrow>
        (\<forall>w bs. P w \<longrightarrow> P (snd (wrf w bs))) \<longrightarrow> P w \<longrightarrow> P (snd r)"
      and eq: "(if buf \<noteq> [] then (case wrf w buf of
           (Wrote n, w') \<Rightarrow> f wrf (drop n buf) w'
         | (WAgain, w') \<Rightarrow> f wrf buf w'
         | (WFail, w') \<Rightarrow> Some (length buf, w')) else Some (0, w)) = Some r"
    show "(\<forall>w bs. P w \<longrightarrow> P (snd (wrf w bs))) \<longrightarrow> P w \<longrightarrow> P (snd r)"
    proof (intro impI)
      assume k: "\<forall>w bs. P w \<longrightarrow> P (snd (wrf w bs))" and w: "P w"
      obtain v w1 where v: "wrf w buf = (v, w1)" by (cases "wrf w buf")
      have "P w1" using k w v by (metis snd_conv)
      with eq v w IH k show "P (snd r)"
        by (cases "buf = []"; cases v) auto
    qed
  qed
  with keep start show ?thesis by blast
qed

lemma process_block_respects:
  assumes R: "keeps_world os P" and ret: "process_block os conn ty fp ps w = Some (sts, ps', w')" and w: "P w"
  shows "P w'"
proof (cases "ty = DATA_SEND_FILE \<or> ty = DATA_SEND_PIPE")
  case True
  obtain bs w1 where f: "os_fread os fp BUF_SIZE w = (bs, w1)" by (cases "os_fread os fp BUF_SIZE w")
  have w1: "P w1" using respects_file(2) [OF R w f] .
  have k: "\<forall>w bs. P w \<longrightarrow> P (snd (os_write os conn w bs))"
    using R by (simp add: keeps_world_def respects_sockets_def)
  show ?thesis
  proof (cases "bs = []")
    case True
    with \<open>ty = DATA_SEND_FILE \<or> ty = DATA_SEND_PIPE\<close> f ret w1 show ?thesis
      by (auto simp: process_block_def split: if_splits)
  next
    case False
    with \<open>ty = DATA_SEND_FILE \<or> ty = DATA_SEND_PIPE\<close> f ret obtain k' where
      "write_all (os_write os conn) bs w1 = Some (k', w')"
      by (auto simp: process_block_def split: option.splits if_splits)
    from write_all_respects [where P = P, OF this k w1] show ?thesis by simp
  qed
next
  case False
  obtain r w1 where f: "os_read os conn BUF_SIZE w = (r, w1)" by (cases "os_read os conn BUF_SIZE w")
  have w1: "P w1" using respects_socket(8) [OF R w f] .
  from False f ret w1 respects_file(3) [OF R w1] show ?thesis
    by (auto simp: process_block_def split: rd.splits if_splits)
qed

lemma block_step_respects:
  "keeps_world os P \<Longrightarrow> P (ext s) \<Longrightarrow> P (ext (block_step os t conn s))"
  by (auto simp: block_step_def dest: process_block_respects split: option.split)

lemma pasv_connected_respects:
  assumes R: "keeps_world os P" and w: "P (ext s)"
  shows "P (ext (pasv_connected os t conn s))"
proof -
  let ?t = "if t_fp t = None then t\<lparr>t_fp := dat_fp (cl s), t_ty := dat_ty (cl s)\<rparr> else t"
  show ?thesis
  proof (cases "t_fp ?t = None")
    case True
    obtain b w1 where p: "os_poll_hup os conn (ext s) = (b, w1)" by (cases "os_poll_hup os conn (ext s)")
    obtain b' w2 where q: "os_peek_closed os conn w1 = (b', w2)" by (cases "os_peek_closed os conn w1")
    have "P w1" using respects_socket(10) [OF R w p] .
    then have "P w2" using respects_socket(11) [OF R _ q] by blast
    with \<open>P w1\<close> respects_socket(12) [OF R \<open>P w2\<close>] True p q show ?thesis
      unfolding pasv_connected_def Let_def
      by (simp only: if_False not_not simp_thms split: prod.splits bool.splits) auto
  next
    case False
    then have "pasv_connected os t conn s = block_step os ?t conn s"
      unfolding pasv_connected_def Let_def by (simp only: if_True simp_thms)
    then show ?thesis using block_step_respects [OF R w] by simp
  qed
qed

lemma pasv_step_respects:
  assumes R: "keeps_world os P" and w: "P (ext s)"
  shows "P (ext (pasv_step os t s))"
proof (cases "conn_fd t")
  case (Some conn)
  with pasv_connected_respects [OF R w] show ?thesis by (simp add: pasv_step_def)
next
  case None
  obtain a w1 where a: "os_accept os (the (t_sock t)) (ext s) = (a, w1)"
    by (cases "os_accept os (the (t_sock t)) (ext s)")
  have w1: "P w1" using respects_socket(7) [OF R w a] .
  with None a pasv_connected_respects [OF R, of "s\<lparr>ext := w1\<rparr>"] show ?thesis
    by (auto simp: pasv_step_def split: accepted.split)
qed

lemma connect_step_respects:
  assumes R: "keeps_world os P" and w: "P (ext s)"
  shows "P (ext (connect_step os t s))"
proof -
  obtain fd w1 where s1: "os_socket os (ext s) = (fd, w1)" by (cases "os_socket os (ext s)")
  have w1: "P w1" using respects_socket(2) [OF R w s1] .
  show ?thesis
  proof (cases fd)
    case None
    with s1 w1 show ?thesis by (simp add: connect_step_def)
  next
    case (Some x)
    obtain ok w2 where s2: "os_connect os x (addr (cl s)) (port (cl s)) w1 = (ok, w2)"
      by (cases "os_connect os x (addr (cl s)) (port (cl s)) w1")
    have w2: "P w2" using respects_socket(6) [OF R w1 s2] .
    with Some s1 s2 respects_socket(13) [OF R w2] show ?thesis
      by (cases ok) (simp_all add: connect_step_def)
  qed
qed

lemma cleanup_close_respects: "keeps_world os P \<Longrightarrow> P (ext s) \<Longrightarrow> P (ext (cleanup_close os t s))"
  by (auto simp: cleanup_close_def close_file_def close_opt_def
      intro: respects_socket respects_file split: option.splits)

lemma thr_step_respects:
  assumes R: "keeps_world os P" and step: "thr_step os s = Some s'" and w: "P (ext s)"
  shows "P (ext s')"
  using step
proof (cases rule: thr_stepE)
  case (connect t)
  with connect_step_respects [OF R w] show ?thesis by simp
next
  case (actv t conn)
  with block_step_respects [OF R w] show ?thesis by simp
next
  case (pasv t)
  with pasv_step_respects [OF R w] show ?thesis by simp
next
  case (close t)
  with cleanup_close_respects [OF R w] show ?thesis by simp
qed (use w in simp_all)

lemma close_threads_respects:
  assumes R: "keeps_world os P" and ret: "client_close_threads os s = Some s'" and w: "P (ext s)"
  shows "P (ext s')"
proof (cases "thr_dat_running (cl s)")
  case True
  with ret obtain x where x: "thr_join os (upd_cl (\<lambda>c. c\<lparr>thr_dat_running := False\<rparr>) s) = Some x"
    and s': "s' = upd_cl (\<lambda>c. c\<lparr>state := CLST_READY\<rparr>) x"
    by (auto simp: client_close_threads_def)
  have "P (ext x)"
    by (rule thr_join_rule [OF x, where P = "\<lambda>s. P (ext s)"]) (use w thr_step_respects [OF R] in auto)
  with s' show ?thesis by simp
qed (use ret w in \<open>simp add: client_close_threads_def\<close>)

text \<open>The handlers.\<close>

lemma replied_respects: "replied s s' \<Longrightarrow> P (ext s) \<Longrightarrow> P (ext s')"
  by (simp add: replied_def)

lemma guarded_respects:
  assumes "guarded gs body s = Some (r, s')" and "set gs \<subseteq> {ignore_if_xfer, auth, data}"
    and "P (ext s)" and "body s = Some (r, s') \<Longrightarrow> P (ext s')"
  shows "P (ext s')"
  using assms(1,2)
proof (cases rule: guardedE)
  case refused
  with replied_respects [of s s' P] assms(3) show ?thesis by blast
qed (use assms(4) in blast)

lemma full_path_respects:
  assumes "full_path arg k s = Some (r, s')" and "canonical (wd (cl s))" and "P (ext s)"
    and "\<And>d. canonical d \<Longrightarrow> k d = Some (r, s') \<Longrightarrow> P (ext s')"
  shows "P (ext s')"
  using assms(1,2)
proof (cases rule: full_pathE)
  case refused
  with replied_respects [of s s' P] assms(3) show ?thesis by blast
qed (use assms(4) in blast)

lemma ext_mark_dir [simp]: "ext (mark_dir m cmp d s) = ext s"
  by (simp add: mark_dir_def Let_def)

lemma CWD_respects:
  "handler_CWD os arg s = Some (r, s') \<Longrightarrow> sess_inv s \<Longrightarrow> P (ext s) \<Longrightarrow> P (ext s')"
  unfolding handler_CWD_def
  by (erule guarded_respects, simp, assumption, erule full_path_respects)
     (auto simp: inv_paths split: if_splits)

lemma RNFR_respects:
  "handler_RNFR os arg s = Some (r, s') \<Longrightarrow> sess_inv s \<Longrightarrow> P (ext s) \<Longrightarrow> P (ext s')"
  unfolding handler_RNFR_def
  by (erule guarded_respects, simp, assumption, erule full_path_respects)
     (auto simp: inv_paths split: if_splits)

lemma MKD_respects:
  assumes R: "keeps_world os P" and "handler_MKD os arg s = Some (r, s')" and "sess_inv s" and w: "P (ext s)"
  shows "P (ext s')"
  using assms(2-) unfolding handler_MKD_def
  by (elim guarded_respects full_path_respects)
     (auto simp: inv_paths dest: respects_path(1) [OF R under_root_tl w] split: option.splits prod.splits)

lemma RMD_respects:
  assumes R: "keeps_world os P" and "handler_RMD os arg s = Some (r, s')" and "sess_inv s" and w: "P (ext s)"
  shows "P (ext s')"
  using assms(2-) unfolding handler_RMD_def
  by (elim guarded_respects full_path_respects)
     (auto simp: inv_paths dest: respects_path(2) [OF R under_root_tl w]
       split: option.splits prod.splits if_splits)

lemma DELE_respects:
  assumes R: "keeps_world os P" and "handler_DELE os arg s = Some (r, s')" and "sess_inv s" and w: "P (ext s)"
  shows "P (ext s')"
  using assms(2-) unfolding handler_DELE_def
  by (elim guarded_respects full_path_respects)
     (auto simp: inv_paths dest: respects_path(3) [OF R under_root_tl w]
       split: option.splits prod.splits if_splits)

lemma RNTO_respects:
  assumes R: "keeps_world os P" and ret: "handler_RNTO os arg s = Some (r, s')" and inv: "sess_inv s"
    and w: "P (ext s)"
  shows "P (ext s')"
  using ret [unfolded handler_RNTO_def]
proof (rule guarded_respects)
  assume body: "(case rnfr (cl s) of
       None \<Rightarrow> DONE (mark 503 ''Use RNFR first.'' s)
     | Some old \<Rightarrow>
         let s1 = upd_cl (\<lambda>c. c\<lparr>rnfr := None\<rparr>) s in
         full_path arg (\<lambda>d.
           if length d = 1 then DONE (mark 550 ''Cannot rename to root directory.'' s1)
           else case os_rename os (tl old) (tl d) (ext s1) of
             (Some e, w1) \<Rightarrow>
               DONE (markf 550 (''Cannot rename '' @ quoted old @ '' to '' @ quoted d @ '' ('' @ e @ '').'')
                 (s1\<lparr>ext := w1\<rparr>))
           | (None, w1) \<Rightarrow>
               DONE (mark_dir (''Renamed '' @ quoted old @ '' to '' @ quoted d @ ''.'') old d
                 (s1\<lparr>ext := w1\<rparr>))) s1) = Some (r, s')"
  show "P (ext s')"
  proof (cases "rnfr (cl s)")
    case None
    with body w show ?thesis by auto
  next
    case (Some old)
    have old: "canonical old" using inv Some by (simp add: sess_inv_def paths_ok_def)
    show ?thesis
      using body [unfolded Some option.case Let_def]
    proof (rule full_path_respects)
      show "canonical (wd (cl (upd_cl (\<lambda>c. c\<lparr>rnfr := None\<rparr>) s)))" using inv by (simp add: inv_paths)
    qed (use w respects_path(7) [OF R under_root_tl [OF old] w under_root_tl] in
        \<open>auto split: option.splits prod.splits if_splits\<close>)
  qed
qed (use w in simp_all)

lemma port_start_respects:
  assumes R: "keeps_world os P" and "port_start os x s = Some (r, s')" and w: "P (ext s)"
  shows "P (ext s')"
proof -
  obtain ok w1 where c: "os_pthread_create os (ext s) = (ok, w1)" by (cases "os_pthread_create os (ext s)")
  have "P w1" using respects_socket(1) [OF R w c] .
  with c assms(2) show ?thesis by (cases ok) (auto simp: port_start_def disconnect_def Let_def)
qed

lemma pasv_start_respects:
  assumes R: "keeps_world os P" and "pasv_start os a fd s = Some (r, s')" and w: "P (ext s)"
  shows "P (ext s')"
proof -
  obtain ok w1 where c: "os_pthread_create os (ext s) = (ok, w1)" by (cases "os_pthread_create os (ext s)")
  have "P w1" using respects_socket(1) [OF R w c] .
  with c assms(2) show ?thesis by (cases ok) (auto simp: pasv_start_def disconnect_def Let_def)
qed

lemma PORT_respects:
  assumes R: "keeps_world os P" and ret: "handler_PORT os arg s = Some (r, s')" and w: "P (ext s)"
  shows "P (ext s')"
  using ret [unfolded handler_PORT_def]
proof (rule guarded_respects)
  assume body: "(case client_close_threads os s of None \<Rightarrow> None | Some s1 \<Rightarrow>
       (case scan_address arg of
          None \<Rightarrow> DONE (mark 501 ''Incorrect address format.'' s1)
        | Some x \<Rightarrow> port_start os x s1)) = Some (r, s')"
  then obtain s1 where s1: "client_close_threads os s = Some s1" by (cases "client_close_threads os s") auto
  have w1: "P (ext s1)" using close_threads_respects [OF R s1 w] .
  with body s1 port_start_respects [OF R _ w1] show "P (ext s')" by (cases "scan_address arg") auto
qed (use w in simp_all)

lemma ephemeral_respects:
  assumes R: "keeps_world os P" and "ephemeral os sock w = (e, w')" and w: "P w"
  shows "P w'"
proof -
  obtain fd w1 where s1: "os_socket os w = (fd, w1)" by (cases "os_socket os w")
  have w1: "P w1" using respects_socket(2) [OF R w s1] .
  show ?thesis
  proof (cases fd)
    case None
    with assms(2) s1 w1 show ?thesis by (simp add: ephemeral_def sock_ephemeral_def)
  next
    case (Some x)
    obtain ok w2 where s2: "os_bind os x w1 = (ok, w2)" by (cases "os_bind os x w1")
    have w2: "P w2" using respects_socket(3) [OF R w1 s2] .
    from assms(2) Some s1 s2 w2 respects_socket(12) [OF R w2] show ?thesis
      by (cases ok) (auto simp: ephemeral_def sock_ephemeral_def Let_def)
  qed
qed

lemma pasv_listen_respects:
  assumes R: "keeps_world os P" and "pasv_listen os sock w = (l, w')" and w: "P w"
  shows "P w'"
proof -
  obtain e w1 where s1: "ephemeral os sock w = (e, w1)" by (cases "ephemeral os sock w")
  have w1: "P w1" using ephemeral_respects [OF R s1 w] .
  show ?thesis
  proof (cases e)
    case (Inl i)
    with assms(2) s1 w1 show ?thesis by (simp add: pasv_listen_def)
  next
    case (Inr p)
    obtain a fd where p: "p = (a, fd)" by (cases p)
    obtain ok w2 where s2: "os_nonblock os fd w1 = (ok, w2)" by (cases "os_nonblock os fd w1")
    have w2: "P w2" using respects_socket(5) [OF R w1 s2] .
    obtain ok' w3 where s3: "os_listen os fd w2 = (ok', w3)" by (cases "os_listen os fd w2")
    have "P w3" using respects_socket(4) [OF R w2 s3] .
    with assms(2) s1 Inr p s2 s3 w2 show ?thesis
      by (cases ok; cases ok') (auto simp: pasv_listen_def)
  qed
qed

lemma PASV_respects:
  assumes R: "keeps_world os P" and ret: "handler_PASV os arg s = Some (r, s')" and w: "P (ext s)"
  shows "P (ext s')"
  using ret [unfolded handler_PASV_def]
proof (rule guarded_respects)
  assume body: "(case client_close_threads os s of None \<Rightarrow> None | Some s1 \<Rightarrow>
       (case pasv_listen os (sock_ctl (cl s1)) (ext s1) of
          (None, w1) \<Rightarrow>
            disconnect ''Cannot enter passive mode: cannot start data connection.'' (s1\<lparr>ext := w1\<rparr>)
        | (Some (a, fd), w1) \<Rightarrow> pasv_start os a fd (s1\<lparr>ext := w1\<rparr>))) = Some (r, s')"
  then obtain s1 where s1: "client_close_threads os s = Some s1" by (cases "client_close_threads os s") auto
  have w1: "P (ext s1)" using close_threads_respects [OF R s1 w] .
  obtain l w2 where l: "pasv_listen os (sock_ctl (cl s1)) (ext s1) = (l, w2)"
    by (cases "pasv_listen os (sock_ctl (cl s1)) (ext s1)")
  have w2: "P w2" using pasv_listen_respects [OF R l w1] .
  show "P (ext s')"
  proof (cases l)
    case None
    with body s1 l w2 show ?thesis by (auto simp: disconnect_def)
  next
    case (Some p)
    with body s1 l have "pasv_start os (fst p) (snd p) (s1\<lparr>ext := w2\<rparr>) = Some (r, s')"
      by (cases p) simp
    from pasv_start_respects [OF R this] w2 show ?thesis by simp
  qed
qed (use w in simp_all)

lemma ABOR_respects:
  assumes R: "keeps_world os P" and ret: "handler_ABOR os arg s = Some (r, s')" and w: "P (ext s)"
  shows "P (ext s')"
  using ret close_threads_respects [OF R _ w] w
  by (auto simp: handler_ABOR_def Let_def split: if_splits option.splits)

lemma QUIT_respects:
  assumes R: "keeps_world os P" and ret: "handler_QUIT os arg s = Some (r, s')" and w: "P (ext s)"
  shows "P (ext s')"
  using ret close_threads_respects [OF R _ w] by (auto simp: handler_QUIT_def)

text \<open>LIST, RETR and STOR.\<close>

fun stage_sess :: "('w, 'f) stage \<Rightarrow> ('w, 'f) sess" where
  "stage_sess (Replied s) = s"
| "stage_sess (Opened f ty s) = s"

lemma staged_respects:
  assumes "P (ext s)" and "P (ext (stage_sess (body s)))"
  shows "P (ext (stage_sess (staged body s)))"
proof (cases "guards [ignore_if_xfer, auth, data] s")
  case None
  with assms(2) show ?thesis by (simp add: staged_def del: guards_two)
next
  case (Some x)
  then have "replied s x" by (rule guards_reply [rotated]) simp
  with Some assms(1) show ?thesis by (simp add: staged_def replied_def)
qed

lemma open_LIST_respects:
  assumes R: "keeps_world os P" and "sess_inv s" and w: "P (ext s)"
  shows "P (ext (stage_sess (open_LIST os arg s)))"
  unfolding open_LIST_def
proof (rule staged_respects [where P = P, OF w])
  obtain f w1 where p: "os_popen os (list_cmd (wd (cl s))) (ext s) = (f, w1)"
    by (cases "os_popen os (list_cmd (wd (cl s))) (ext s)")
  have "P w1"
    using respects_path(5) [OF R under_root_tl [OF inv_paths [OF assms(2)]] w] p
    by (simp add: list_cmd_def)
  with p show "P (ext (stage_sess (case os_popen os (list_cmd (wd (cl s))) (ext s) of
       (None, w1) \<Rightarrow> Replied (mark 550 ''Internal error. Cannot list.'' (s\<lparr>ext := w1\<rparr>))
     | (Some f, w1) \<Rightarrow>
         Opened f DATA_SEND_PIPE
           (mark 150 ''Directory listing is being sent over the data connection.'' (s\<lparr>ext := w1\<rparr>)))))"
    by (cases f) simp_all
qed

lemma open_RETR_respects:
  assumes R: "keeps_world os P" and "sess_inv s" and w: "P (ext s)"
  shows "P (ext (stage_sess (open_RETR os arg s)))"
  unfolding open_RETR_def
proof (rule staged_respects [where P = P, OF w], goal_cases)
  case 1
  show ?case
  proof (cases "path_cat (wd (cl s)) arg")
    case (Inl e)
    with w show ?thesis by simp
  next
    case (Inr d)
    have d: "canonical d" using inv_paths [OF assms(2)] Inr by (rule path_cat_canonical)
    obtain f w1 where p: "os_fopen os (tl d) ''r'' (ext s) = (f, w1)"
      by (cases "os_fopen os (tl d) ''r'' (ext s)")
    have "P w1" using respects_path(4) [OF R under_root_tl [OF d] w p] .
    have seek: "P (os_fseek os g (rest_offs (cl s)) w1)" for g using respects_file(1) [OF R \<open>P w1\<close>] .
    show ?thesis
      unfolding Inr sum.case
      using p w \<open>P w1\<close> seek by (cases f; cases "path_exists (os_lstat os (ext s)) d PATH_REQUIREMENT_REGULAR") simp_all
  qed
qed

lemma open_STOR_respects:
  assumes R: "keeps_world os P" and "sess_inv s" and w: "P (ext s)"
  shows "P (ext (stage_sess (open_STOR os arg s)))"
  unfolding open_STOR_def Let_def
proof (rule staged_respects [where P = P, OF w], goal_cases)
  case 1
  show ?case
  proof (cases "path_cat (wd (cl s)) arg")
    case (Inl e)
    with w show ?thesis by simp
  next
    case (Inr d)
    have "canonical d" using inv_paths [OF assms(2)] Inr by (rule path_cat_canonical)
    then have d: "under_root (tl d)" by (rule under_root_tl)
    let ?w = "os_truncate os (tl d) (rest_offs (cl s)) (ext s)"
    have "P ?w" using respects_path(6) [OF R d w] .
    obtain f w1 where p: "os_fopen os (tl d) ''a'' ?w = (f, w1)"
      by (cases "os_fopen os (tl d) ''a'' ?w")
    have "P w1" using respects_path(4) [OF R d \<open>P ?w\<close> p] .
    then show ?thesis
      unfolding Inr sum.case using p by (cases f) simp_all
  qed
qed

lemma open_cmd_respects:
  assumes "keeps_world os P" and "sess_inv s" and "P (ext s)" and "open_cmd os verb arg s = Some x"
  shows "P (ext (stage_sess x))"
  using assms(4) open_LIST_respects [OF assms(1-3)] open_RETR_respects [OF assms(1-3)]
    open_STOR_respects [OF assms(1-3)]
  by (auto simp: open_cmd_def split: if_splits)

lemma plain_respects_trivial:
  "handler_SYST arg s = Some (r, s') \<Longrightarrow> P (ext s) \<Longrightarrow> P (ext s')"
  "handler_TYPE arg s = Some (r, s') \<Longrightarrow> P (ext s) \<Longrightarrow> P (ext s')"
  "handler_USER arg s = Some (r, s') \<Longrightarrow> P (ext s) \<Longrightarrow> P (ext s')"
  "handler_PASS arg s = Some (r, s') \<Longrightarrow> P (ext s) \<Longrightarrow> P (ext s')"
  "handler_PWD arg s = Some (r, s') \<Longrightarrow> P (ext s) \<Longrightarrow> P (ext s')"
  "handler_REST arg s = Some (r, s') \<Longrightarrow> P (ext s) \<Longrightarrow> P (ext s')"
  by (auto simp: handler_SYST_def)
     (auto simp: handler_TYPE_def handler_USER_def handler_PASS_def handler_PWD_def handler_REST_def
        logged_in_def Let_def elim!: guarded_respects split: if_splits option.splits)

lemma process_command_respects:
  assumes R: "keeps_world os P" and inv: "sess_inv s" and w: "P (ext s)"
    and ret: "process_command os verb arg s = Some (r, s')" and no: "open_cmd os verb arg s = None"
  shows "P (ext s')"
  using ret
proof (cases rule: process_command_cases)
  case LIST with no show ?thesis by (simp add: open_cmd_def)
next
  case RETR with no show ?thesis by (simp add: open_cmd_def)
next
  case STOR with no show ?thesis by (simp add: open_cmd_def)
next
  case (other m) with w show ?thesis by simp
qed (erule QUIT_respects [OF R _ w] PORT_respects [OF R _ w] PASV_respects [OF R _ w]
    ABOR_respects [OF R _ w] CWD_respects [where P = P, OF _ inv w] RNFR_respects [where P = P, OF _ inv w]
    MKD_respects [OF R _ inv w] RMD_respects [OF R _ inv w] DELE_respects [OF R _ inv w]
    RNTO_respects [OF R _ inv w] plain_respects_trivial [where P = P, OF _ w])+

lemma session_step_respects:
  assumes "session_step spurious os c c'" and "keeps_world os P" and "conf_inv spurious c" and w: "P (ext (fst c))"
  shows "P (ext (fst c'))"
proof -
  have inv: "sess_inv (fst c)" using assms(3) by (simp add: conf_inv_def)
  show "P (ext (fst c'))"
    using assms(1)
  proof (cases rule: session_step.cases)
    case (command s verb arg s')
    with process_command_respects [OF assms(2) _ _ command(5,4)] inv w show ?thesis by simp
  next
    case (refused s verb arg s')
    with open_cmd_respects [OF assms(2) _ _ refused(4)] inv w show ?thesis by simp
  next
    case (opened s verb arg f ty s')
    with open_cmd_respects [OF assms(2) _ _ opened(4)] inv w show ?thesis by simp
  next
    case (signalled s f ty)
    with w show ?thesis by (simp add: signal_file_def)
  next
    case (thread s s' p)
    with thr_step_respects [OF assms(2) thread(4)] w show ?thesis by simp
  next
    case (wakeup s t p)
    with w show ?thesis by simp
  qed
qed

lemma shutdown_no_open:
  "process_command os verb arg s = Some (CMD_RESULT_SHUTDOWN, s') \<Longrightarrow> open_cmd os verb arg s = None"
proof (rule ccontr)
  assume ret: "process_command os verb arg s = Some (CMD_RESULT_SHUTDOWN, s')" and "open_cmd os verb arg s \<noteq> None"
  then obtain x where "open_cmd os verb arg s = Some x" by blast
  from open_then_signal [OF this] ret show False by (cases x) simp_all
qed

lemma client_close_respects:
  assumes "keeps_world os P" and "client_close os s = Some s'" and "P (ext s)"
  shows "P (ext s')"
proof -
  obtain s1 where s1: "client_close_threads os s = Some s1"
    and s': "s' = s1\<lparr>ext := os_close os (sock_ctl (cl s1)) (ext s1)\<rparr>"
    using assms(2) by (cases "client_close_threads os s") (auto simp: client_close_def)
  have "P (ext s1)" by (rule close_threads_respects [OF assms(1) s1 assms(3)])
  with s' respects_socket(12) [OF assms(1)] show ?thesis by simp
qed

lemma life_step_respects:
  assumes "life_step spurious os l l'" and "keeps_world os P" and "life_inv spurious l \<and> P (ext (sess_of l))"
  shows "life_inv spurious l' \<and> P (ext (sess_of l'))"
proof
  show "life_inv spurious l'" using life_step_inv [OF assms(1)] assms(3) by blast
  show "P (ext (sess_of l'))"
    using assms(1)
  proof (cases rule: life_step.cases)
    case (live c c')
    with session_step_respects [OF live(3) assms(2)] assms(3) show ?thesis by simp
  next
    case (shutdown s verb arg s')
    with process_command_respects [OF assms(2) _ _ shutdown(4) shutdown_no_open [OF shutdown(4)]] assms(3)
    show ?thesis by (simp add: conf_inv_def)
  next
    case (thread s s')
    with thr_step_respects [OF assms(2) thread(4)] assms(3) show ?thesis by simp
  next
    case (close s s')
    with client_close_respects [OF assms(2) close(4)] assms(3) show ?thesis by simp
  qed (use assms(3) in simp_all)
qed

text \<open>
  C1. Confinement of whole sessions: take any property of the outside world that the system
  calls keep when the paths they are given are relative to the served root and have no empty,
  \<open>.\<close> or \<open>..\<close> item, and no character beyond letters, digits, \<open>-\<close>, \<open>.\<close>, \<open>_\<close> and \<open>/\<close> (for
  \<open>popen\<close>, when the command is \<open>ls -lH\<close> on such a path). Every session keeps it, whatever
  the client sends, however its data thread is scheduled and woken, through to its closing. So no
  session reaches a path above the root by name, and none gets a shell metacharacter into the
  command line.
\<close>

theorem sessions_confined:
  assumes "keeps_world os P" and "P w"
    and "(life_step spurious os)\<^sup>*\<^sup>* (Live (new_sess (client_create sock rs a p ty) w, None)) l"
  shows "P (ext (sess_of l))"
proof -
  let ?c = "(new_sess (client_create sock rs a p ty) w, None)"
  have "new_conf ?c" unfolding new_conf_def by (intro exI, rule refl)
  from new_conf_inv [OF this] assms(2) have "life_inv spurious (Live ?c) \<and> P (ext (sess_of (Live ?c)))"
    by (simp add: new_sess_def)
  moreover have "life_inv spurious y \<and> P (ext (sess_of y))"
    if "(life_step spurious os)\<^sup>*\<^sup>* x y" "life_inv spurious x \<and> P (ext (sess_of x))" for x y
    using that(1) that(2)
  proof (induction rule: rtranclp_induct)
    case (step y z)
    then show ?case using life_step_respects [OF step.hyps(2) assms(1)] by blast
  qed
  ultimately show ?thesis using assms(3) by blast
qed

text \<open>All directories of the in-memory system have names under the root.\<close>

definition dirs_under_root :: "world \<Rightarrow> bool" where
  "dirs_under_root w \<longleftrightarrow> list_all under_root (dirs w)"

lemma demo_keeps_dirs: "keeps_world demo_os dirs_under_root"
proof -
  have "respects_paths demo_os dirs_under_root"
    unfolding respects_paths_def demo_os_def
    by (simp add: demo_lstat_def demo_mkdir_def demo_rmdir_def demo_unlink_def demo_rename_def
        demo_fopen_def put_def dirs_under_root_def list_all_iff split: option.splits file_kind.splits)
  moreover have "respects_files demo_os dirs_under_root"
    by (simp add: respects_files_def demo_os_def demo_fread_def put_def dirs_under_root_def Let_def)
  moreover have "respects_sockets demo_os dirs_under_root"
    by (simp add: respects_sockets_def demo_os_def demo_read_def demo_write_def dirs_under_root_def
        split: list.splits)
  ultimately show ?thesis by (simp add: keeps_world_def)
qed

theorem sessions_confined_witness: "dirs_under_root (ext (sess_of (Live (stuck0, None))))"
proof (rule sessions_confined [OF demo_keeps_dirs])
  show "dirs_under_root world0"
    using canonical_render [of "[''pub'']"]
    by (simp add: dirs_under_root_def world0_def under_root_def render_def legal_item_def path_char_def
        less_eq_char_def)
  obtain s t where s: "run demo_os early_list conf0 = Some (s, None)" using early_list_runs by blast
  then have "stuck0 = s" by (simp add: stuck0_def)
  with run_lives [OF s] show "(life_step False demo_os)\<^sup>*\<^sup>*
      (Live (new_sess (client_create 4 [] [] 0 DATA_UNDEFINED) world0, None)) (Live (stuck0, None))"
    by (simp add: conf0_def)
qed

end
