(* ===== verification/DataTransfer.thy ===== *)
theory DataTransfer
  imports Confine
begin

text \<open>
  What a transfer delivers: the data thread with a connection and a file, run to its end. The
  file and the connection are those of the system; what the code relies on of \<open>fread\<close>,
  \<open>write\<close>, \<open>read\<close> and \<open>fwrite\<close> are the laws below.
\<close>

section \<open>One block\<close>

text \<open>The thread is in its loop with a connection and a file.\<close>

definition transferring :: "nat \<Rightarrow> 'f \<Rightarrow> 'f dthr \<Rightarrow> ('w, 'f) sess \<Rightarrow> bool" where
  "transferring conn f t s \<longleftrightarrow>
     thr s = Some t \<and> (pc t = A_LOOP \<or> pc t = P_LOOP) \<and> conn_fd t = Some conn \<and> t_fp t = Some f \<and>
     thr_dat_running (cl s)"

lemma transferring_step:
  assumes "transferring conn f t s"
  shows "thr_step os s = Some (block_step os t conn s)"
  using assms
  by (auto simp: transferring_def thr_step_def pasv_step_def pasv_connected_def Let_def)

definition after_block :: "'f dthr \<Rightarrow> nat \<Rightarrow> int \<Rightarrow> 'w \<Rightarrow> ('w, 'f) sess \<Rightarrow> ('w, 'f) sess" where
  "after_block t r ps w s =
     s\<lparr>ext := w, thr := Some (t\<lparr>st := r, process_sleep := ps, pc := (if r \<noteq> 0 then T_CLOSE else pc t)\<rparr>)\<rparr>"

lemma block_run:
  assumes "transferring conn f t s"
    and "process_block os conn (t_ty t) f (process_sleep t) (ext s) = Some (r, ps, w)"
  shows "run_thread os (Suc n) s = run_thread os n (after_block t r ps w s)"
  using assms transferring_step [OF assms(1), of os]
  by (simp add: block_step_def transferring_def after_block_def)

lemma after_block_transferring:
  "transferring conn f t s \<Longrightarrow>
     transferring conn f (t\<lparr>st := 0, process_sleep := ps, pc := pc t\<rparr>) (after_block t 0 ps w s)"
  by (simp add: transferring_def after_block_def)

text \<open>The end of a transfer: three steps close what is open and send the last reply.\<close>

definition finished :: "('w, 'f) os \<Rightarrow> 'f dthr \<Rightarrow> nat \<Rightarrow> 'w \<Rightarrow> ('w, 'f) sess \<Rightarrow> ('w, 'f) sess \<Rightarrow> bool" where
  "finished os t r w s s' \<longleftrightarrow>
     (\<exists>t'. thr s' = Some t' \<and> pc t' = T_DONE) \<and> dat_fp (cl s') = None \<and> state (cl s') = CLST_READY \<and>
     fault s' = fault s \<and>
     out s' = out s @ (if r = 1 then [(226, ''Transfer complete.'')]
       else if r = 2 then [(451, ''Transfer aborted by internal I/O error.'')] else []) \<and>
     ext s' = close_file os (t_ty t) (t_fp t) (close_opt os (conn_fd t) (close_opt os (t_sock t) w))"

lemma cleanup_run:
  assumes "r \<noteq> 0"
  shows "finished os t r w s (run_thread os 3 (after_block t r ps w s))"
proof -
  have "run_thread os 3 x =
      cleanup_mark (t1\<lparr>pc := T_MARK\<rparr>) (cleanup_ready (t1\<lparr>pc := T_READY\<rparr>) (cleanup_close os t1 x))"
    if "thr x = Some t1" "pc t1 = T_CLOSE" for x t1
    using that by (simp add: numeral_3_eq_3 thr_step_def)
  from this [of "after_block t r ps w s" "t\<lparr>st := r, process_sleep := ps, pc := T_CLOSE\<rparr>"] assms
  show ?thesis
    by (simp add: finished_def after_block_def)
       (simp add: cleanup_mark_def cleanup_ready_def cleanup_close_def Let_def)
qed

section \<open>Sending\<close>

text \<open>
  The laws of a file that is read in order: \<open>rest\<close> is what has not been read. \<open>fread\<close> returns
  as many bytes as it is asked for unless fewer are left, and then the end-of-file indicator is
  set. Reading the file returns. Writing to the connection does not disturb the file.
\<close>

definition file_law ::
  "('w, 'f) os \<Rightarrow> nat \<Rightarrow> 'f \<Rightarrow> ('w \<Rightarrow> string) \<Rightarrow> ('w \<Rightarrow> string) \<Rightarrow> bool" where
  "file_law os conn f rest dl \<longleftrightarrow>
     (\<forall>w. \<not> os_hangs os (FREAD f) w) \<and>
     (\<forall>n w. case os_fread os f n w of (bs, w') \<Rightarrow>
        bs = take n (rest w) \<and> rest w' = drop n (rest w) \<and> dl w' = dl w \<and>
        (os_feof os f w' \<longleftrightarrow> length (rest w) < n) \<and> \<not> os_ferror os f w') \<and>
     (\<forall>w bs w'. snd (os_write os conn w bs) = w' \<longrightarrow>
        rest w' = rest w \<and> os_feof os f w' = os_feof os f w \<and> os_ferror os f w' = os_ferror os f w)"

text \<open>A connection that never fails, and one that always does.\<close>

definition never_fails :: "('w, 'f) os \<Rightarrow> nat \<Rightarrow> bool" where
  "never_fails os conn \<longleftrightarrow> (\<forall>w bs. fst (os_write os conn w bs) \<noteq> WFail)"

text \<open>One block of a send: the status depends on the file alone.\<close>

lemma send_block:
  assumes law: "file_law os conn f rest dl" and prog: "write_progress (os_write os conn) m"
    and ty: "ty = DATA_SEND_FILE \<or> ty = DATA_SEND_PIPE"
  shows "\<exists>w'. process_block os conn ty f ps w = Some (if length (rest w) < BUF_SIZE then 1 else 0, ps, w') \<and>
    rest w' = drop BUF_SIZE (rest w) \<and>
    (never_fails os conn \<longrightarrow> write_law (os_write os conn) dl \<longrightarrow> dl w' = dl w @ take BUF_SIZE (rest w))"
proof -
  obtain bs w1 where f: "os_fread os f BUF_SIZE w = (bs, w1)" by (cases "os_fread os f BUF_SIZE w")
  have "case os_fread os f BUF_SIZE w of (bs, w') \<Rightarrow>
      bs = take BUF_SIZE (rest w) \<and> rest w' = drop BUF_SIZE (rest w) \<and> dl w' = dl w \<and>
      (os_feof os f w' \<longleftrightarrow> length (rest w) < BUF_SIZE) \<and> \<not> os_ferror os f w'"
    by (rule conjunct1 [OF conjunct2 [OF law [unfolded file_law_def]], THEN spec, THEN spec])
  with f have w1: "bs = take BUF_SIZE (rest w)" "rest w1 = drop BUF_SIZE (rest w)" "dl w1 = dl w"
    "os_feof os f w1 \<longleftrightarrow> length (rest w) < BUF_SIZE" "\<not> os_ferror os f w1"
    by simp_all
  have h: "\<not> os_hangs os (FREAD f) w" using law by (simp add: file_law_def)
  have keep: "\<forall>w bs. (rest w = rest w1 \<and> os_feof os f w = os_feof os f w1 \<and> os_ferror os f w = os_ferror os f w1) \<longrightarrow>
      (\<lambda>w. rest w = rest w1 \<and> os_feof os f w = os_feof os f w1 \<and> os_ferror os f w = os_ferror os f w1)
        (snd (os_write os conn w bs))"
    using law unfolding file_law_def by metis
  show ?thesis
  proof (cases "bs = []")
    case True
    with f h ty w1 show ?thesis by (auto simp: process_block_def)
  next
    case False
    obtain r where r: "write_all (os_write os conn) bs w1 = Some r"
      using write_all_returns [OF prog] by blast
    obtain k w2 where kw: "r = (k, w2)" by (cases r)
    have w2: "rest w2 = rest w1" "os_feof os f w2 = os_feof os f w1" "os_ferror os f w2 = os_ferror os f w1"
      using write_all_respects [where P = "\<lambda>w. rest w = rest w1 \<and> os_feof os f w = os_feof os f w1 \<and>
        os_ferror os f w = os_ferror os f w1", OF r keep] kw by simp_all
    have "dl w2 = dl w @ take BUF_SIZE (rest w)"
      if "never_fails os conn" "write_law (os_write os conn) dl"
      using write_all_partial [OF r that(2)] write_all_complete [OF r] that(1) w1 kw
      by (simp add: never_fails_def min_def)
    with f h ty False r kw w1 w2 show ?thesis by (auto simp: process_block_def)
  qed
qed

lemma send_run:
  assumes law: "file_law os conn f rest dl" and prog: "write_progress (os_write os conn) m"
  shows "transferring conn f t s \<Longrightarrow> t_ty t = DATA_SEND_FILE \<or> t_ty t = DATA_SEND_PIPE \<Longrightarrow>
    \<exists>w. finished os t 1 w s (run_thread os (length (rest (ext s)) div BUF_SIZE + 4) s) \<and>
      (never_fails os conn \<longrightarrow> write_law (os_write os conn) dl \<longrightarrow> dl w = dl (ext s) @ rest (ext s))"
proof (induction "length (rest (ext s)) div BUF_SIZE" arbitrary: s t)
  case 0
  then have short: "length (rest (ext s)) < BUF_SIZE" by (auto simp: div_eq_0_iff BUF_SIZE_def)
  obtain w' where b: "process_block os conn (t_ty t) f (process_sleep t) (ext s) = Some (1, process_sleep t, w')"
    "never_fails os conn \<longrightarrow> write_law (os_write os conn) dl \<longrightarrow> dl w' = dl (ext s) @ take BUF_SIZE (rest (ext s))"
    using send_block [OF law prog 0(3), of "process_sleep t" "ext s"] short by auto
  have "run_thread os (Suc 3) s = run_thread os 3 (after_block t 1 (process_sleep t) w' s)"
    using 0(2) b(1) by (rule block_run)
  with cleanup_run [of 1 os t w' s "process_sleep t"] b(2) short 0(1) [symmetric] show ?case
    by (intro exI [of _ w']) (simp add: numeral_eq_Suc)
next
  case (Suc k)
  have "BUF_SIZE * Suc k \<le> length (rest (ext s))"
    unfolding Suc.hyps(2) by (rule times_div_less_eq_dividend)
  then have long: "\<not> length (rest (ext s)) < BUF_SIZE" by (simp add: BUF_SIZE_def)
  obtain w' where b: "process_block os conn (t_ty t) f (process_sleep t) (ext s) = Some (0, process_sleep t, w')"
    "rest w' = drop BUF_SIZE (rest (ext s))"
    "never_fails os conn \<longrightarrow> write_law (os_write os conn) dl \<longrightarrow> dl w' = dl (ext s) @ take BUF_SIZE (rest (ext s))"
    using send_block [OF law prog Suc.prems(2), of "process_sleep t" "ext s"] long by auto
  let ?t = "t\<lparr>st := 0, process_sleep := process_sleep t, pc := pc t\<rparr>"
  let ?s = "after_block t 0 (process_sleep t) w' s"
  have ext': "ext ?s = w'" by (simp add: after_block_def)
  have k: "k = length (rest (ext ?s)) div BUF_SIZE"
  proof -
    have "length (rest (ext s)) - BUF_SIZE = length (rest (ext ?s))" by (simp add: ext' b(2))
    moreover have "0 < BUF_SIZE" by (simp add: BUF_SIZE_def)
    ultimately show ?thesis
      using long Suc.hyps(2) le_div_geq [of BUF_SIZE "length (rest (ext s))"] by simp
  qed
  have tr: "transferring conn f ?t ?s" using Suc.prems(1) by (rule after_block_transferring)
  obtain w where w: "finished os ?t 1 w ?s (run_thread os (k + 4) ?s)"
    "never_fails os conn \<longrightarrow> write_law (os_write os conn) dl \<longrightarrow> dl w = dl (ext ?s) @ rest (ext ?s)"
    using Suc.hyps(1) [OF k tr] Suc.prems(2) k by auto
  have "run_thread os (Suc (k + 4)) s = run_thread os (k + 4) ?s"
    using Suc.prems(1) b(1) by (rule block_run)
  moreover have "finished os t 1 w s (run_thread os (k + 4) ?s)"
    using w(1) by (simp add: finished_def after_block_def)
  moreover have "never_fails os conn \<longrightarrow> write_law (os_write os conn) dl \<longrightarrow> dl w = dl (ext s) @ rest (ext s)"
    using w(2) b(2,3) by (simp add: ext')
  ultimately show ?case unfolding Suc.hyps(2) [symmetric] by (intro exI [of _ w]) simp
qed

text \<open>
  C18. RETR and LIST deliver the file: once the data thread has its connection and the file, it
  makes one pass per 1024 bytes and one more, then closes; what has reached the connection is
  exactly the rest of the file from the restart offset on, in order, whatever sizes the single
  writes accept, and the one line sent is 226, with the session ready again.
\<close>

theorem send_delivers:
  assumes "file_law os conn f rest dl" and "write_progress (os_write os conn) m"
    and "write_law (os_write os conn) dl" and "never_fails os conn"
    and "transferring conn f t s" and "t_ty t = DATA_SEND_FILE \<or> t_ty t = DATA_SEND_PIPE"
  shows "\<exists>w s'. run_thread os (length (rest (ext s)) div BUF_SIZE + 4) s = s' \<and>
    dl w = dl (ext s) @ rest (ext s) \<and> out s' = out s @ [(226, ''Transfer complete.'')] \<and>
    dat_fp (cl s') = None \<and> state (cl s') = CLST_READY \<and>
    ext s' = close_file os (t_ty t) (Some f) (os_close os conn (close_opt os (t_sock t) w))"
  using send_run [OF assms(1,2,5,6)] assms(3-5)
  by (auto simp: finished_def transferring_def close_opt_def)

text \<open>
  C36. A write that fails goes unnoticed: the data thread ignores what \<open>write_all\<close> reports, so
  that even when the connection accepts nothing at all the whole file is read and the client is
  told 226, Transfer complete.
\<close>

theorem send_failure_unnoticed:
  assumes "file_law os conn f rest dl" and "\<forall>w bs. os_write os conn w bs = (WFail, w)"
    and "transferring conn f t s" and "t_ty t = DATA_SEND_FILE \<or> t_ty t = DATA_SEND_PIPE"
  shows "out (run_thread os (length (rest (ext s)) div BUF_SIZE + 4) s) =
    out s @ [(226, ''Transfer complete.'')]"
proof -
  have "write_progress (os_write os conn) (\<lambda>w. 0)"
    using assms(2) by (simp add: write_progress_def)
  from send_run [OF assms(1) this assms(3,4)] show ?thesis by (auto simp: finished_def)
qed

section \<open>A peer that stalls\<close>

text \<open>The peer of an upload neither sends nor closes, or that of a download never reads.\<close>

definition stalled :: "('w, 'f) os \<Rightarrow> nat \<Rightarrow> dat_type \<Rightarrow> 'f \<Rightarrow> 'w \<Rightarrow> bool" where
  "stalled os conn ty f w \<longleftrightarrow>
     (if ty = DATA_SEND_FILE \<or> ty = DATA_SEND_PIPE then
        fst (os_fread os f BUF_SIZE w) \<noteq> [] \<and> (\<forall>w bs. fst (os_write os conn w bs) = WAgain)
      else os_hangs os (READ conn) w)"

lemma write_all_loops:
  assumes "\<forall>w bs. fst (wrf w bs) = WAgain" and "buf \<noteq> []"
  shows "write_all wrf buf w = None"
proof (rule ccontr)
  assume "write_all wrf buf w \<noteq> None"
  then obtain r where r: "write_all wrf buf w = Some r" by blast
  have "(\<forall>w bs. fst (wrf w bs) = WAgain) \<longrightarrow> buf = []"
  proof (rule write_all.raw_induct [where P = "\<lambda>wrf buf w r. (\<forall>w bs. fst (wrf w bs) = WAgain) \<longrightarrow> buf = []", OF _ r])
    fix f wrf buf w r
    assume IH: "\<And>wrf buf w r. f wrf buf w = Some r \<Longrightarrow> (\<forall>w bs. fst (wrf w bs) = WAgain) \<longrightarrow> buf = []"
      and eq: "(if buf \<noteq> [] then
          (case wrf w buf of
             (Wrote n, w') \<Rightarrow> f wrf (drop n buf) w'
           | (WAgain, w') \<Rightarrow> f wrf buf w'
           | (WFail, w') \<Rightarrow> Some (length buf, w'))
        else Some (0, w)) = Some r"
    show "(\<forall>w bs. fst (wrf w bs) = WAgain) \<longrightarrow> buf = []"
    proof
      assume again: "\<forall>w bs. fst (wrf w bs) = WAgain"
      obtain v w' where v: "wrf w buf = (v, w')" by (cases "wrf w buf")
      have "v = WAgain" using again [rule_format, of w buf] v by simp
      with eq v IH [of wrf buf w' r] again show "buf = []" by (auto split: if_splits)
    qed
  qed
  with assms show False by blast
qed

lemma stalled_block: "stalled os conn ty f w \<Longrightarrow> process_block os conn ty f ps w = None"
  using write_all_loops [of "os_write os conn"]
  by (auto simp: stalled_def process_block_def split: if_splits prod.splits)

text \<open>
  C40. A peer that stalls takes the session with it: once the data connection of an upload (in passive
  mode, where the accepted socket blocks) stays silent but open, or that of a download takes no more
  for good, the data thread is in a block that never
  returns, and neither ABOR nor QUIT, nor closing the session when the client has gone, ever ends:
  \<open>thr_dat_running\<close> is only looked at between two blocks.
\<close>

theorem stalled_transfer_unstoppable:
  assumes "transferring conn f t s" and "sess_inv s" and "dat_fp (cl s) \<noteq> None"
    and "stalled os conn (t_ty t) f (ext s)"
  shows "\<exists>s'. thr_step os s = Some s' \<and> thr_step os s' = None \<and>
    process_command os ''ABOR'' arg s' = None \<and> process_command os ''QUIT'' arg s' = None \<and>
    client_close os s' = None"
proof -
  let ?s = "s\<lparr>thr := Some (t\<lparr>pc := T_HANGS\<rparr>)\<rparr>"
  have step: "thr_step os s = Some ?s"
    using assms(1) transferring_step [OF assms(1), of os] stalled_block [OF assms(4)]
    by (simp add: block_step_def transferring_def)
  have inv: "sess_inv ?s" using assms(1,2) by (simp add: sess_inv_def transferring_def)
  have "\<exists>t. thr ?s = Some t \<and> unjoinable t" by (simp add: unjoinable_def)
  with process_command_hangs [OF inv] close_threads_None_iff [OF inv] assms(3)
  have "process_command os ''ABOR'' arg ?s = None" "process_command os ''QUIT'' arg ?s = None"
    "client_close os ?s = None"
    by (simp_all add: client_close_def)
  moreover have "thr_step os ?s = None" by (simp add: thr_step_def)
  ultimately show ?thesis using step by blast
qed

section \<open>Receiving\<close>

text \<open>
  The laws of a connection that is read in order and a file that is appended to: \<open>script\<close> is
  what the coming \<open>read()\<close> calls return; while there is some, they do return.
\<close>

definition upload_law ::
  "('w, 'f) os \<Rightarrow> nat \<Rightarrow> 'f \<Rightarrow> ('w \<Rightarrow> rd list) \<Rightarrow> ('w \<Rightarrow> string) \<Rightarrow> bool" where
  "upload_law os conn f script stored \<longleftrightarrow>
     (\<forall>w r rs. script w = r # rs \<longrightarrow> \<not> os_hangs os (READ conn) w \<and>
        (case os_read os conn BUF_SIZE w of (r', w') \<Rightarrow>
           r' = r \<and> script w' = rs \<and> stored w' = stored w \<and> \<not> os_ferror os f w')) \<and>
     (\<forall>w bs. script (os_fwrite os f bs w) = script w \<and> stored (os_fwrite os f bs w) = stored w @ bs \<and>
        \<not> os_ferror os f (os_fwrite os f bs w))"

fun payload :: "rd list \<Rightarrow> string" where
  "payload [] = []"
| "payload (Data bs # rs) = bs @ payload rs"
| "payload (_ # rs) = payload rs"

definition arrives :: "rd \<Rightarrow> bool" where
  "arrives r \<longleftrightarrow> r = Again \<or> (\<exists>bs. r = Data bs \<and> bs \<noteq> [])"

lemma upload_lawD:
  assumes "upload_law os conn f script stored" and "script w = r # rs"
  obtains w' where "os_read os conn BUF_SIZE w = (r, w')" and "script w' = rs" and "stored w' = stored w"
    and "\<not> os_ferror os f w'" and "\<not> os_hangs os (READ conn) w"
proof -
  obtain r' w' where r: "os_read os conn BUF_SIZE w = (r', w')" by (cases "os_read os conn BUF_SIZE w")
  have "\<not> os_hangs os (READ conn) w \<and> (case os_read os conn BUF_SIZE w of (r', w') \<Rightarrow>
      r' = r \<and> script w' = rs \<and> stored w' = stored w \<and> \<not> os_ferror os f w')"
    by (rule conjunct1 [OF assms(1) [unfolded upload_law_def], THEN spec, THEN spec, THEN spec,
          THEN mp, OF assms(2)])
  with r that show thesis by simp
qed

lemma upload_fwrite:
  "upload_law os conn f script stored \<Longrightarrow>
     script (os_fwrite os f bs w) = script w \<and> stored (os_fwrite os f bs w) = stored w @ bs \<and>
     \<not> os_ferror os f (os_fwrite os f bs w)"
  by (simp add: upload_law_def)

lemma process_block_receive:
  assumes "\<not> os_hangs os (READ conn) w"
  shows
  "os_read os conn BUF_SIZE w = (Data (b # bs), w1) \<Longrightarrow> process_block os conn DATA_RECV_FILE f ps w =
     Some (if os_ferror os f (os_fwrite os f (b # bs) w1) then 2 else 0, 1000, os_fwrite os f (b # bs) w1)"
  "os_read os conn BUF_SIZE w = (Again, w1) \<Longrightarrow> process_block os conn DATA_RECV_FILE f ps w =
     Some (if os_ferror os f w1 then 2 else 0, double_and_limit ps 200000, w1)"
  "os_read os conn BUF_SIZE w = (Data [], w1) \<Longrightarrow> process_block os conn DATA_RECV_FILE f ps w = Some (1, ps, w1)"
  "os_read os conn BUF_SIZE w = (Fail, w1) \<Longrightarrow> process_block os conn DATA_RECV_FILE f ps w = Some (1, ps, w1)"
  using assms by (simp_all add: process_block_def)

lemma receive_block:
  assumes law: "upload_law os conn f script stored" and sc: "script w = r # rs" and a: "arrives r"
  shows "\<exists>w' ps'. process_block os conn DATA_RECV_FILE f ps w = Some (0, ps', w') \<and>
    script w' = rs \<and> stored w' = stored w @ payload [r]"
proof -
  obtain w1 where w1: "os_read os conn BUF_SIZE w = (r, w1)" "script w1 = rs" "stored w1 = stored w"
    "\<not> os_ferror os f w1" and h: "\<not> os_hangs os (READ conn) w"
    using law sc by (rule upload_lawD)
  note block = process_block_receive [OF h]
  show ?thesis
  proof (cases r)
    case (Data bs)
    then obtain c cs where "bs = c # cs" using a by (cases bs) (auto simp: arrives_def)
    with Data w1 block(1) upload_fwrite [OF law] show ?thesis by fastforce
  next
    case Again
    with w1 block(2) show ?thesis by fastforce
  qed (use a in \<open>simp add: arrives_def\<close>)
qed

lemma receive_end:
  assumes law: "upload_law os conn f script stored" and sc: "script w = [e]" and e: "e = Data [] \<or> e = Fail"
  shows "\<exists>w' ps'. process_block os conn DATA_RECV_FILE f ps w = Some (1, ps', w') \<and> stored w' = stored w"
proof -
  obtain w1 where w1: "os_read os conn BUF_SIZE w = (e, w1)" "stored w1 = stored w"
    and h: "\<not> os_hangs os (READ conn) w"
    using law sc by (rule upload_lawD)
  from e w1 process_block_receive(3,4) [OF h] show ?thesis by fastforce
qed

lemma payload_append: "payload (xs @ ys) = payload xs @ payload ys"
  by (induction xs rule: payload.induct) simp_all

lemma receive_run:
  assumes law: "upload_law os conn f script stored"
  shows "transferring conn f t s \<Longrightarrow> t_ty t = DATA_RECV_FILE \<Longrightarrow> script (ext s) = rs @ [e] \<Longrightarrow>
    list_all arrives rs \<Longrightarrow> e = Data [] \<or> e = Fail \<Longrightarrow>
    \<exists>w. finished os t 1 w s (run_thread os (length rs + 4) s) \<and> stored w = stored (ext s) @ payload rs"
proof (induction rs arbitrary: s t)
  case Nil
  obtain w' ps' where b: "process_block os conn (t_ty t) f (process_sleep t) (ext s) = Some (1, ps', w')"
    "stored w' = stored (ext s)"
    using receive_end [OF law _ Nil(5), of "ext s"] Nil(2,3) by fastforce
  have "run_thread os (Suc 3) s = run_thread os 3 (after_block t 1 ps' w' s)"
    using Nil(1) b(1) by (rule block_run)
  with cleanup_run [of 1 os t w' s ps'] b(2) show ?case
    by (intro exI [of _ w']) (simp add: numeral_eq_Suc)
next
  case (Cons r rs)
  obtain w' ps' where b: "process_block os conn (t_ty t) f (process_sleep t) (ext s) = Some (0, ps', w')"
    "script w' = rs @ [e]" "stored w' = stored (ext s) @ payload [r]"
    using receive_block [OF law, of "ext s" r "rs @ [e]" "process_sleep t"] Cons.prems(2-4) by auto
  let ?t = "t\<lparr>st := 0, process_sleep := ps', pc := pc t\<rparr>"
  let ?s = "after_block t 0 ps' w' s"
  have ext': "ext ?s = w'" by (simp add: after_block_def)
  have tr: "transferring conn f ?t ?s" using Cons.prems(1) by (rule after_block_transferring)
  obtain w where w: "finished os ?t 1 w ?s (run_thread os (length rs + 4) ?s)"
    "stored w = stored (ext ?s) @ payload rs"
    using Cons.IH [OF tr] Cons.prems b(2) by (auto simp: ext')
  have "run_thread os (Suc (length rs + 4)) s = run_thread os (length rs + 4) ?s"
    using Cons.prems(1) b(1) by (rule block_run)
  moreover have "finished os t 1 w s (run_thread os (length rs + 4) ?s)"
    using w(1) by (simp add: finished_def after_block_def)
  moreover have "stored w = stored (ext s) @ payload (r # rs)"
    using w(2) b(3) payload_append [of "[r]" rs] by (simp add: ext')
  ultimately show ?case by (intro exI [of _ w]) simp
qed

text \<open>
  STOR stores what arrives: however the bytes are split over \<open>read()\<close> calls and however
  often there is nothing to read yet, what is appended to the file is exactly what was received
  up to the end of the connection, and the reply is 226. A read that fails counts as that end.
\<close>

theorem receive_stores:
  assumes "upload_law os conn f script stored" and "transferring conn f t s"
    and "t_ty t = DATA_RECV_FILE" and "script (ext s) = rs @ [e]" and "list_all arrives rs"
    and "e = Data [] \<or> e = Fail"
  shows "\<exists>w s'. run_thread os (length rs + 4) s = s' \<and> stored w = stored (ext s) @ payload rs \<and>
    out s' = out s @ [(226, ''Transfer complete.'')] \<and> dat_fp (cl s') = None \<and>
    state (cl s') = CLST_READY \<and>
    ext s' = os_fclose os f (os_close os conn (close_opt os (t_sock t) w))"
  using receive_run [OF assms] assms(2,3)
  by (auto simp: finished_def transferring_def close_opt_def close_file_def)

section \<open>Transfers on the in-memory system\<close>

definition demo_thr :: "dat_type \<Rightarrow> string dthr" where
  "demo_thr ty = (passive_init 5)\<lparr>conn_fd := Some 7, t_fp := Some ''pub/a.txt'', t_ty := ty\<rparr>"

definition sess_xfer :: "dat_type \<Rightarrow> rd list \<Rightarrow> (world, string) sess" where
  "sess_xfer ty rs = sess_pasv\<lparr>ext := world0\<lparr>inbox := rs\<rparr>, thr := Some (demo_thr ty)\<rparr>"

lemma demo_transferring: "transferring 7 ''pub/a.txt'' (demo_thr ty) (sess_xfer ty rs)"
  by (simp add: transferring_def demo_thr_def sess_xfer_def passive_init_def sess_pasv_def)

definition demo_rest :: "world \<Rightarrow> string" where
  "demo_rest w = drop (pos w) (content ''pub/a.txt'' w)"

lemma demo_file_law_any: "file_law demo_os fd f (\<lambda>w. drop (pos w) (content f w)) sent"
proof -
  have "drop (k + length (take n (drop k c))) c = drop n (drop k c)" for n k and c :: string
    by (cases "n \<le> length (drop k c)") (auto simp: add.commute)
  moreover have "min a n < n \<longleftrightarrow> a < n" for a n :: nat by auto
  ultimately show ?thesis
    by (simp add: file_law_def demo_os_def demo_fread_def demo_write_def content_def Let_def)
qed

lemma demo_file_law: "file_law demo_os 7 ''pub/a.txt'' demo_rest sent"
  using demo_file_law_any [of 7 "''pub/a.txt''"] by (simp add: file_law_def demo_rest_def)

lemma demo_write_laws: "write_progress (os_write demo_os 7) (\<lambda>w. 0)" "write_law (os_write demo_os 7) sent"
  "never_fails demo_os 7"
  by (auto simp: write_progress_def write_law_def never_fails_def demo_os_def demo_write_def min_def)

theorem send_delivers_witness:
  "\<exists>w s'. run_thread demo_os (length (demo_rest (ext (sess_xfer DATA_SEND_FILE []))) div BUF_SIZE + 4)
      (sess_xfer DATA_SEND_FILE []) = s' \<and>
    sent w = sent (ext (sess_xfer DATA_SEND_FILE [])) @ demo_rest (ext (sess_xfer DATA_SEND_FILE [])) \<and>
    out s' = out (sess_xfer DATA_SEND_FILE []) @ [(226, ''Transfer complete.'')] \<and>
    dat_fp (cl s') = None \<and> state (cl s') = CLST_READY \<and>
    ext s' = close_file demo_os (t_ty (demo_thr DATA_SEND_FILE)) (Some ''pub/a.txt'')
      (os_close demo_os 7 (close_opt demo_os (t_sock (demo_thr DATA_SEND_FILE)) w))"
  by (rule send_delivers [OF demo_file_law demo_write_laws demo_transferring])
     (simp add: demo_thr_def)

theorem send_failure_unnoticed_witness:
  "out (run_thread (demo_os\<lparr>os_write := (\<lambda>fd w bs. (WFail, w))\<rparr>)
      (length (demo_rest (ext (sess_xfer DATA_SEND_FILE []))) div BUF_SIZE + 4) (sess_xfer DATA_SEND_FILE [])) =
    out (sess_xfer DATA_SEND_FILE []) @ [(226, ''Transfer complete.'')]"
proof (rule send_failure_unnoticed [where dl = "\<lambda>w. sent w"])
  show "file_law (demo_os\<lparr>os_write := (\<lambda>fd w bs. (WFail, w))\<rparr>) 7 ''pub/a.txt'' demo_rest sent"
    using demo_file_law by (simp add: file_law_def)
  show "\<forall>w bs. os_write (demo_os\<lparr>os_write := (\<lambda>fd w bs. (WFail, w))\<rparr>) 7 w bs = (WFail, w)"
    by simp
  show "transferring 7 ''pub/a.txt'' (demo_thr DATA_SEND_FILE) (sess_xfer DATA_SEND_FILE [])"
    by (rule demo_transferring)
  show "t_ty (demo_thr DATA_SEND_FILE) = DATA_SEND_FILE \<or> t_ty (demo_thr DATA_SEND_FILE) = DATA_SEND_PIPE"
    by (simp add: demo_thr_def)
qed

text \<open>An upload whose peer is silent: no \<open>read()\<close> of its connection returns.\<close>

definition silent_os :: "(world, string) os" where
  "silent_os = demo_os\<lparr>os_hangs := (\<lambda>c w. c = READ 7)\<rparr>"

definition sess_silent :: "(world, string) sess" where
  "sess_silent = sess_pasv\<lparr>cl := (cl sess_pasv)\<lparr>dat_fp := Some ''pub/a.txt''\<rparr>, thr := Some (demo_thr DATA_RECV_FILE)\<rparr>"

theorem stalled_transfer_unstoppable_witness:
  "\<exists>s'. thr_step silent_os sess_silent = Some s' \<and> thr_step silent_os s' = None \<and>
    process_command silent_os ''ABOR'' [] s' = None \<and> process_command silent_os ''QUIT'' [] s' = None \<and>
    client_close silent_os s' = None"
proof (rule stalled_transfer_unstoppable)
  show "transferring 7 ''pub/a.txt'' (demo_thr DATA_RECV_FILE) sess_silent"
    by (simp add: transferring_def demo_thr_def passive_init_def sess_silent_def sess_pasv_def)
  show "sess_inv sess_silent"
    by (simp add: sess_inv_def paths_ok_def login_ok_def sess_silent_def sess_pasv_def sess0_def
        client0_def canonical_root)
qed (simp_all add: sess_silent_def silent_os_def stalled_def demo_thr_def)

lemma demo_upload_law: "upload_law demo_os 7 ''pub/a.txt'' inbox (content ''pub/a.txt'')"
  by (auto simp: upload_law_def demo_os_def demo_read_def put_def content_def)

theorem receive_stores_witness:
  "\<exists>w s'. run_thread demo_os (length [Data ''ab'', Again, Data ''c''] + 4)
      (sess_xfer DATA_RECV_FILE [Data ''ab'', Again, Data ''c'', Data []]) = s' \<and>
    content ''pub/a.txt'' w = content ''pub/a.txt'' (ext (sess_xfer DATA_RECV_FILE [Data ''ab'', Again, Data ''c'', Data []])) @
      payload [Data ''ab'', Again, Data ''c''] \<and>
    out s' = out (sess_xfer DATA_RECV_FILE [Data ''ab'', Again, Data ''c'', Data []]) @ [(226, ''Transfer complete.'')] \<and>
    dat_fp (cl s') = None \<and> state (cl s') = CLST_READY \<and>
    ext s' = os_fclose demo_os ''pub/a.txt'' (os_close demo_os 7 (close_opt demo_os (t_sock (demo_thr DATA_RECV_FILE)) w))"
  by (rule receive_stores [OF demo_upload_law demo_transferring, where e = "Data []"])
     (simp_all add: demo_thr_def sess_xfer_def arrives_def)

end
