(* ===== verification/ListingText.thy ===== *)
theory ListingText
  imports ClientRun
begin

text \<open>
  The text of a directory listing: what \<open>ls -l\<close> prints (a line with a total and one line of nine
  words for each entry) and what the parser of \<open>list_3\<close> makes of it.
\<close>

section \<open>Listings\<close>

text \<open>A word of a line of \<open>ls -l\<close>, and an entry: nine words with one or more blanks between them.\<close>

definition word :: "string \<Rightarrow> bool" where
  "word w \<longleftrightarrow> w \<noteq> [] \<and> list_all (\<lambda>c. \<not> isspace c \<and> c \<noteq> NUL) w"

record ls_entry =
  ls_attr :: string
  ls_links :: string
  ls_owner :: string
  ls_group :: string
  ls_size :: nat
  ls_d1 :: string
  ls_d2 :: string
  ls_d3 :: string
  ls_name :: string
  ls_gap :: "nat \<Rightarrow> nat"

definition gap :: "ls_entry \<Rightarrow> nat \<Rightarrow> string" where
  "gap x i = replicate (Suc (ls_gap x i)) (CHR '' '')"

definition ls_line :: "ls_entry \<Rightarrow> string" where
  "ls_line x = ls_attr x @ gap x 1 @ ls_links x @ gap x 2 @ ls_owner x @ gap x 3 @ ls_group x @ gap x 4 @
     dec (ls_size x) @ gap x 5 @ ls_d1 x @ gap x 6 @ ls_d2 x @ gap x 7 @ ls_d3 x @ gap x 8 @ ls_name x"

definition ls_good :: "ls_entry \<Rightarrow> bool" where
  "ls_good x \<longleftrightarrow> list_all word [ls_attr x, ls_links x, ls_owner x, ls_group x, ls_d1 x, ls_d2 x, ls_d3 x, ls_name x] \<and>
     length (ls_attr x) \<le> 15 \<and> list_all (\<lambda>w. length w \<le> 7) [ls_d1 x, ls_d2 x, ls_d3 x] \<and>
     length (ls_name x) \<le> 63 \<and> ls_size x < 2 ^ 31"

definition ls_rec :: "ls_entry \<Rightarrow> file_rec" where
  "ls_rec x = \<lparr>is_dir = (if hd (ls_attr x) = CHR ''d'' then 1 else 0), fr_name = ls_name x,
     fr_size = int (ls_size x), fr_date = ls_d1 x @ '' '' @ ls_d2 x @ '' '' @ ls_d3 x\<rparr>"

definition ends_word :: "string \<Rightarrow> bool" where
  "ends_word r \<longleftrightarrow> r = [] \<or> isspace (hd r)"

lemma skip_gap: "skip_space (gap x i @ t) = skip_space t"
proof -
  have "dropWhile isspace (replicate n (CHR '' '') @ t) = dropWhile isspace t" for n
    by (induction n) (simp_all add: isspace_def)
  then show ?thesis unfolding skip_space_def gap_def by (rule allI [THEN spec])
qed

lemma skip_blank: "skip_space (CHR '' '' # t) = skip_space t"
  by (simp add: skip_space_def isspace_def)

lemma ends_gap [simp]: "ends_word (gap x i @ t)" "ends_word []"
  by (simp_all add: ends_word_def gap_def isspace_def)

lemma word_split:
  assumes "word w" and "ends_word r"
  shows "takeWhile (\<lambda>c. \<not> isspace c) (w @ r) = w" and "skip_space (w @ r) = w @ r"
proof -
  show "takeWhile (\<lambda>c. \<not> isspace c) (w @ r) = w"
    using assms by (cases r) (auto simp: word_def ends_word_def list_all_iff takeWhile_append)
  show "skip_space (w @ r) = w @ r"
    using assms(1) by (cases w) (auto simp: word_def skip_space_def)
qed

lemma scan_word:
  assumes "word w" and "ends_word r"
  shows "length w \<le> n \<Longrightarrow> scan_s n (w @ r) = Some (w, r)" and "length w \<le> n \<Longrightarrow> scan_s n (gap x i @ w @ r) = Some (w, r)"
    and "skip_s (w @ r) = Some r" and "skip_s (gap x i @ w @ r) = Some r"
  using word_split [OF assms] assms(1)
  by (auto simp: scan_s_def skip_s_def Let_def skip_gap word_def intro: Nat.gr0I)

lemma scan_size:
  assumes "n < 2 ^ 31" and "ends_word r"
  shows "scan_d (gap x i @ dec n @ r) = Some (int n, r)"
proof -
  have "r = [] \<or> \<not> isdigit (hd r)"
    using assms(2) by (auto simp: ends_word_def isdigit_def isspace_def less_eq_char_def)
  then have "scan_d (dec n @ r) = Some (int n, r)" using scan_d_dec assms(1) by blast
  moreover have "scan_number (gap x i @ dec n @ r) = scan_number (dec n @ r)"
    by (simp only: scan_number_def skip_gap)
  ultimately show ?thesis by (simp add: scan_d_def)
qed

lemma scan_ls_line:
  assumes "ls_good x"
  shows "scan_entry (ls_line x) = Some (ls_attr x, int (ls_size x), ls_d1 x, ls_d2 x, ls_d3 x, ls_name x)"
    and "entry_rec (ls_attr x, int (ls_size x), ls_d1 x, ls_d2 x, ls_d3 x, ls_name x) = ls_rec x"
proof -
  have w: "word (ls_attr x)" "word (ls_links x)" "word (ls_owner x)" "word (ls_group x)" "word (ls_d1 x)"
    "word (ls_d2 x)" "word (ls_d3 x)" "word (ls_name x)" "length (ls_attr x) \<le> 15" "length (ls_d1 x) \<le> 7"
    "length (ls_d2 x) \<le> 7" "length (ls_d3 x) \<le> 7" "length (ls_name x) \<le> 63" "ls_size x < 2 ^ 31"
    using assms by (simp_all add: ls_good_def)
  have last: "scan_s 63 (gap x 8 @ ls_name x) = Some (ls_name x, [])"
    using scan_word(2) [OF w(8), of "[]"] w(13) by simp
  show "scan_entry (ls_line x) = Some (ls_attr x, int (ls_size x), ls_d1 x, ls_d2 x, ls_d3 x, ls_name x)"
    by (simp add: scan_entry_def ls_line_def scan_word w(1-13) scan_size [OF w(14)] last)
  show "entry_rec (ls_attr x, int (ls_size x), ls_d1 x, ls_d2 x, ls_d3 x, ls_name x) = ls_rec x"
    using w(10-12) by (simp add: entry_rec_def ls_rec_def snprintf_id)
qed

lemma no_break:
  "word w \<Longrightarrow> LF \<notin> set w \<and> NUL \<notin> set w" "LF \<notin> set (dec n) \<and> NUL \<notin> set (dec n)"
  "LF \<notin> set (gap x i) \<and> NUL \<notin> set (gap x i)"
proof -
  have "isspace LF" by (simp add: isspace_def less_eq_char_def)
  then show "word w \<Longrightarrow> LF \<notin> set w \<and> NUL \<notin> set w" by (auto simp: word_def list_all_iff)
  have "\<not> isdigit LF" "\<not> isdigit NUL" by (simp_all add: isdigit_def less_eq_char_def)
  then show "LF \<notin> set (dec n) \<and> NUL \<notin> set (dec n)" by (auto dest: dec_digits_only)
qed (simp add: gap_def)

lemma ls_line_chars: "ls_good x \<Longrightarrow> LF \<notin> set (ls_line x) \<and> NUL \<notin> set (ls_line x)"
  by (simp add: ls_line_def ls_good_def no_break)

lemma to_lf_line: "LF \<notin> set l \<Longrightarrow> to_lf (map Some l @ Some LF # m) = Inr (l, m)"
  by (induction l) (auto simp: bind_res_def)

lemma list_entries_step:
  assumes "l \<noteq> []" and "LF \<notin> set l" and "NUL \<notin> set l"
  shows "list_entries n recs (map Some l @ Some LF # m) =
    (case scan_entry l of
       None \<Rightarrow> list_entries n recs m
     | Some x \<Rightarrow> if length recs < n then list_entries n (recs @ [entry_rec x]) m else Inl OVERRUN)"
proof -
  obtain c cs where l: "l = c # cs" using assms(1) by (cases l) auto
  have "to_lf (map Some l @ Some LF # m) = Inr (l, m)" using assms(2) by (rule to_lf_line)
  with assms l cstr_id [of l] show ?thesis by (subst list_entries.simps) (auto split: option.splits)
qed

definition ls_text :: "ls_entry list \<Rightarrow> string" where
  "ls_text xs = concat (map (\<lambda>x. ls_line x @ [LF]) xs)"

lemma list_entries_ls:
  "list_all ls_good xs \<Longrightarrow> length recs + length xs \<le> n \<Longrightarrow>
     list_entries n recs (map Some (ls_text xs) @ Some NUL # m) = Inr (recs @ map ls_rec xs)"
proof (induction xs arbitrary: recs)
  case Nil
  then show ?case by (simp add: ls_text_def list_entries.simps)
next
  case (Cons x xs)
  have g: "ls_good x" using Cons.prems by simp
  have "ls_line x \<noteq> []" using g by (simp add: ls_line_def ls_good_def word_def)
  moreover have "map Some (ls_text (x # xs)) @ Some NUL # m =
      map Some (ls_line x) @ Some LF # map Some (ls_text xs) @ Some NUL # m"
    by (simp add: ls_text_def)
  ultimately show ?case
    using list_entries_step [of "ls_line x" n recs] ls_line_chars [OF g] scan_ls_line [OF g]
      Cons.IH [of "recs @ [ls_rec x]"] Cons.prems by simp
qed

text \<open>What \<open>ls -l\<close> prints for a directory.\<close>

definition ls_output :: "string \<Rightarrow> ls_entry list \<Rightarrow> string" where
  "ls_output tot xs = ''total '' @ tot @ [LF] @ ls_text xs"

lemma count_lf: "list_all ls_good xs \<Longrightarrow> length (filter (\<lambda>c. c = LF) (ls_text xs)) = length xs"
  using ls_line_chars by (induction xs) (auto simp: ls_text_def filter_empty_conv)

lemma listing_recs_ls:
  assumes "list_all ls_good xs" and "word tot"
  shows "listing_recs d (map Some (ls_output tot xs) @ Some NUL # m) =
    Inr ((if d \<noteq> ''/'' then [parent_rec] else []) @ map ls_rec xs)"
proof -
  let ?l = "''total '' @ tot"
  let ?p = "if d \<noteq> ''/'' then [parent_rec] else []"
  have t: "LF \<notin> set tot" "NUL \<notin> set tot" using no_break(1) [OF assms(2)] by auto
  have "NUL \<notin> set (ls_text xs)"
    using assms(1) ls_line_chars by (induction xs) (auto simp: ls_text_def)
  with t have "NUL \<notin> set (ls_output tot xs)" by (simp add: ls_output_def)
  then have ld: "load_str (map Some (ls_output tot xs) @ Some NUL # m) = Inr (ls_output tot xs)"
    by (rule load_str_map)
  have "filter (\<lambda>c. c = LF) tot = []" using t(1) by (auto simp: filter_empty_conv)
  then have n: "length (filter (\<lambda>c. c = LF) (ls_output tot xs)) = Suc (length xs)"
    using count_lf [OF assms(1)] by (simp add: ls_output_def)
  have tw: "word ''total''" by (simp add: word_def isspace_def less_eq_char_def)
  have sp: "ends_word (CHR '' '' # tot)" by (simp add: ends_word_def isspace_def)
  have "scan_s 15 (''total'' @ CHR '' '' # tot) = Some (''total'', CHR '' '' # tot)"
    by (rule scan_word(1) [OF tw sp]) simp
  moreover have "skip_s (CHR '' '' # tot) = Some []"
    using scan_word(3) [OF assms(2), of "[]"] by (simp add: skip_s_def skip_blank)
  ultimately have none: "scan_entry ?l = None" by (simp add: scan_entry_def) (simp add: skip_s_def skip_space_def)
  have "list_entries k recs (map Some ?l @ Some LF # map Some (ls_text xs) @ Some NUL # m) =
      list_entries k recs (map Some (ls_text xs) @ Some NUL # m)" for k recs
    by (subst list_entries_step) (use t none in \<open>auto\<close>)
  moreover have "map Some (ls_output tot xs) @ Some NUL # m = map Some ?l @ Some LF # map Some (ls_text xs) @ Some NUL # m"
    by (simp add: ls_output_def)
  moreover have "list_entries (1 + Suc (length xs)) ?p (map Some (ls_text xs) @ Some NUL # m) = Inr (?p @ map ls_rec xs)"
    by (rule list_entries_ls [OF assms(1)]) simp
  ultimately have "list_entries (1 + Suc (length xs)) ?p (map Some (ls_output tot xs) @ Some NUL # m) =
      Inr (?p @ map ls_rec xs)" by (simp only:)
  then show ?thesis unfolding listing_recs_def ld bind_res_simps n .
qed

end
