(* ===== verification/ClientOrder.thy ===== *)
theory ClientOrder
  imports ClientRun
begin

text \<open>
  The order in which the client sends its commands. A command is known by its verb; what a
  conversation has sent last is known from the callback that is due, and that is the invariant.
\<close>

section \<open>Verbs in order\<close>

definition verb_of :: "string \<Rightarrow> string" where
  "verb_of t = takeWhile (\<lambda>c. c \<noteq> CHR '' '' \<and> c \<noteq> CR) t"

definition verbs :: "app \<Rightarrow> string list" where
  "verbs s = map verb_of (lines_sent s)"

definition last_verb :: "app \<Rightarrow> string" where
  "last_verb s = last ([] # verbs s)"

definition outside :: "string \<Rightarrow> bool" where
  "outside v \<longleftrightarrow> v \<in> {'''', ''QUIT'', ''USER'', ''PASS''}"

definition may_follow :: "string \<Rightarrow> string \<Rightarrow> bool" where
  "may_follow p v =
     (if v = ''USER'' then outside p
      else if v = ''PASS'' then p = ''USER''
      else if v = ''TYPE'' then p = ''PASS''
      else if v = ''SYST'' then p = ''TYPE''
      else if v = ''RNTO'' then p = ''RNFR''
      else if v \<in> {''LIST'', ''RETR'', ''STOR''} then p \<in> {''PASV'', ''PORT''}
      else v \<in> {''PWD'', ''PASV'', ''PORT'', ''CWD'', ''RNFR'', ''MKD'', ''RMD'', ''DELE'', ''QUIT''} \<and>
        \<not> outside p)"

fun in_order :: "string \<Rightarrow> string list \<Rightarrow> bool" where
  "in_order p [] = True"
| "in_order p (v # vs) = (may_follow p v \<and> in_order v vs)"

lemma in_order_snoc [simp]:
  "in_order p (vs @ [v]) \<longleftrightarrow> in_order p vs \<and> may_follow (last (p # vs)) v"
  by (induction vs arbitrary: p) auto

definition follows_ok :: "thread \<Rightarrow> string \<Rightarrow> bool" where
  "follows_ok t p =
     (case t of
        ReadMark (Some K_auth_1) \<Rightarrow> outside p
      | ReadMark (Some K_auth_2) \<Rightarrow> p = ''USER''
      | ReadMark (Some K_auth_3) \<Rightarrow> p = ''PASS''
      | ReadMark (Some K_sys_1) \<Rightarrow> p = ''TYPE''
      | ReadMark (Some K_rename_1) \<Rightarrow> p = ''RNFR''
      | ReadMark (Some K_data_pasv_1) \<Rightarrow> p = ''PASV''
      | ReadMark (Some K_data_port_1) \<Rightarrow> p = ''PORT''
      | ReadMark (Some K_disconn_1) \<Rightarrow> p = ''QUIT''
      | Connecting K_connection_setup \<Rightarrow> outside p
      | _ \<Rightarrow> \<not> outside p)"

definition order_inv :: "app \<Rightarrow> bool" where
  "order_inv s \<longleftrightarrow> in_order [] (verbs s) \<and> list_all (\<lambda>t. follows_ok t (last_verb s)) (talking s) \<and>
     (\<not> loading_now s \<longrightarrow> (connected s \<longleftrightarrow> \<not> outside (last_verb s)))"

lemma last_verb_eq: "last_verb s = (if verbs s = [] then [] else last (verbs s))"
  by (simp add: last_verb_def)

lemmas order_defs = order_inv_def verbs_def last_verb_eq talking_def follows_ok_def may_follow_def outside_def
  verb_of_def CRLF_def due_def thread_ok_def login_thread_def data_thread_def

lemma verbs_same [simp]:
  "verbs (act a s) = verbs s @ map verb_of (send_of a)"
  "verbs (loading s) = verbs s" "verbs (done_loading s) = verbs s"
  "verbs (status t s) = verbs s" "verbs (statusf t s) = verbs s"
  "verbs (instant_statusf t s) = verbs s" "verbs (start_thread th s) = verbs s"
  "verbs (read_mark k s) = verbs s" "verbs (send_x t s) = verbs s @ [verb_of t]"
  "verbs (ask t j s) = verbs s @ [verb_of (t @ CRLF)]"
  "verbs (s\<lparr>threads := ts\<rparr>) = verbs s" "verbs (s\<lparr>connected := c\<rparr>) = verbs s"
  "verbs (s\<lparr>box_conn := b\<rparr>) = verbs s" "verbs (s\<lparr>cwd := d\<rparr>) = verbs s"
  "verbs (s\<lparr>flist := l\<rparr>) = verbs s" "verbs (s\<lparr>passive_mode := pm\<rparr>) = verbs s"
  "verbs (s\<lparr>conn_text := u\<rparr>) = verbs s" "verbs (s\<lparr>mode_text := u\<rparr>) = verbs s"
  by (simp_all add: verbs_def)

text \<open>How a handler ends: with a question, or with the conversation over.\<close>

lemma order_ask:
  assumes "in_order [] (verbs s)" and "talking s = []" and "loading_now s"
    and "may_follow (last_verb s) (verb_of (t @ CRLF))"
    and "follows_ok (ReadMark (Some k)) (verb_of (t @ CRLF))"
  shows "order_inv (ask t k s)"
  using assms by (simp add: order_inv_def last_verb_eq talking_def split: if_splits)

lemma order_over:
  "in_order [] (verbs s) \<Longrightarrow> talking s = [] \<Longrightarrow> (connected s \<longleftrightarrow> \<not> outside (last_verb s)) \<Longrightarrow>
     order_inv (status t (done_loading s)) \<and> order_inv (statusf t (done_loading s))"
  by (simp add: order_inv_def last_verb_eq talking_def)

lemma order_do_list:
  "in_order [] (verbs s) \<Longrightarrow> talking s = [] \<Longrightarrow> \<not> outside (last_verb s) \<Longrightarrow> order_inv (do_list s)"
  unfolding do_list_def
  by (rule order_ask)
     (simp_all add: talking_def last_verb_eq may_follow_def follows_ok_def outside_def verb_of_def CRLF_def
        split: if_splits)

section \<open>Every handler keeps the order\<close>

text \<open>When the callback of a thread is called.\<close>

definition ready :: "thread \<Rightarrow> app \<Rightarrow> bool" where
  "ready t s \<longleftrightarrow> due t s \<and> in_order [] (verbs s) \<and> follows_ok t (last_verb s)"

text \<open>Between two questions of a conversation of a client that is logged in.\<close>

definition calm :: "app \<Rightarrow> bool" where
  "calm s \<longleftrightarrow> talking s = [] \<and> in_order [] (verbs s) \<and> connected s \<and> \<not> outside (last_verb s)"

lemma verbs_more [simp]:
  "verbs (s\<lparr>data_fd := a, data_inter := b, data_next := k\<rparr>) = verbs s"
  by (simp_all add: verbs_def lines_sent_def)

lemma calm_quiet [simp]:
  "calm (status t s) = calm s" "calm (statusf t s) = calm s" "calm (loading s) = calm s"
  "calm (done_loading s) = calm s"
  by (simp_all add: calm_def talking_def last_verb_eq)

lemma last_verb_quiet [simp]:
  "last_verb (act a s) = (if send_of a = [] then last_verb s else last (map verb_of (send_of a)))"
  "last_verb (loading s) = last_verb s" "last_verb (done_loading s) = last_verb s"
  "last_verb (status t s) = last_verb s" "last_verb (statusf t s) = last_verb s"
  "last_verb (start_thread th s) = last_verb s" "last_verb (read_mark k s) = last_verb s"
  "last_verb (send_x u s) = verb_of u" "last_verb (ask u j s) = verb_of (u @ CRLF)"
  "last_verb (s\<lparr>data_fd := x, data_inter := y, data_next := z\<rparr>) = last_verb s"
  by (auto simp: last_verb_eq)

lemma calm_upd [simp]:
  "calm (s\<lparr>data_fd := x, data_inter := y, data_next := z\<rparr>) = calm s"
  "send_of a = [] \<Longrightarrow> calm (act a s) = calm s"
  by (auto simp: calm_def)

lemma calm_over: "calm s \<Longrightarrow> order_inv (status t (done_loading s))" "calm s \<Longrightarrow> order_inv (statusf t (done_loading s))"
  using order_over by (auto simp: calm_def)

lemma calm_list: "calm s \<Longrightarrow> order_inv (do_list s)"
  using order_do_list by (auto simp: calm_def)

lemma calm_ask:
  assumes "calm s" and "loading_now s"
    and "follows_ok (ReadMark (Some k)) (verb_of (t @ CRLF))"
    and "verb_of (t @ CRLF) \<in> {''PWD'', ''PASV'', ''PORT'', ''CWD'', ''RNFR'', ''MKD'', ''RMD'', ''DELE'', ''QUIT''}"
  shows "order_inv (ask t k s)"
  using assms by (intro order_ask) (auto simp: calm_def may_follow_def)

lemmas verb_simps = verb_of_def CRLF_def follows_ok_def outside_def

lemma port_line: "verb_of (snprintf 64 (''PORT '' @ x)) = ''PORT''"
  by (simp add: verb_of_def snprintf_def)

lemma order_do_data:
  assumes "calm s"
  shows "order_inv (do_data e fd i k s)"
proof (cases "passive_mode s")
  case True
  have "order_inv (ask ''PASV'' K_data_pasv_1 (status u ((loading s)\<lparr>data_fd := fd, data_inter := Some i, data_next := k\<rparr>)))" for u
    using assms by (intro calm_ask) (simp_all add: verb_simps)
  with True show ?thesis by (simp add: do_data_def Let_def)
next
  case False
  show ?thesis
  proof (cases "env_listen e")
    case None
    have "order_inv (status v (done_loading (status u ((loading s)\<lparr>data_fd := fd, data_inter := Some i, data_next := k\<rparr>))))" for u v
      using assms by (intro calm_over) simp
    with False None show ?thesis by (simp add: do_data_def Let_def)
  next
    case (Some a)
    with False assms show ?thesis
      by (simp add: do_data_def Let_def port_line [simplified] order_inv_def calm_def may_follow_def follows_ok_def outside_def
          last_verb_def [symmetric] del: last.simps)
  qed
qed

lemma order_data_2:
  assumes "calm s" and "loading_now s"
  shows "order_inv (data_2 c s)" and "connected (data_2 c s)" and "verbs (data_2 c s) = verbs s"
    and "\<forall>t \<in> set (talking (data_2 c s)). \<exists>k. t = Gathering k \<or> t = Streaming k"
  using assms by (auto simp: data_2_def Let_def calm_def order_inv_def follows_ok_def)

lemma order_start_data:
  assumes "calm s" and "loading_now s" and "send_of a = []"
  shows "order_inv (start_data e a s)" and "connected (start_data e a s)"
    and "verbs (start_data e a s) = verbs s"
    and "\<forall>t \<in> set (talking (start_data e a s)). t = Connecting K_data_2 \<or> (\<exists>k. t = Gathering k \<or> t = Streaming k)"
proof -
  have c: "calm (act a s)" using assms by simp
  show "order_inv (start_data e a s)" "connected (start_data e a s)" "verbs (start_data e a s) = verbs s"
    "\<forall>t \<in> set (talking (start_data e a s)). t = Connecting K_data_2 \<or> (\<exists>k. t = Gathering k \<or> t = Streaming k)"
    using order_data_2 [OF c] assms
    by (auto simp: start_data_def calm_def order_inv_def follows_ok_def split: option.split)
qed

lemma verbs_inter: "verbs (call_inter s) = verbs s \<or> (\<exists>v. verbs (call_inter s) = verbs s @ [v] \<and> v \<in> {''LIST'', ''RETR'', ''STOR''})"
  by (auto simp: call_inter_def run_inter_def verb_of_def CRLF_def split: option.split inter.split)

lemma inter_sel [simp]:
  "talking (call_inter s) = talking s" "connected (call_inter s) = connected s"
  "loading_now (call_inter s) = loading_now s"
  by (auto simp: call_inter_def talking_def split: option.split)

lemma order_call_inter:
  assumes "order_inv s" and "connected s" and "last_verb s \<in> {''PASV'', ''PORT''}"
    and "\<forall>t \<in> set (talking s). t = Connecting K_data_2 \<or> (\<exists>k. t = Gathering k \<or> t = Streaming k)"
  shows "order_inv (call_inter s)"
proof -
  have "in_order [] (verbs (call_inter s)) \<and> \<not> outside (last_verb (call_inter s))"
    using assms(1,3) verbs_inter [of s]
    by (auto simp: order_inv_def last_verb_eq may_follow_def outside_def split: if_splits)
  then show ?thesis using assms(2,4) by (auto simp: order_inv_def list_all_iff follows_ok_def)
qed

lemma calm_call_inter:
  assumes "calm s" and "last_verb s \<in> {''PASV'', ''PORT''}"
  shows "calm (call_inter s)"
  using assms verbs_inter [of s]
  by (auto simp: calm_def last_verb_eq may_follow_def outside_def split: if_splits)

lemma upd_quiet [simp]:
  "last_verb (s\<lparr>box_conn := b\<rparr>) = last_verb s" "last_verb (s\<lparr>connected := c\<rparr>) = last_verb s"
  "last_verb (s\<lparr>flist := l\<rparr>) = last_verb s" "last_verb (s\<lparr>cwd := d\<rparr>) = last_verb s"
  "last_verb (s\<lparr>conn_text := u\<rparr>) = last_verb s"
  "verbs (s\<lparr>connected := c, box_conn := b\<rparr>) = verbs s"
  "verbs (s\<lparr>connected := c, box_conn := b, conn_text := u\<rparr>) = verbs s"
  "verbs (s\<lparr>connected := c, conn_text := u\<rparr>) = verbs s" "last_verb (s\<lparr>connected := c, conn_text := u\<rparr>) = last_verb s"
  "verbs (s\<lparr>passive_mode := p, mode_text := u\<rparr>) = verbs s"
  by (simp_all add: last_verb_eq verbs_def)

lemma in_order_verbs: "in_order [] (verbs s @ [v]) \<longleftrightarrow> in_order [] (verbs s) \<and> may_follow (last_verb s) v"
  by (simp add: last_verb_def)

lemma readyD:
  assumes "ready t s"
  shows "talking s = []" and "loading_now s" and "in_order [] (verbs s)" and "follows_ok t (last_verb s)"
    and "connected s \<longleftrightarrow> \<not> login_thread t"
  using assms by (auto simp: ready_def due_def thread_ok_def)

lemma ready_calm: "ready t s \<Longrightarrow> \<not> login_thread t \<Longrightarrow> \<not> outside (last_verb s) \<Longrightarrow> calm s"
  using readyD by (auto simp: calm_def)

lemma ready_calm_mark:
  assumes "ready (ReadMark (Some k)) s" and "k \<notin> {K_auth_1, K_auth_2, K_auth_3, K_disconn_1}"
  shows "calm s" and "loading_now s"
  using readyD [OF assms(1)] assms(2)
  by (cases k; simp add: calm_def login_thread_def follows_ok_def outside_def)+

lemma order_data_pasv_1:
  assumes "ready (ReadMark (Some K_data_pasv_1)) s"
  shows "order_inv (data_pasv_1 e c t s)"
proof -
  have c: "calm s" "loading_now s" "last_verb s = ''PASV''"
    using ready_calm_mark [OF assms] readyD [OF assms] by (auto simp: follows_ok_def)
  have "order_inv (call_inter (start_data e (InitY h p) (statusf u s)))" for h p u
  proof (rule order_call_inter)
    note st = order_start_data [of "statusf u s" "InitY h p" e]
    show "order_inv (start_data e (InitY h p) (statusf u s))" "connected (start_data e (InitY h p) (statusf u s))"
      "\<forall>t\<in>set (talking (start_data e (InitY h p) (statusf u s))). t = Connecting K_data_2 \<or> (\<exists>k. t = Gathering k \<or> t = Streaming k)"
      using st c by simp_all
    have "last_verb (start_data e (InitY h p) (statusf u s)) = last_verb s"
      using st(3) c by (simp add: last_verb_def)
    then show "last_verb (start_data e (InitY h p) (statusf u s)) \<in> {''PASV'', ''PORT''}" using c by simp
  qed
  with c show ?thesis by (auto simp: data_pasv_1_def Let_def calm_over split: option.split)
qed

lemma order_data_port_1:
  assumes "ready (ReadMark (Some K_data_port_1)) s"
  shows "order_inv (data_port_1 e c t s)"
proof -
  have c: "calm s" "loading_now s" "last_verb s = ''PORT''"
    using ready_calm_mark [OF assms] readyD [OF assms] by (auto simp: follows_ok_def)
  then show ?thesis
    using order_start_data(1) [of "statusf u (call_inter s)" ListenY e for u] calm_call_inter [OF c(1)]
    by (simp add: data_port_1_def calm_over)
qed

lemma order_list_1:
  assumes "ready (ReadMark (Some K_list_1)) s" and "list_1 e c t s = Inr s'"
  shows "order_inv s'"
proof -
  have c: "calm s" "loading_now s" using ready_calm_mark [OF assms(1)] by auto
  have u: "calm (x\<lparr>cwd := d\<rparr>) = calm x" for x d by (simp add: calm_def talking_def last_verb_eq)
  show ?thesis
    using assms(2) c u by (auto simp: list_1_def bind_res_eq_Inr calm_over order_do_data split: if_splits option.splits)
qed

lemma order_disconn_1:
  assumes "ready (ReadMark (Some K_disconn_1)) s"
  shows "order_inv (disconn_1 c t s)"
  using readyD [OF assms]
  by (simp add: disconn_1_def Let_def order_inv_def follows_ok_def outside_def)

lemma order_on_mark:
  assumes "ready (ReadMark (Some k)) s" and "on_mark e k c t s = Inr s'" and "\<not> (k = K_stor_3 \<and> c \<noteq> 226)"
  shows "order_inv s'"
proof -
  note r = readyD [OF assms(1)] and m = ready_calm_mark [OF assms(1)]
  have ask: "order_inv (ask u j (status v s))" "order_inv (ask u j s)"
    if "may_follow (last_verb s) (verb_of (u @ CRLF))" "follows_ok (ReadMark (Some j)) (verb_of (u @ CRLF))" for u v j
    using r that by (auto intro!: order_ask)
  show ?thesis
  proof (cases k)
    case K_data_pasv_1
    with assms order_data_pasv_1 show ?thesis by (auto simp: on_mark_def)
  next
    case K_data_port_1
    with assms order_data_port_1 show ?thesis by (auto simp: on_mark_def)
  next
    case K_list_1
    with assms order_list_1 show ?thesis by (simp add: on_mark_def)
  next
    case K_sys_1
    with assms(2) m calm_over ask [of "''SYST''" K_sys_2] r show ?thesis
      by (auto simp: on_mark_def sys_1_def may_follow_def verb_simps split: if_splits)
  next
    case K_sys_2
    with assms(2) m calm_over calm_list show ?thesis by (auto simp: on_mark_def sys_2_def split: if_splits)
  next
    case K_cwd_1
    with assms(2) m calm_over calm_list show ?thesis by (auto simp: on_mark_def cwd_1_def split: if_splits)
  next
    case K_rename_1
    with assms(2) m calm_over ask [of "''RNTO '' @ rename_to s" K_rename_2] r show ?thesis
      by (auto simp: on_mark_def rename_1_def may_follow_def verb_simps split: if_splits)
  next
    case K_rename_2
    with assms(2) m calm_over calm_list show ?thesis by (auto simp: on_mark_def rename_2_def split: if_splits)
  next
    case K_mkd_1
    with assms(2) m calm_over calm_list show ?thesis by (auto simp: on_mark_def mkd_1_def Let_def split: if_splits)
  next
    case K_rm_1
    with assms(2) m calm_over calm_list show ?thesis by (auto simp: on_mark_def rm_1_def Let_def split: if_splits)
  next
    case K_stor_3
    with assms m calm_list show ?thesis by (auto simp: on_mark_def stor_3_def)
  next
    case K_auth_1
    with assms(2) ask(1) [of "''USER '' @ env_user e" K_auth_2] r show ?thesis
      by (auto simp: on_mark_def auth_1_def enable_conn_def may_follow_def verb_simps order_inv_def login_thread_def split: if_splits)
  next
    case K_auth_2
    with assms(2) ask(2) [of "''PASS '' @ env_pass e" K_auth_3] r show ?thesis
      by (auto simp: on_mark_def auth_2_def enable_conn_def may_follow_def verb_simps order_inv_def login_thread_def split: if_splits)
  next
    case K_auth_3
    with assms(2) r show ?thesis
      by (auto simp: on_mark_def auth_3_def Let_def do_sys_setup_def enable_conn_def may_follow_def verb_simps
          order_inv_def login_thread_def in_order_verbs simp del: in_order_snoc split: if_splits)
  next
    case K_disconn_1
    with assms order_disconn_1 show ?thesis by (auto simp: on_mark_def)
  qed
qed


lemma order_on_connected:
  assumes "ready (Connecting k) s"
  shows "order_inv (on_connected k c s)"
proof (cases k)
  case K_connection_setup
  with readyD [OF assms] show ?thesis
    by (auto simp: on_connected_def connection_setup_def do_auth_def enable_conn_def order_inv_def follows_ok_def
        login_thread_def)
next
  case K_data_2
  with readyD [OF assms] have "calm s" by (auto simp: calm_def follows_ok_def login_thread_def)
  with K_data_2 readyD [OF assms] order_data_2(1) show ?thesis by (simp add: on_connected_def)
qed

lemma order_list_3:
  assumes "ready (Gathering K_list_3) s" and "list_3 e m s = Inr s'"
  shows "order_inv s'"
proof -
  have "calm s" using readyD [OF assms(1)] by (auto simp: calm_def follows_ok_def login_thread_def)
  with assms(2) show ?thesis
    by (auto simp: list_3_def Let_def bind_res_eq_Inr order_inv_def calm_def split: option.splits)
qed

lemma order_moved:
  "ready (Streaming K_retr_2) s \<Longrightarrow> order_inv (retr_2 (-1) s)"
  "ready (Streaming K_stor_2) s \<Longrightarrow> order_inv (stor_2 (-1) s)"
  using readyD [of "Streaming K_retr_2" s] readyD [of "Streaming K_stor_2" s]
  by (auto simp: retr_2_def stor_2_def order_inv_def follows_ok_def login_thread_def)

lemma order_inv_same:
  assumes "threads s' = threads s" and "loading_now s' = loading_now s" and "connected s' = connected s"
    and "lines_sent s' = lines_sent s"
  shows "order_inv s' = order_inv s"
  by (simp only: order_inv_def talking_def verbs_def last_verb_def assms)

lemma order_progress:
  assumes "order_inv s" and "len \<noteq> -1"
  shows "order_inv (retr_2 len s)" and "order_inv (stor_2 len s)"
  using order_inv_same [of "retr_2 len s" s] order_inv_same [of "stor_2 len s" s] assms
  by (simp_all add: retr_2_def stor_2_def)

lemma calm_idle: "idle s \<Longrightarrow> order_inv s \<Longrightarrow> connected s \<Longrightarrow> calm s"
  by (auto simp: idle_def order_inv_def calm_def)

lemma calm_names [simp]:
  "calm (s\<lparr>rename_from := a, rename_to := b\<rparr>) = calm s"
  "calm (s\<lparr>retr_name := a, retr_size := z, retr_size_str := b, retr_out_fd := fd\<rparr>) = calm s"
  "calm (s\<lparr>stor_name := a, stor_size := z, stor_size_str := b, stor_in_fd := fd\<rparr>) = calm s"
  by (simp_all add: calm_def talking_def last_verb_eq verbs_def lines_sent_def)

lemma order_do_request:
  assumes "calm s" and "order_inv s" and "do_request e r s = Some (Inr s')"
  shows "order_inv s'"
proof (cases r)
  case (Download f)
  have "order_inv (do_cwd nm s)" for nm
    using assms unfolding do_cwd_def by (intro calm_ask) (simp_all add: verb_simps)
  moreover have "order_inv (do_retr e nm sz s)" for nm sz
    using assms by (cases "env_open e") (simp_all add: do_retr_def Let_def calm_over order_do_data)
  ultimately show ?thesis
    using Download assms(2,3) by (auto simp: do_request_def file_list_download_def split: if_splits option.splits)
next
  case Upload
  have "order_inv (do_stor e nm s)" for nm
    using assms by (cases "env_open e") (simp_all add: do_stor_def Let_def calm_over order_do_data)
  then show ?thesis
    using Upload assms(2,3) by (auto simp: do_request_def file_list_upload_def bind_res_eq_Inr split: option.splits)
next
  case (Rename a b)
  have "order_inv (do_rename a b s)"
    using assms unfolding do_rename_def by (intro calm_ask) (simp_all add: verb_simps)
  with Rename assms(3) show ?thesis by (simp add: do_request_def)
next
  case (Mkdir nm)
  have "order_inv (do_mkd nm s)"
    using assms unfolding do_mkd_def by (intro calm_ask) (simp_all add: verb_simps)
  with Mkdir assms(3) show ?thesis by (simp add: do_request_def)
next
  case (Delete d nm)
  have "order_inv (do_rm d nm s)"
    using assms unfolding do_rm_def by (intro calm_ask) (simp_all add: verb_simps)
  with Delete assms(3) show ?thesis by (simp add: do_request_def)
next
  case Nothing
  with assms show ?thesis by (simp add: do_request_def)
qed

lemma order_btnConnClick:
  assumes "idle s" and "order_inv s"
  shows "order_inv (btnConnClick e s)"
proof (cases "connected s")
  case True
  then have "calm s" using calm_idle assms by simp
  then have "order_inv (ask ''QUIT'' K_disconn_1 (status ''Disconnecting'' (loading s)))"
    by (intro calm_ask) (simp_all add: verb_simps)
  with True show ?thesis by (simp add: btnConnClick_def)
next
  case False
  with assms show ?thesis
    by (auto simp: btnConnClick_def Let_def connection_setup_def do_auth_def enable_conn_def idle_def
        order_inv_def follows_ok_def split: option.split)
qed

section \<open>Every event keeps the order\<close>

lemma ready_taken:
  assumes "ui_inv s" and "order_inv s" and "take_thread t s = Some s1" and "t \<noteq> ReadMark None"
  shows "ready t s1"
proof -
  note t = take_threadD [OF assms(3)]
  have "t \<in> set (talking s)" using t(1) assms(4) by (simp add: talking_def)
  then have "follows_ok t (last_verb s)" "in_order [] (verbs s)"
    using assms(2) by (auto simp: order_inv_def list_all_iff)
  moreover have "verbs s1 = verbs s" "last_verb s1 = last_verb s" using t(2) by (simp_all add: last_verb_def)
  ultimately show ?thesis using due_taken [OF assms(1,3,4)] by (simp add: ready_def)
qed

lemma order_drained:
  assumes "order_inv s" and "take_thread (ReadMark None) s = Some s1"
  shows "order_inv s1"
proof -
  note t = take_threadD [OF assms(2)]
  have "talking s1 = talking s"
    using t(2) talking_remove [of "ReadMark None" s] by (simp add: talking_def remove1_idem)
  with assms(1) t(2) show ?thesis by (simp add: order_inv_def last_verb_def)
qed

lemma order_event:
  assumes "ui_inv s" and "order_inv s" and event: "env_ok e" "client_event e ev s = Some (Inr s')"
    and "\<not> refused_upload ev"
  shows "order_inv s'"
proof (cases ev)
  case Click_conn
  with event assms(1) have "idle s"
    by (auto simp: client_event_def ui_inv_def busy_def dead_def split: if_splits)
  with Click_conn event order_btnConnClick assms(2) show ?thesis
    by (auto simp: client_event_def split: if_splits)
next
  case Click_mode
  with event assms(2) show ?thesis
    using order_inv_same [of "btnModeClick s" s] by (auto simp: client_event_def btnModeClick_def)
next
  case (Edit row col v)
  with event have ed: "editable (flist s) row col" by (auto simp: client_event_def split: if_splits)
  from Edit event ed obtain r where "do_request e r s = Some (Inr s')"
    by (auto simp: client_event_def split: option.splits sum.splits)
  with order_do_request calm_idle [OF editable_idle(1) [OF assms(1) ed] assms(2) editable_idle(2) [OF assms(1) ed]]
    assms(2) show ?thesis by blast
next
  case (Reply k c t)
  with event obtain s1 where s1: "take_thread (ReadMark k) s = Some s1"
    by (auto simp: client_event_def split: option.splits)
  show ?thesis
  proof (cases k)
    case None
    with s1 Reply event order_drained [OF assms(2)] show ?thesis by (auto simp: client_event_def)
  next
    case (Some k')
    with s1 have "ready (ReadMark (Some k')) s1" using ready_taken [OF assms(1,2)] by simp
    moreover have "on_mark e k' c t s1 = Inr s'" using Some s1 Reply event by (simp add: client_event_def)
    moreover have "\<not> (k' = K_stor_3 \<and> c \<noteq> 226)" using assms(5) Reply Some by (auto simp: refused_upload_def)
    ultimately show ?thesis by (rule order_on_mark)
  qed
next
  case (Connection k c)
  with event obtain s1 where "take_thread (Connecting k) s = Some s1" "s' = on_connected k c s1"
    by (auto simp: client_event_def)
  with ready_taken [OF assms(1,2)] order_on_connected show ?thesis by simp
next
  case (All_read k len m)
  with event obtain s1 where s1: "take_thread (Gathering k) s = Some s1" "on_data e k len (Some m) s1 = Inr s'"
    by (auto simp: client_event_def)
  then have r: "ready (Gathering k) s1" using ready_taken [OF assms(1,2)] by simp
  then have "k = K_list_3" by (simp add: ready_def due_def thread_ok_def)
  with r s1 order_list_3 show ?thesis by (simp add: on_data_def)
next
  case (Moved k len)
  with event obtain s1 where s1: "take_thread (Streaming k) s = Some s1"
    "on_data e k len None (if len = -1 then s1 else s) = Inr s'"
    by (auto simp: client_event_def split: option.splits)
  then have r: "ready (Streaming k) s1" using ready_taken [OF assms(1,2)] by simp
  then have "k \<noteq> K_list_3" by (auto simp: ready_def due_def thread_ok_def)
  with r s1 order_moved [of s1] order_progress [OF assms(2)] show ?thesis
    by (cases k; cases "len = -1") (auto simp: on_data_def)
qed

lemma quiet_end:
  assumes "client_event e ev s = Some (Inr s')" and "dead s \<or> ui_inv s \<and> refused_upload ev"
  shows "verbs s' = verbs s"
proof -
  have same: "take_thread t s = Some s1 \<Longrightarrow> verbs s1 = verbs s" for t s1
    by (auto dest: take_threadD)
  have none: "take_thread t s = None" if "dead s" "t \<noteq> ReadMark None" for t
    using that by (auto simp: dead_def talking_def filter_empty_conv take_thread_def)
  show ?thesis
    using assms(2)
  proof
    assume d: "dead s"
    have "\<not> editable (flist s) row col" for row col
    proof
      assume "editable (flist s) row col"
      then have "enabled (flist s)"
        by (cases col) (auto simp: editable_def modelCellValue_def Let_def split: if_splits option.splits)
      with d show False by (auto simp: dead_def list_ok_def)
    qed
    then show ?thesis
      using assms(1) none [OF d] d
      by (cases ev) (auto simp: client_event_def dead_def btnModeClick_def same split: option.splits)
  next
    assume "ui_inv s \<and> refused_upload ev"
    then show ?thesis
      using assms(1)
      by (auto simp: refused_upload_def client_event_def on_mark_def stor_3_def same split: option.splits)
  qed
qed

definition orderly :: "app \<Rightarrow> bool" where
  "orderly s \<longleftrightarrow> live_or_dead s \<and> in_order [] (verbs s) \<and> (ui_inv s \<longrightarrow> order_inv s)"

interpretation order: transition_invariant client_step at_start orderly
proof unfold_locales
  fix s assume s: "at_start s"
  then show "orderly s"
    using ui.start_inv [OF s]
    by (auto simp: orderly_def at_start_def app_start_def order_inv_def verbs_def lines_sent_def talking_def
        last_verb_def outside_def)
next
  fix s s' assume o: "orderly s" and st: "client_step s s'"
  from st obtain e ev where ev: "env_ok e" "client_event e ev s = Some (Inr s')"
    by (auto elim: client_step.cases)
  have live: "live_or_dead s'" using o ui.step_inv st by (auto simp: orderly_def)
  have "in_order [] (verbs s') \<and> (ui_inv s' \<longrightarrow> order_inv s')"
  proof (cases "dead s \<or> ui_inv s \<and> refused_upload ev")
    case True
    then have "dead s'" using dead_event ev refused_dies by blast
    then have "\<not> ui_inv s'" by (auto simp: dead_def ui_inv_def idle_def busy_def)
    with o quiet_end [OF ev(2) True] show ?thesis by (simp add: orderly_def)
  next
    case False
    with o have "ui_inv s" "order_inv s" "\<not> refused_upload ev" by (auto simp: orderly_def live_or_dead_def)
    then have "order_inv s'" using order_event ev by blast
    then show ?thesis by (simp add: order_inv_def)
  qed
  with live show "orderly s'" by (simp add: orderly_def)
qed

text \<open>
  C4. Whatever the server answers and the user does, the client sends its commands in the order the
  protocol asks for: USER first and after QUIT, PASS only after USER, TYPE after PASS and SYST after
  TYPE, RNTO only after RNFR, LIST, RETR and STOR only after PASV or PORT, and every other command
  only when logged in.
\<close>

theorem commands_in_order:
  assumes "client_step\<^sup>*\<^sup>* (app_start l) s"
  shows "in_order [] (map verb_of (lines_sent s))"
proof -
  have "orderly s" by (rule order.reachable [OF _ assms]) (auto simp: at_start_def)
  then show ?thesis by (simp add: orderly_def verbs_def)
qed

theorem commands_in_order_witness:
  "in_order [] (map verb_of (lines_sent logged_in_app)) \<and> length (lines_sent logged_in_app) = 5"
  using commands_in_order [OF logged_in_app(1)] by (simp add: logged_in_app(6))

end
