(* ===== verification/Agreement.thy ===== *)
theory Agreement
  imports ServerLoop DemoOs ClientOrder
begin

text \<open>
  What the two programs write to each other is what they read: the command lines of the client as
  the server's loop parses them, and the replies from which the client takes the working directory
  and the address of a data connection.
\<close>

section \<open>Command lines\<close>

lemma chars_of_plain: "CR \<notin> set s \<Longrightarrow> chars_of s = map (\<lambda>c. (c, False)) s"
  by (induction s) auto

lemma buf_round:
  assumes "events (buf_ctl (cl s)) = chars_of (cmd @ CRLF) @ es" and "\<not> no_more (buf_ctl (cl s))"
    and "CR \<notin> set cmd" and "LF \<notin> set cmd" and "length cmd < CMD_SIZE"
  obtains b where "events b = es" and "\<not> no_more b"
    and "loop_round os s = run_line os cmd (upd_cl (\<lambda>c. c\<lparr>buf_ctl := b\<rparr>) s)"
proof -
  have "events (buf_ctl (cl s)) = map (\<lambda>c. (c, False)) cmd @ (LF, False) # es"
    using assms(1) by (simp add: chars_of_plain [OF assms(3)] CRLF_def)
  then obtain b where b: "rlb_read_line CMD_SIZE (buf_ctl (cl s)) = Some (of_nat (length cmd), cmd, b)"
    "events b = es" "\<not> no_more b"
    using assms(2,4,5) by (auto simp: CMD_SIZE_def elim: rlb_read_line_Some [of CMD_SIZE, rotated])
  have u: "unat (of_nat (length cmd) :: size_t) = length cmd"
    using assms(5) by (intro unat_of_nat_small) (simp add: CMD_SIZE_def)
  have "\<not> sint (of_nat (length cmd) :: size_t) < 0"
    using assms(5) by (simp add: CMD_SIZE_def signed_of_nat signed_take_bit_int_eq_self)
  moreover have "(of_nat (length cmd) :: size_t) \<noteq> of_nat CMD_SIZE"
  proof
    assume "(of_nat (length cmd) :: size_t) = of_nat CMD_SIZE"
    then have "length cmd = unat (of_nat CMD_SIZE :: size_t)" using u by metis
    also have "\<dots> = CMD_SIZE" by (rule unat_of_nat_small) (simp add: CMD_SIZE_def)
    finally show False using assms(5) by simp
  qed
  ultimately show thesis using b that by (simp add: loop_round_def Let_def)
qed

definition upper :: "string \<Rightarrow> bool" where
  "upper v \<longleftrightarrow> list_all isupper v"

lemma scan_verb_upper:
  assumes "upper v"
  shows "scan_verb (v @ CHR '' '' # a) = (v, CHR '' '' # a)" and "scan_verb v = (v, [])"
proof -
  have up: "isupper c \<Longrightarrow> CHR ''A'' \<le> c \<and> c \<le> CHR ''Z'' \<and> toupper c = c" for c
    using toupper_upper [of c] by (simp add: isupper_def)
  have sp: "toupper (CHR '' '') = CHR '' ''" "\<not> CHR ''A'' \<le> CHR '' ''"
    by (simp_all add: toupper_def less_eq_char_def)
  show "scan_verb (v @ CHR '' '' # a) = (v, CHR '' '' # a)" "scan_verb v = (v, [])"
    using assms by (induction v) (simp_all add: upper_def up sp)
qed

lemma parse_upper:
  assumes "upper v" and "NUL \<notin> set a"
  shows "parse_command (v @ CHR '' '' # a) = Some (v, a)" and "parse_command v = Some (v, [])"
proof -
  have "NUL \<notin> set v" using assms(1) by (auto simp: upper_def list_all_iff isupper_def less_eq_char_def)
  then show "parse_command (v @ CHR '' '' # a) = Some (v, a)" "parse_command v = Some (v, [])"
    using assms scan_verb_upper [OF assms(1)] by (simp_all add: parse_command_def cstr_id)
qed

text \<open>An argument that fits in a line of the server.\<close>

definition plain_arg :: "string \<Rightarrow> bool" where
  "plain_arg a \<longleftrightarrow> NUL \<notin> set a \<and> CR \<notin> set a \<and> LF \<notin> set a \<and> length a \<le> 1018"

lemma upper_plain: "upper v \<Longrightarrow> CR \<notin> set v \<and> LF \<notin> set v"
  by (auto simp: upper_def list_all_iff isupper_def less_eq_char_def)

lemma command_round:
  assumes "events (buf_ctl (cl s)) = chars_of ((v @ CHR '' '' # a) @ CRLF) @ es" and "\<not> no_more (buf_ctl (cl s))"
    and "upper v" and "length v \<le> 4" and "plain_arg a"
  obtains b where "events b = es" and "\<not> no_more b"
    and "loop_round os s = map_option (\<lambda>(r, s'). (r \<noteq> CMD_RESULT_SHUTDOWN, s'))
      (process_command os v a (upd_cl (\<lambda>c. c\<lparr>buf_ctl := b\<rparr>) s))"
proof -
  obtain b where b: "events b = es" "\<not> no_more b"
    "loop_round os s = run_line os (v @ CHR '' '' # a) (upd_cl (\<lambda>c. c\<lparr>buf_ctl := b\<rparr>) s)"
    by (rule buf_round [OF assms(1,2)])
       (use assms(3-5) upper_plain [OF assms(3)] in \<open>auto simp: plain_arg_def CMD_SIZE_def\<close>)
  with parse_upper(1) [OF assms(3), of a] assms(5) that show thesis
    by (simp add: run_line_def plain_arg_def)
qed

text \<open>The command a request of the file list stands for.\<close>

fun request_command :: "request \<Rightarrow> (string \<times> string) option" where
  "request_command (Download f) = (if is_dir f \<noteq> 0 then Some (''CWD'', fr_name f) else None)"
| "request_command (Rename a b) = Some (''RNFR'', a)"
| "request_command (Mkdir nm) = Some (''MKD'', nm)"
| "request_command (Delete d nm) = Some (if d then ''RMD'' else ''DELE'', nm)"
| "request_command _ = None"

text \<open>
  C21. What the user asks for is what the server does: the line that the client sends for a request
  of the file list (open a directory, rename, make a directory, delete) is read by the server's
  loop, whatever the network makes of it, as the command and the name that were meant, and the
  handler of that command is called.
\<close>

theorem request_understood:
  assumes "request_command r = Some (v, a)" and "plain_arg a" and "do_request e r c = Some (Inr c')"
    and "events (buf_ctl (cl s)) = chars_of (concat (drop (length (lines_sent c)) (lines_sent c'))) @ es"
    and "\<not> no_more (buf_ctl (cl s))"
  shows "\<exists>b. events b = es \<and> \<not> no_more b \<and>
    loop_round os s = map_option (\<lambda>(x, s'). (x \<noteq> CMD_RESULT_SHUTDOWN, s'))
      (process_command os v a (upd_cl (\<lambda>c. c\<lparr>buf_ctl := b\<rparr>) s))"
proof -
  have sent: "lines_sent c' = lines_sent c @ [(v @ CHR '' '' # a) @ CRLF]"
    using assms(1,3)
    by (cases r) (auto simp: do_request_def file_list_download_def do_cwd_def do_rename_def do_mkd_def do_rm_def
        lines_sent_same [of "x\<lparr>rename_from := y, rename_to := z\<rparr>" x for x y z] split: if_splits)
  have v: "upper v" "length v \<le> 4"
    using assms(1) by (cases r; auto simp: upper_def isupper_def less_eq_char_def split: if_splits)+
  have "events (buf_ctl (cl s)) = chars_of ((v @ CHR '' '' # a) @ CRLF) @ es" using assms(4) sent by simp
  from command_round [OF this assms(5) v assms(2), of os] show ?thesis by blast
qed

section \<open>The working directory\<close>

lemma quoted_part_two:
  assumes "DQUOTE \<notin> set p" and "DQUOTE \<notin> set q"
  shows "quoted_part (p @ DQUOTE # d @ DQUOTE # q) = Inr (Some d)"
proof -
  have "dropWhile (\<lambda>c. c \<noteq> DQUOTE) (p @ DQUOTE # d @ DQUOTE # q) = DQUOTE # d @ DQUOTE # q"
    using assms(1) by (subst dropWhile_append2) auto
  moreover have "dropWhile (\<lambda>c. c \<noteq> DQUOTE) (rev (d @ DQUOTE # q)) = DQUOTE # rev d"
    using assms(2) by (simp, subst dropWhile_append2) auto
  ultimately show ?thesis by (simp add: quoted_part_def)
qed

lemma quoted_part_one:
  assumes "DQUOTE \<notin> set p" and "DQUOTE \<notin> set q"
  shows "quoted_part (p @ DQUOTE # q) = Inl OVERRUN"
proof -
  have "dropWhile (\<lambda>c. c \<noteq> DQUOTE) (p @ DQUOTE # q) = DQUOTE # q"
    using assms(1) by (subst dropWhile_append2) auto
  with assms(2) show ?thesis by (simp add: quoted_part_def)
qed

lemma last_not: "x \<notin> set t \<Longrightarrow> t \<noteq> [] \<Longrightarrow> last t \<noteq> x"
  using last_in_set by metis

lemma guarded_passed: "guards gs s = None \<Longrightarrow> guarded gs body s = body s"
  by (simp add: guarded_def)

lemma ready_passes:
  assumes "CLST_READY \<le> state (cl s)" and "\<not> client_xfer_in_progress s"
  shows "guards [ignore_if_xfer, auth] s = None"
  using assms by (simp add: client_xfer_in_progress_def)

lemma canonical_no_quote: "canonical d \<Longrightarrow> DQUOTE \<notin> set d \<and> LF \<notin> set d"
  using canonical_chars [of d] by (auto simp: list_all_iff rel_char_def path_char_def less_eq_char_def)

definition pwd_text :: "string \<Rightarrow> string" where
  "pwd_text d = snprintf 256 (''Working directory is '' @ quoted d @ ''.'')"

lemma pwd_text_read:
  assumes "DQUOTE \<notin> set d" and "LF \<notin> set d"
  shows "quoted_part (ended (pwd_text d)) = (if length d \<le> 232 then Inr (Some d) else Inl OVERRUN)"
proof -
  define p where "p = ''Working directory is ''"
  have p: "DQUOTE \<notin> set p" "length p = 21" and t: "pwd_text d = snprintf 256 (p @ quoted d @ ''.'')"
    by (simp_all add: p_def pwd_text_def)
  show ?thesis
  proof (cases "length d \<le> 232")
    case True
    define q where "q = take (232 - length d) ''.''"
    have "q = [] \<or> q = ''.''" by (auto simp: q_def take_Cons')
    then have q: "DQUOTE \<notin> set q" "LF \<notin> set q" by auto
    have "pwd_text d = p @ DQUOTE # d @ DQUOTE # q"
      using True p(2) by (simp add: t snprintf_def quoted_def q_def take_Cons')
    then have "ended (pwd_text d) = p @ DQUOTE # d @ DQUOTE # (q @ [LF])"
      using \<open>q = [] \<or> q = ''.''\<close> by (auto simp: ended_def)
    with quoted_part_two [OF p(1), of "q @ [LF]" d] q True show ?thesis by simp
  next
    case False
    then have "pwd_text d = p @ DQUOTE # take 233 d"
      using p(2) by (simp add: t snprintf_def quoted_def)
    moreover have "LF \<notin> set (take 233 d)" using assms(2) by (auto dest: in_set_takeD)
    ultimately have "ended (pwd_text d) = p @ DQUOTE # (take 233 d @ [LF])"
      using last_not [of LF "take 233 d"] set_take_subset [of 233 d] by (auto simp: ended_def)
    moreover have "DQUOTE \<notin> set (take 233 d @ [LF])" using assms(1) by (auto dest: in_set_takeD)
    ultimately show ?thesis using quoted_part_one [OF p(1)] False by metis
  qed
qed

text \<open>
  C22. The two programs agree on the working directory as long as it is short: in every state of a
  logged-in session the client finds in the reply to PWD exactly the server's directory if that has
  at most 232 characters. For a longer one the reply is cut at 255 characters, the closing quote is
  lost, and the client copies with a length of \<open>-1\<close> over the end of its buffer.
\<close>

theorem directory_agreed:
  assumes "sess_inv s" and "CLST_READY \<le> state (cl s)" and "\<not> client_xfer_in_progress s"
  shows "\<exists>m. process_command os ''PWD'' a s = DONE (mark 257 m s) \<and>
    quoted_part (ended m) = (if length (wd (cl s)) \<le> 232 then Inr (Some (wd (cl s))) else Inl OVERRUN)"
proof -
  have "canonical (wd (cl s))" using assms(1) by (rule inv_paths)
  then have "quoted_part (ended (pwd_text (wd (cl s)))) =
      (if length (wd (cl s)) \<le> 232 then Inr (Some (wd (cl s))) else Inl OVERRUN)"
    using canonical_no_quote pwd_text_read by blast
  moreover have "process_command os ''PWD'' a s = DONE (mark 257 (pwd_text (wd (cl s))) s)"
    by (simp add: process_command_def handler_PWD_def guarded_passed [OF ready_passes [OF assms(2,3)]]
        markf_def pwd_text_def)
  ultimately show ?thesis by blast
qed

section \<open>The data address\<close>

definition no_digits :: "string \<Rightarrow> bool" where
  "no_digits t \<longleftrightarrow> list_all (\<lambda>c. \<not> isdigit c) t"

lemma pasv_address_text:
  assumes "no_digits p" and "length ns = 6" and "list_all (\<lambda>n. n < 256) ns" and "r = [] \<or> \<not> isdigit (hd r)"
  shows "pasv_address (p @ commas (map dec ns) @ r) = Some (map of_nat ns)"
proof -
  obtain n ns' where ns: "ns = n # ns'" using assms(2) by (cases ns) auto
  obtain c cs where c: "dec n = c # cs" "isdigit c"
    using dec_not_Nil isdigit_hd_dec by (metis list.collapse)
  obtain t where t: "commas (map dec ns) = c # t" using ns c by (cases ns') auto
  have "dropWhile (\<lambda>c. \<not> isdigit c) (p @ commas (map dec ns) @ r) = commas (map dec ns) @ r"
    using assms(1) t c(2) by (subst dropWhile_append2) (auto simp: no_digits_def list_all_iff)
  with t scan_address_commas [OF assms(2-4)] show ?thesis by (simp add: pasv_address_def)
qed

lemma address_bytes:
  assumes "length (a :: u8 list) = 6"
  shows "map (\<lambda>i. dec (unat (a ! i))) [0..<6] = map dec (map unat a)" and "list_all (\<lambda>n. n < 256) (map unat a)"
proof -
  show "map (\<lambda>i. dec (unat (a ! i))) [0..<6] = map dec (map unat a)"
    using assms by (intro nth_equalityI) (simp_all add: comp_def)
  show "list_all (\<lambda>n. n < 256) (map unat a)"
    using unsigned_less [where 'a = nat and 'b = 8] by (simp add: list_all_iff)
qed

lemma byte_up [simp]: "unat (ucast (b :: u8) :: u32) = unat b"
proof -
  have "unat b < 2 ^ 32" using unsigned_less [of b, where 'a = nat] by simp
  then show ?thesis by (simp add: unsigned_ucast_eq take_bit_nat_eq_self)
qed

lemma dec_length_3: "n < 256 \<Longrightarrow> length (dec n) \<le> 3"
  using dec_length [of n 2] by simp


text \<open>The number that the six values of an address give for the port.\<close>

definition port_of :: "u8 list \<Rightarrow> u16" where
  "port_of a = of_nat (unat (a ! 4) * 256 + unat (a ! 5))"

lemma port_value:
  assumes "length (a :: u8 list) = 6" and "x = map (\<lambda>b. of_nat (unat b)) a"
  shows "(x ! 4 * 256 + x ! 5 :: u32) = of_nat (unat (a ! 4) * 256 + unat (a ! 5))"
    and "unat (x ! 4 * 256 + x ! 5 :: u32) = unat (a ! 4) * 256 + unat (a ! 5)"
    and "unat (a ! 4) * 256 + unat (a ! 5) < 65536"
proof -
  have b: "unat (a ! 4) < 256" "unat (a ! 5) < 256" using unsigned_less [where 'a = nat and 'b = 8] by simp_all
  show v: "(x ! 4 * 256 + x ! 5 :: u32) = of_nat (unat (a ! 4) * 256 + unat (a ! 5))" using assms by simp
  show l: "unat (a ! 4) * 256 + unat (a ! 5) < 65536" using b by simp
  show "unat (x ! 4 * 256 + x ! 5 :: u32) = unat (a ! 4) * 256 + unat (a ! 5)"
    unfolding v using l by (simp add: unat_of_nat take_bit_nat_eq_self del: of_nat_add of_nat_mult)
qed

lemma dotted_length:
  assumes "list_all (\<lambda>n. n < 256) [a, b, c, d]"
  shows "length (dotted [a, b, c, d]) < 16"
  using assms dec_length_3 [of a] dec_length_3 [of b] dec_length_3 [of c] dec_length_3 [of d]
  by (simp add: dotted_def)

lemma host_read:
  assumes "length (a :: u8 list) = 6" and "x = map (\<lambda>b. of_nat (unat b)) a"
  shows "inet_addr (pasv_host x) = take 4 a"
proof -
  obtain b0 b1 b2 b3 r where a: "a = b0 # b1 # b2 # b3 # r"
    using assms(1) by (auto simp: length_Suc_conv numeral_eq_Suc)
  have lt: "list_all (\<lambda>n. n < 256) [unat b0, unat b1, unat b2, unat b3]"
    using unsigned_less [where 'a = nat and 'b = 8] by simp
  have "map unat (take 4 x) = [unat b0, unat b1, unat b2, unat b3]"
    using assms(2) a by simp
  then have "pasv_host x = dotted [unat b0, unat b1, unat b2, unat b3]"
    using dotted_length [OF lt] by (simp add: pasv_host_def snprintf_id)
  then show ?thesis using inet_addr_dotted_4 [OF lt] a by simp
qed

lemma port_read:
  assumes "length (a :: u8 list) = 6" and "x = map (\<lambda>b. of_nat (unat b)) a"
  shows "(word_of_int (pasv_port x) :: u16) = port_of a" and "ucast (x ! 4 * 256 + x ! 5 :: u32) = port_of a"
proof -
  note v = port_value [OF assms]
  have "unat (ucast (x ! 4 * 256 + x ! 5 :: u32) :: 32 word) = unat (a ! 4) * 256 + unat (a ! 5)" using v(2) by simp
  moreover have "pasv_port x = int (unat (a ! 4) * 256 + unat (a ! 5))"
    unfolding pasv_port_def v(1) using v(3)
    by (simp add: signed_of_nat signed_take_bit_int_eq_self del: of_nat_add of_nat_mult)
  then show "(word_of_int (pasv_port x) :: u16) = port_of a" by (simp add: port_of_def)
  show "ucast (x ! 4 * 256 + x ! 5 :: u32) = port_of a"
    using v(3) unfolding v(1) port_of_def
    by (simp add: unsigned_of_nat take_bit_nat_eq_self del: of_nat_add of_nat_mult)
qed

lemma no_thread_closed: "\<not> thr_dat_running (cl s) \<Longrightarrow> client_close_threads os s = Some s"
  by (simp add: client_close_threads_def)

lemma commas_length:
  assumes "length ns = 6" and "list_all (\<lambda>n. n < 256) ns"
  shows "length (commas (map dec ns)) \<le> 23"
proof -
  obtain a b c d e f where ns: "ns = [a, b, c, d, e, f]"
    using assms(1) by (auto simp: length_Suc_conv numeral_eq_Suc)
  with assms(2) dec_length_3 [of a] dec_length_3 [of b] dec_length_3 [of c] dec_length_3 [of d]
    dec_length_3 [of e] dec_length_3 [of f] show ?thesis by simp
qed

lemma byte_down: "ucast (ucast (b :: u8) :: u32) = b"
  by (rule word_unat_eq_iff [THEN iffD2]) (simp add: unsigned_ucast_eq take_bit_word_eq_self)

lemma pasv_started:
  assumes "os_pthread_create os (ext x) = (True, w')"
    and "map (\<lambda>i. dec (unat (a ! i))) [0..<6] = map dec (map unat a)"
  shows "pasv_start os a fd x =
    DONE (markf 227 (''Entering Passive Mode ('' @ commas (map dec (map unat a)) @ '')'')
      (upd_cl (\<lambda>c. c\<lparr>state := CLST_PASV, thr_dat_running := True\<rparr>) x\<lparr>ext := w', thr := Some (passive_init fd)\<rparr>))"
  unfolding pasv_start_def Let_def upd_cl_sel(3) assms prod.case bool.case by (rule refl)

lemma upd_cl_ext: "upd_cl f (s\<lparr>ext := w\<rparr>)\<lparr>ext := w', thr := t\<rparr> = upd_cl f s\<lparr>ext := w', thr := t\<rparr>"
  by (simp add: upd_cl_def)

lemma commas_chars: "c \<in> set (commas ds) \<Longrightarrow> c = CHR '','' \<or> (\<exists>d \<in> set ds. c \<in> set d)"
  by (induction ds rule: commas.induct) auto

text \<open>The reply to PASV, when no data thread is left or one that can be joined.\<close>

lemma pasv_reply:
  assumes "CLST_READY \<le> state (cl s)" and "\<not> client_xfer_in_progress s" and "client_close_threads os s = Some s0"
    and "pasv_listen os (sock_ctl (cl s0)) (ext s0) = (Some (a, fd), w)" and "os_pthread_create os w = (True, w')"
    and "length a = 6"
  obtains m where "process_command os ''PASV'' arg s =
      DONE (mark 227 m ((upd_cl (\<lambda>c. c\<lparr>state := CLST_PASV, thr_dat_running := True\<rparr>) s0)
        \<lparr>ext := w', thr := Some (passive_init fd)\<rparr>))"
    and "pasv_address (ended m) = Some (map (\<lambda>b. of_nat (unat b)) a)"
proof -
  let ?t = "commas (map dec (map unat a))"
  let ?p = "''Entering Passive Mode (''"
  define m where "m = ?p @ ?t @ '')''"
  note ab = address_bytes [OF assms(6)]
  have l: "length ?t \<le> 23" using commas_length [of "map unat a"] ab(2) assms(6) by simp
  let ?s = "(upd_cl (\<lambda>c. c\<lparr>state := CLST_PASV, thr_dat_running := True\<rparr>) s0)
    \<lparr>ext := w', thr := Some (passive_init fd)\<rparr>"
  have sn: "snprintf 256 m = m" using l by (intro snprintf_id) (simp add: m_def)
  have pc: "process_command os ''PASV'' arg s = DONE (mark 227 m ?s)"
  proof -
    have e: "os_pthread_create os (ext (s0\<lparr>ext := w\<rparr>)) = (True, w')" using assms(5) by simp
    have "process_command os ''PASV'' arg s = handler_PASV os arg s" by (simp add: process_command_def)
    also have "\<dots> = pasv_start os a fd (s0\<lparr>ext := w\<rparr>)"
      using assms(3,4) by (simp add: handler_PASV_def guarded_passed [OF ready_passes [OF assms(1,2)]])
    also have "\<dots> = DONE (markf 227 m ?s)"
      using pasv_started [OF e ab(1), of fd] by (simp only: upd_cl_ext m_def)
    finally show ?thesis by (simp only: markf_def sn)
  qed
  have e: "ended m = ?p @ ?t @ ('')'' @ [LF])" by (simp add: m_def ended_def)
  have "pasv_address (?p @ ?t @ ('')'' @ [LF])) = Some (map of_nat (map unat a))"
    by (rule pasv_address_text [OF _ _ ab(2)])
       (simp_all add: assms(6) no_digits_def isdigit_def less_eq_char_def)
  then have "pasv_address (ended m) = Some (map (\<lambda>b. of_nat (unat b)) a)"
    unfolding e by (simp only: map_map comp_def)
  with pc show thesis by (rule that)
qed

text \<open>
  The address of a passive transfer survives: for the address and port of the server's
  listening socket the client reads, in the text of the 227 reply, the address and the port that it
  then hands to \<open>connect\<close>, byte for byte.
\<close>

theorem pasv_agreed:
  assumes "CLST_READY \<le> state (cl s)" and "\<not> client_xfer_in_progress s" and "\<not> thr_dat_running (cl s)"
    and "pasv_listen os (sock_ctl (cl s)) (ext s) = (Some (a, fd), w)" and "os_pthread_create os w = (True, w')"
    and "length a = 6"
  shows "\<exists>s' m x. process_command os ''PASV'' arg s = DONE s' \<and> out s' = out s @ [(227, m)] \<and>
    pasv_address (ended m) = Some x \<and> inet_addr (pasv_host x) = take 4 a \<and>
    (word_of_int (pasv_port x) :: u16) = port_of a"
proof -
  let ?x = "map (\<lambda>b. of_nat (unat b) :: u32) a"
  let ?s = "(upd_cl (\<lambda>c. c\<lparr>state := CLST_PASV, thr_dat_running := True\<rparr>) s)\<lparr>ext := w', thr := Some (passive_init fd)\<rparr>"
  obtain m where m: "process_command os ''PASV'' arg s = DONE (mark 227 m ?s)" "pasv_address (ended m) = Some ?x"
    by (rule pasv_reply [OF assms(1,2) no_thread_closed [OF assms(3)] assms(4-6)])
  with host_read [OF assms(6) refl] port_read(1) [OF assms(6) refl] show ?thesis
    by (intro exI [of _ "mark 227 m ?s"] exI [of _ m] exI [of _ ?x] conjI) simp_all
qed

text \<open>
  Where the thread of a session that has just answered PORT connects to: it starts to wait; then,
  when some command has left the world \<open>w\<close> and handed it the file \<open>f\<close>, it asks for a socket and
  calls \<open>connect\<close> with this address and port, and its result decides how it goes on.
\<close>

definition connects_to :: "('w, 'f) os \<Rightarrow> u8 list \<Rightarrow> u16 \<Rightarrow> ('w, 'f) sess \<Rightarrow> bool" where
  "connects_to os a p s \<longleftrightarrow>
     (\<exists>s1. thr_step os s = Some s1 \<and>
       (\<forall>f ty w fd w1. os_socket os w = (Some fd, w1) \<longrightarrow>
         (\<exists>s2 s3 t. thr_step os (signal_file f ty (s1\<lparr>ext := w\<rparr>)) = Some s2 \<and> thr_step os s2 = Some s3 \<and>
           thr s3 = Some t \<and> t_fp t = Some f \<and> conn_fd t = Some fd \<and>
           (case os_connect os fd a p w1 of
              (False, w2) \<Rightarrow> ext s3 = w2 \<and> pc t = T_CLOSE \<and>
                out s3 = out s2 @ [(425, ''Cannot establish connection.'')]
            | (True, w2) \<Rightarrow> ext s3 = snd (os_nonblock os fd w2) \<and> pc t = A_LOOP \<and> out s3 = out s2))))"

lemma connects_to_port:
  assumes "thr s = Some active_init"
  shows "connects_to os (addr (cl s)) (port (cl s)) s"
  using assms
  by (auto simp: connects_to_def thr_step_def active_init_def signal_file_def connect_step_def
      split: prod.split bool.split)

lemma joinable_closes:
  assumes "sess_inv s" and "thr_ok s" and "\<forall>t. thr s = Some t \<longrightarrow> \<not> unjoinable t"
  obtains s0 pre where "client_close_threads os s = Some s0" and "out s0 = out s @ pre" and "length pre \<le> 1"
    and "buf_ctl (cl s0) = buf_ctl (cl s)"
proof -
  obtain s0 where s0: "client_close_threads os s = Some s0"
    using close_threads_None_iff [OF assms(1), of os] assms(3) by (cases "client_close_threads os s") auto
  with close_threads_sends [OF s0 assms(2)] close_threads_conn [OF s0] that [of s0] show thesis
    by (auto simp: same_conn_def split: if_splits)
qed

text \<open>
  C26. The address of an active transfer survives: the line that the client sends for the address
  and port it listens on is read by the server as PORT, which stops the last data thread if it can
  be stopped, and the new thread, once it is handed a file, calls \<open>connect\<close> with exactly these six
  bytes.
\<close>

theorem port_agreed:
  assumes "\<not> passive_mode c" and "env_listen e = Some a" and "length a = 6"
    and "events (buf_ctl (cl s)) =
      chars_of (concat (drop (length (lines_sent c)) (lines_sent (do_data e fd i k c)))) @ es"
    and "\<not> no_more (buf_ctl (cl s))" and "CLST_READY \<le> state (cl s)" and "\<not> client_xfer_in_progress s"
    and "sess_inv s" and "thr_ok s" and "\<forall>t. thr s = Some t \<longrightarrow> \<not> unjoinable t"
    and "\<forall>w. fst (os_pthread_create os w)"
  shows "\<exists>s' pre m. loop_round os s = Some (True, s') \<and> out s' = out s @ pre @ [(200, m)] \<and> length pre \<le> 1 \<and>
    addr (cl s') = take 4 a \<and> port (cl s') = port_of a \<and> connects_to os (take 4 a) (port_of a) s' \<and>
    events (buf_ctl (cl s')) = es"
proof -
  note ab = address_bytes [OF assms(3)]
  let ?t = "commas (map dec (map unat a))"
  have l: "length ?t \<le> 23" using commas_length [of "map unat a"] ab(2) assms(3) by simp
  have args: "port_args a = ?t" using ab(1) by (simp add: port_args_def)
  have len: "length (''PORT '' @ ?t @ CRLF) < 64" using l by (simp add: CRLF_def)
  have "lines_sent (do_data e fd i k c) = lines_sent c @ [''PORT '' @ ?t @ CRLF]"
    using assms(1,2) snprintf_id [OF len]
    by (simp add: do_data_def Let_def args lines_sent_same [of "x\<lparr>data_fd := y, data_inter := z, data_next := u\<rparr>" x for x y z u])
  then have ev: "events (buf_ctl (cl s)) = chars_of ((''PORT'' @ CHR '' '' # ?t) @ CRLF) @ es"
    using assms(4) by simp
  have plain: "plain_arg ?t"
  proof -
    have "c = CHR '','' \<or> isdigit c" if "c \<in> set ?t" for c
      using commas_chars [OF that] dec_digits_only by auto
    moreover have "\<not> isdigit NUL" "\<not> isdigit CR" "\<not> isdigit LF" by (simp_all add: isdigit_def less_eq_char_def)
    ultimately have "NUL \<notin> set ?t" "CR \<notin> set ?t" "LF \<notin> set ?t" by fastforce+
    with l show ?thesis by (simp add: plain_arg_def)
  qed
  obtain b where b: "events b = es" "loop_round os s = map_option (\<lambda>(r, s'). (r \<noteq> CMD_RESULT_SHUTDOWN, s'))
      (process_command os ''PORT'' ?t (upd_cl (\<lambda>c. c\<lparr>buf_ctl := b\<rparr>) s))"
    by (rule command_round [OF ev assms(5) _ _ plain]) (simp_all add: upper_def isupper_def less_eq_char_def)
  let ?s = "upd_cl (\<lambda>c. c\<lparr>buf_ctl := b\<rparr>) s"
  obtain x where x: "scan_address ?t = Some x" "x = map (\<lambda>b. of_nat (unat b)) a"
    using scan_address_commas [of "map unat a" "[]"] ab(2) assms(3) by (simp add: comp_def)
  then have four: "map ucast (take 4 x) = take 4 a"
    by (simp only: take_map map_map comp_def of_nat_unat byte_down) simp
  have g: "guards [ignore_if_xfer, auth] ?s = None"
    using assms(6,7) by (simp add: client_xfer_in_progress_def)
  obtain s0 pre where s0: "client_close_threads os ?s = Some s0" "out s0 = out s @ pre" "length pre \<le> 1"
    "buf_ctl (cl s0) = b"
    by (rule joinable_closes [of ?s os]) (use assms(8-10) in \<open>auto simp: sess_inv_def paths_ok_def login_ok_def fresh_def thr_ok_def\<close>)
  have "process_command os ''PORT'' ?t ?s = port_start os x s0"
    using x(1) s0(1) by (simp add: process_command_def handler_PORT_def guarded_passed [OF g])
  moreover obtain w where "os_pthread_create os (ext s0) = (True, w)"
    using assms(11) by (metis prod.collapse)
  ultimately obtain s' m where s': "loop_round os s = Some (True, s')" "out s' = out s0 @ [(200, m)]"
    "thr s' = Some active_init" "addr (cl s') = take 4 a" "port (cl s') = port_of a" "buf_ctl (cl s') = b"
    using b(2) four port_read(2) [OF assms(3) x(2)] s0(4)
    by (simp add: port_start_def Let_def cong: markf_weak_cong)
  moreover have "connects_to os (take 4 a) (port_of a) s'"
    using connects_to_port [OF s'(3), of os] s'(4,5) by simp
  ultimately show ?thesis
    using s0(2,3) b(1) by (intro exI [of _ s'] exI [of _ pre] exI [of _ m]) simp
qed

section \<open>On the in-memory system\<close>

text \<open>A logged-in session for which the given reads are to come.\<close>

definition sess_buf :: "rd list \<Rightarrow> (world, string) sess" where
  "sess_buf rs = sess0\<lparr>cl := client0\<lparr>buf_ctl := rlb_init rs\<rparr>\<rparr>"

lemma sess_buf_sel [simp]:
  "buf_ctl (cl (sess_buf rs)) = rlb_init rs" "state (cl (sess_buf rs)) = CLST_READY"
  "wd (cl (sess_buf rs)) = ''/''" "\<not> thr_dat_running (cl (sess_buf rs))" "\<not> client_xfer_in_progress (sess_buf rs)"
  "ext (sess_buf rs) = world0" "out (sess_buf rs) = []" "sock_ctl (cl (sess_buf rs)) = 4"
  by (simp_all add: sess_buf_def demo_sess client_xfer_in_progress_def)

lemma sess_buf_inv: "sess_inv (sess_buf rs)"
  by (simp add: sess_inv_def paths_ok_def login_ok_def sess_buf_def demo_sess)

lemma init_events: "events (rlb_init rs) = rd_events rs" "\<not> no_more (rlb_init rs)"
  by (simp_all add: events_def rlb_init_def)

theorem request_understood_witness:
  "\<exists>b. events b = [] \<and> \<not> no_more b \<and>
    loop_round demo_os (sess_buf [Data ''MKD n'', Data (''ew'' @ CRLF)]) = map_option (\<lambda>(x, s'). (x \<noteq> CMD_RESULT_SHUTDOWN, s'))
      (process_command demo_os ''MKD'' ''new'' (upd_cl (\<lambda>c. c\<lparr>buf_ctl := b\<rparr>) (sess_buf [Data ''MKD n'', Data (''ew'' @ CRLF)])))"
proof (rule request_understood [of "Mkdir ''new''" _ _ env0 "app_start list0"])
  show "do_request env0 (Mkdir ''new'') (app_start list0) = Some (Inr (do_mkd ''new'' (app_start list0)))"
    by (simp add: do_request_def)
qed (simp_all add: plain_arg_def do_mkd_def init_events CRLF_def)

theorem directory_agreed_witness:
  "\<exists>m. process_command demo_os ''PWD'' [] (sess_buf []) = DONE (mark 257 m (sess_buf [])) \<and>
    quoted_part (ended m) = Inr (Some ''/'')"
  using directory_agreed [OF sess_buf_inv, of "[]" demo_os "[]"] by simp

theorem pasv_agreed_witness:
  "\<exists>s' m x. process_command demo_os ''PASV'' [] (sess_buf []) = DONE s' \<and> out s' = [(227, m)] \<and>
    pasv_address (ended m) = Some x \<and> inet_addr (pasv_host x) = [127, 0, 0, 1] \<and>
    (word_of_int (pasv_port x) :: u16) = 2000"
proof -
  have "pasv_listen demo_os 4 world0 = (Some ([127, 0, 0, 1, 7, 208], 5), world0)"
    by (simp add: pasv_listen_def ephemeral_def sock_ephemeral_def Let_def demo_os_def)
  moreover have "os_pthread_create demo_os world0 = (True, world0)" by (simp add: demo_os_def world0_def)
  ultimately show ?thesis
    using pasv_agreed [of "sess_buf []" demo_os "[127, 0, 0, 1, 7, 208]" 5 world0 world0 "[]"]
    by (simp add: port_of_def)
qed

text \<open>The in-memory system where a thread can always be created.\<close>

definition busy_os :: "(world, string) os" where
  "busy_os = demo_os\<lparr>os_pthread_create := (\<lambda>w. (True, w))\<rparr>"

theorem port_agreed_witness:
  "\<exists>s' pre m. loop_round busy_os (sess_buf [Data (''PORT 127,0,0,1,7,208'' @ CRLF)]) = Some (True, s') \<and>
    out s' = pre @ [(200, m)] \<and> length pre \<le> 1 \<and> addr (cl s') = [127, 0, 0, 1] \<and> port (cl s') = 2000 \<and>
    connects_to busy_os [127, 0, 0, 1] 2000 s' \<and> events (buf_ctl (cl s')) = []"
proof -
  let ?s = "sess_buf [Data (''PORT 127,0,0,1,7,208'' @ CRLF)]"
  let ?e = "env0\<lparr>env_listen := Some [127, 0, 0, 1, 7, 208]\<rparr>"
  let ?c = "btnModeClick (app_start list0)"
  have c: "\<not> passive_mode ?c" by (simp add: btnModeClick_def app_start_def)
  have "port_args [127, 0, 0, 1, 7, 208] = ''127,0,0,1,7,208''" by code_simp
  then have "lines_sent (do_data ?e 0 I_list_2 K_list_3 ?c) = lines_sent ?c @ [''PORT 127,0,0,1,7,208'' @ CRLF]"
    using c by (simp add: do_data_def Let_def snprintf_def CRLF_def
        lines_sent_same [of "x\<lparr>data_fd := y, data_inter := z, data_next := u\<rparr>" x for x y z u])
  then have "events (buf_ctl (cl ?s)) =
      chars_of (concat (drop (length (lines_sent ?c)) (lines_sent (do_data ?e 0 I_list_2 K_list_3 ?c)))) @ []"
    by (simp add: init_events CRLF_def)
  moreover have "thr ?s = None" by (simp add: sess_buf_def sess0_def)
  ultimately show ?thesis
    using port_agreed [OF c, of ?e "[127, 0, 0, 1, 7, 208]" ?s 0 I_list_2 K_list_3 "[]" busy_os] sess_buf_inv
    by (simp add: port_of_def init_events thr_ok_def busy_os_def)
qed

end
