(* ===== verification/Together.thy ===== *)
theory Together
  imports DataTransfer ListingText Agreement ClientThreads
begin

text \<open>
  Both programs at work: the login dialogue as a sequence of exchanges, listings and files from one
  end of a data connection to the other.
\<close>

section \<open>Logging in\<close>

text \<open>
  One exchange: the server runs the line that the client sent last, and the thread of the client
  that waits for the reply reads it. The line is handed over whole; what \<open>client_run_loop\<close> reads is
  that very line as long as its argument is a \<open>plain_arg\<close> (\<open>answer_is_round\<close>), which is what the
  theorems about exchanges assume.
\<close>

definition answer :: "('w, 'f) os \<Rightarrow> string \<Rightarrow> ('w, 'f) sess \<Rightarrow> ((nat \<times> string) \<times> ('w, 'f) sess) option" where
  "answer os line s =
     (case run_line os line s of
        Some (True, s') \<Rightarrow> (case drop (length (out s)) (out s') of [r] \<Rightarrow> Some (r, s') | _ \<Rightarrow> None)
      | _ \<Rightarrow> None)"

lemma answer_is_round:
  assumes "events (buf_ctl (cl s)) = chars_of (line @ CRLF) @ es" and "\<not> no_more (buf_ctl (cl s))"
    and "upper v" and "length v \<le> 4" and "line = v \<or> line = v @ CHR '' '' # a \<and> plain_arg a"
  obtains b where "events b = es" and "\<not> no_more b"
    and "loop_round os s = run_line os line (upd_cl (\<lambda>c. c\<lparr>buf_ctl := b\<rparr>) s)"
  by (rule buf_round [OF assms(1,2)])
     (use assms(3-5) upper_plain [OF assms(3)] that in \<open>auto simp: plain_arg_def CMD_SIZE_def\<close>)

definition exchange ::
  "('w, 'f) os \<Rightarrow> env \<Rightarrow> app \<times> ('w, 'f) sess \<Rightarrow> (app \<times> ('w, 'f) sess) option" where
  "exchange os e p =
     (case threads (fst p) of
        [ReadMark (Some k)] \<Rightarrow>
          (case answer os (butlast (butlast (last (lines_sent (fst p))))) (snd p) of
             None \<Rightarrow> None
           | Some ((code, m), s') \<Rightarrow>
               (case client_event e (Reply (Some k) (int code) (ended m)) (fst p) of
                  Some (Inr c') \<Rightarrow> Some (c', s')
                | _ \<Rightarrow> None))
      | _ \<Rightarrow> None)"

fun exchanges ::
  "('w, 'f) os \<Rightarrow> env \<Rightarrow> nat \<Rightarrow> app \<times> ('w, 'f) sess \<Rightarrow> (app \<times> ('w, 'f) sess) option" where
  "exchanges os e 0 p = Some p"
| "exchanges os e (Suc n) p = (case exchange os e p of None \<Rightarrow> None | Some q \<Rightarrow> exchanges os e n q)"

lemma exchange_reply:
  assumes "threads c = [ReadMark (Some k)]" and "lines_sent c = ls @ [line @ CRLF]"
    and "parse_command line = Some (v, a)" and "process_command os v a s = DONE (mark code m s1)"
    and "out s1 = out s" and "on_mark e k (int code) (ended m) (c\<lparr>threads := []\<rparr>) = Inr c'"
  shows "exchange os e (c, s) = Some (c', mark code m s1)"
  using assms reply_event [OF assms(1)]
  by (simp add: exchange_def answer_def run_line_def CRLF_def butlast_append)

definition valid_login :: "string \<Rightarrow> string \<Rightarrow> bool" where
  "valid_login user pass \<longleftrightarrow> (if user = ''anonymous'' then length pass \<le> 64 else user_auth user pass)"

lemma server_USER:
  assumes "state (cl s) < CLST_READY" and "dat_fp (cl s) = None"
  obtains m s1 where "process_command os ''USER'' u s = DONE (mark 331 m s1)" and "out s1 = out s"
    and "state (cl s1) = CLST_WAIT_PASS" and "dat_fp (cl s1) = None" and "wd (cl s1) = wd (cl s)"
    and "username (cl s1) = (if u = ''anonymous'' then None else Some u)"
proof -
  have g: "guards [ignore_if_xfer] s = None" using assms(2) by simp
  have "\<not> CLST_READY \<le> state (cl s)" using assms(1) by (simp add: not_le)
  then show thesis
    using that assms(2)
    by (cases "u = ''anonymous''") (auto simp: process_command_def handler_USER_def guarded_passed [OF g] Let_def)
qed

lemma server_PASS:
  assumes "state (cl s) = CLST_WAIT_PASS" and "dat_fp (cl s) = None"
    and "username (cl s) = (if u = ''anonymous'' then None else Some u)"
  obtains m s1 where
    "process_command os ''PASS'' p s = DONE (mark (if valid_login u p then 230 else 530) m s1)"
    and "out s1 = out s" and "state (cl s1) = (if valid_login u p then CLST_READY else CLST_WAIT_PASS)"
    and "dat_fp (cl s1) = None" and "wd (cl s1) = wd (cl s)"
proof -
  have g: "guards [ignore_if_xfer] s = None" using assms(2) by simp
  have st: "\<not> state (cl s) < CLST_WAIT_PASS" "\<not> CLST_READY \<le> state (cl s)" by (simp_all add: assms(1))
  have "process_command os ''PASS'' p s = handler_PASS p s" by (simp add: process_command_def)
  then show thesis
    using that assms st
    by (cases "u = ''anonymous''"; cases "valid_login u p")
       (auto simp: handler_PASS_def guarded_passed [OF g] Let_def valid_login_def logged_in_def markf_def)
qed


lemma server_TYPE:
  assumes "dat_fp (cl s) = None"
  shows "process_command os ''TYPE'' ''I'' s = DONE (mark 200 ''Type set to I.'' s)"
proof -
  have g: "guards [ignore_if_xfer] s = None" using assms by simp
  have "toupper (char0 ''I'') = CHR ''I''" by (simp add: char0_def toupper_def less_eq_char_def)
  then show ?thesis by (simp add: process_command_def handler_TYPE_def guarded_passed [OF g])
qed

lemma server_SYST: "process_command os ''SYST'' [] s = DONE (mark 215 ''UNIX Type: L8'' s)"
  by (simp add: process_command_def handler_SYST_def)

lemma server_PWD:
  assumes "CLST_READY \<le> state (cl s)" and "dat_fp (cl s) = None"
  shows "process_command os ''PWD'' a s = DONE (mark 257 (pwd_text (wd (cl s))) s)"
proof -
  have g: "guards [ignore_if_xfer, auth] s = None" using assms by simp
  show ?thesis by (simp add: process_command_def handler_PWD_def guarded_passed [OF g] markf_def pwd_text_def)
qed

lemma parse_simple:
  "parse_command ''SYST'' = Some (''SYST'', [])" "parse_command ''PWD'' = Some (''PWD'', [])"
  "parse_command ''TYPE I'' = Some (''TYPE'', ''I'')"
  "NUL \<notin> set u \<Longrightarrow> parse_command (''USER '' @ u) = Some (''USER'', u)"
  "NUL \<notin> set u \<Longrightarrow> parse_command (''PASS '' @ u) = Some (''PASS'', u)"
proof -
  have up: "upper ''SYST''" "upper ''PWD''" "upper ''TYPE''" "upper ''USER''" "upper ''PASS''"
    by (simp_all add: upper_def isupper_def less_eq_char_def)
  show "parse_command ''SYST'' = Some (''SYST'', [])" "parse_command ''PWD'' = Some (''PWD'', [])"
    by (rule parse_upper(2) [OF up(1), of "[]"], simp, rule parse_upper(2) [OF up(2), of "[]"], simp)
  show "parse_command ''TYPE I'' = Some (''TYPE'', ''I'')"
    using parse_upper(1) [OF up(3), of "''I''"] by simp
  show "NUL \<notin> set u \<Longrightarrow> parse_command (''USER '' @ u) = Some (''USER'', u)"
    "NUL \<notin> set u \<Longrightarrow> parse_command (''PASS '' @ u) = Some (''PASS'', u)"
    using parse_upper(1) [OF up(4), of u] parse_upper(1) [OF up(5), of u] by simp_all
qed

lemma plain_nul: "plain_arg a \<Longrightarrow> NUL \<notin> set a"
  by (simp add: plain_arg_def)

text \<open>What follows a login: the type, the system and the working directory.\<close>

lemma logged_in_rest:
  assumes "threads c = [ReadMark (Some K_sys_1)]" and "lines_sent c = ls @ [''TYPE I'' @ CRLF]"
    and "passive_mode c" and "connected c" and "state (cl s) = CLST_READY"
    and "dat_fp (cl s) = None" and "wd (cl s) = ''/''"
  shows "\<exists>c' s'. exchanges os e 3 (c, s) = Some (c', s') \<and> connected c' \<and> cwd c' = Some ''/'' \<and>
    state (cl s') = CLST_READY \<and> threads c' = [ReadMark (Some K_data_pasv_1)] \<and> last_verb c' = ''PASV''"
proof -
  define c4 where "c4 = ask ''SYST'' K_sys_2 (c\<lparr>threads := []\<rparr>)"
  define c5 where "c5 = sys_2 215 (ended ''UNIX Type: L8'') (c4\<lparr>threads := []\<rparr>)"
  define s4 where "s4 = mark 200 ''Type set to I.'' s"
  define s5 where "s5 = mark 215 ''UNIX Type: L8'' s4"
  have x3: "exchange os e (c, s) = Some (c4, s4)"
    unfolding s4_def
    by (rule exchange_reply [where k = K_sys_1, OF assms(1,2) parse_simple(3)])
       (use server_TYPE [of s os] assms(6) in \<open>simp_all add: c4_def on_mark_def sys_1_def\<close>)
  have x4: "exchange os e (c4, s4) = Some (c5, s5)"
    unfolding s5_def
    by (rule exchange_reply [where k = K_sys_2, OF _ _ parse_simple(1) server_SYST])
       (simp_all add: c4_def c5_def on_mark_def)
  have st: "CLST_READY \<le> state (cl s5)" "dat_fp (cl s5) = None" "wd (cl s5) = ''/''" "state (cl s5) = CLST_READY"
    using assms(5-7) by (simp_all add: s5_def s4_def)
  obtain c6 where c6: "list_1 e 257 (ended (pwd_text ''/'')) (c5\<lparr>threads := []\<rparr>) = Inr c6"
    "connected c6" "cwd c6 = Some ''/''" "threads c6 = [ReadMark (Some K_data_pasv_1)]" "last_verb c6 = ''PASV''"
    using pwd_text_read [of "''/''"] assms(3,4)
    by (simp add: list_1_def do_data_def Let_def)
       (simp add: c5_def c4_def sys_2_def do_list_def verb_of_def CRLF_def)
  have x5: "exchange os e (c5, s5) = Some (c6, mark 257 (pwd_text ''/'') s5)"
    by (rule exchange_reply [where k = K_list_1, OF _ _ parse_simple(2)])
       (use server_PWD [OF st(1,2)] c6(1) st(3) in \<open>simp_all add: c5_def sys_2_def do_list_def on_mark_def\<close>)
  have "exchanges os e 3 (c, s) = Some (c6, mark 257 (pwd_text ''/'') s5)"
    using x3 x4 x5 by (simp add: numeral_eq_Suc)
  with c6 st(4) show ?thesis by auto
qed

text \<open>
  C9. The two programs log in together, with a user name and password that fit a line (at most 1018
  characters, no NUL, CR or LF): after the welcome message two exchanges decide. If the server
  accepts them, three more make the client connected, with the type set
  and the server's working directory in its own, and it goes on to ask for a passive connection. With
  any other the client is told so, is not connected and its user interface is free again.
\<close>

theorem login_dialogue:
  assumes "threads c = [ReadMark (Some K_auth_1)]" and "passive_mode c" and "\<not> connected c"
    and "state (cl s) < CLST_READY" and "dat_fp (cl s) = None" and "wd (cl s) = ''/''"
    and "plain_arg (env_user e)" and "plain_arg (env_pass e)"
  shows "\<exists>c1. client_event e (Reply (Some K_auth_1) 220 (ended WELCOME_MSG)) c = Some (Inr c1) \<and>
    (if valid_login (env_user e) (env_pass e)
     then \<exists>c' s'. exchanges os e 5 (c1, s) = Some (c', s') \<and> connected c' \<and> cwd c' = Some ''/'' \<and>
       state (cl s') = CLST_READY \<and> threads c' = [ReadMark (Some K_data_pasv_1)] \<and> last_verb c' = ''PASV''
     else \<exists>c' s'. exchanges os e 2 (c1, s) = Some (c', s') \<and> \<not> connected c' \<and> \<not> loading_now c' \<and>
       threads c' = [] \<and> state (cl s') < CLST_READY)"
proof -
  let ?u = "env_user e" and ?p = "env_pass e"
  obtain m1 s1 where s1: "process_command os ''USER'' ?u s = DONE (mark 331 m1 s1)" "out s1 = out s"
    "state (cl s1) = CLST_WAIT_PASS" "dat_fp (cl s1) = None" "wd (cl s1) = wd (cl s)"
    "username (cl s1) = (if ?u = ''anonymous'' then None else Some ?u)"
    by (rule server_USER [OF assms(4,5)])
  obtain m2 s2 where s2:
    "process_command os ''PASS'' ?p (mark 331 m1 s1) = DONE (mark (if valid_login ?u ?p then 230 else 530) m2 s2)"
    "out s2 = out (mark 331 m1 s1)" "state (cl s2) = (if valid_login ?u ?p then CLST_READY else CLST_WAIT_PASS)"
    "dat_fp (cl s2) = None" "wd (cl s2) = wd (cl s)"
    by (rule server_PASS [of "mark 331 m1 s1" ?u os ?p]) (use s1 in simp_all)
  let ?c0 = "status ''Welcome message received, logging in'' (c\<lparr>threads := []\<rparr>)"
  define c1 where "c1 = ask (''USER '' @ ?u) K_auth_2 ?c0"
  define c2 where "c2 = ask (''PASS '' @ ?p) K_auth_3 (c1\<lparr>threads := []\<rparr>)"
  have e1: "client_event e (Reply (Some K_auth_1) 220 (ended WELCOME_MSG)) c = Some (Inr c1)"
    using reply_event [OF assms(1)] by (simp add: on_mark_def auth_1_def c1_def)
  have x1: "exchange os e (c1, s) = Some (c2, mark 331 m1 s1)"
    by (rule exchange_reply [where k = K_auth_2, OF _ _ parse_simple(4) [OF plain_nul [OF assms(7)]] s1(1,2)])
       (simp_all add: c1_def c2_def on_mark_def auth_2_def)
  show ?thesis
  proof (cases "valid_login ?u ?p")
    case False
    let ?c3 = "enable_conn (status ''Incorrect credentials'' (done_loading (c2\<lparr>threads := []\<rparr>)))"
    have "exchange os e (c2, mark 331 m1 s1) = Some (?c3, mark 530 m2 s2)"
      by (rule exchange_reply [where k = K_auth_3, OF _ _ parse_simple(5) [OF plain_nul [OF assms(8)]] _ s2(2)])
         (use s2(1) False in \<open>simp_all add: c2_def on_mark_def auth_3_def Let_def\<close>)
    with x1 e1 False s2(3) assms(3) show ?thesis
      by (simp add: numeral_2_eq_2 enable_conn_def c1_def c2_def)
  next
    case True
    define c3 where "c3 = do_sys_setup ((status ''Logged in'' (done_loading (c2\<lparr>threads := []\<rparr>)))
      \<lparr>connected := True, conn_text := ''Disconnect''\<rparr>)"
    have x2: "exchange os e (c2, mark 331 m1 s1) = Some (c3, mark 230 m2 s2)"
      by (rule exchange_reply [where k = K_auth_3, OF _ _ parse_simple(5) [OF plain_nul [OF assms(8)]] _ s2(2)])
         (use s2(1) True in \<open>simp_all add: c2_def c3_def on_mark_def auth_3_def Let_def\<close>)
    have "\<exists>c' s'. exchanges os e 3 (c3, mark 230 m2 s2) = Some (c', s') \<and> connected c' \<and> cwd c' = Some ''/'' \<and>
        state (cl s') = CLST_READY \<and> threads c' = [ReadMark (Some K_data_pasv_1)] \<and> last_verb c' = ''PASV''"
      by (rule logged_in_rest)
         (use s2(3-5) True assms(2,6) in \<open>simp_all add: c3_def c2_def c1_def do_sys_setup_def\<close>)
    with x1 x2 e1 True show ?thesis by (auto simp: numeral_eq_Suc)
  qed
qed

section \<open>Whole transfers\<close>

text \<open>
  A listing arrives: when the data connection delivers what \<open>ls -l\<close> printed, in blocks of any
  size, the client's table shows exactly the entries of the directory (and the way up, except in the
  root), and the user interface is free again.
\<close>

theorem listing_shown:
  assumes "concat chunks = ls_output tot xs" and "[] \<notin> set chunks" and "got_block end_read = None"
    and "length (ls_output tot xs) < 2 ^ 62" and "list_all ls_good xs" and "word tot"
    and "cwd c = Some d" and "qsort_law (env_qsort e)"
  shows "\<exists>n m c'. read_all_thr True (map Data chunks @ end_read # rs) = Some (Inr (Some (n, m), rs)) \<and>
    on_data e K_list_3 n (Some m) c = Inr c' \<and>
    mset (files (flist c')) = mset ((if d \<noteq> ''/'' then [parent_rec] else []) @ map ls_rec xs) \<and>
    modelNumRows (flist c') = length xs + (if d \<noteq> ''/'' then 2 else 1) \<and> \<not> loading_now c'"
proof -
  let ?t = "ls_output tot xs" and ?r = "(if d \<noteq> ''/'' then [parent_rec] else []) @ map ls_rec xs"
  obtain m where m: "read_all_thr True (map Data chunks @ end_read # rs) = Some (Inr (Some (of_nat (length ?t), m), rs))"
    "take (Suc (length ?t)) m = map Some (?t @ [NUL])"
    using gathered [OF assms(2,3), of rs] assms(1,4) by auto
  have "m = map Some ?t @ Some NUL # drop (Suc (length ?t)) m"
    using m(2) append_take_drop_id [of "Suc (length ?t)" m] by simp
  then have recs: "listing_recs d m = Inr ?r" using listing_recs_ls [OF assms(5,6), of d] by metis
  define c1 where "c1 = statusf (''Directory: '' @ d) (act CloseY (done_loading (read_mark None c)))"
  define c' where "c' = c1\<lparr>flist := file_list_reset (env_qsort e) ?r (flist c1)\<rparr>"
  have "on_data e K_list_3 (of_nat (length ?t)) (Some m) c = Inr c'"
    unfolding on_data_def list_3_def Let_def
    by (simp only: data_cb.case assms(7) option.case recs bind_res_simps c1_def c'_def)
  moreover have "mset (files (flist c')) = mset ?r"
    unfolding c'_def using rec_order.qsort_perm [OF assms(8), of ?r] by (simp add: file_list_reset_def Let_def)
  moreover have "modelNumRows (flist c') = length xs + (if d \<noteq> ''/'' then 2 else 1)"
    unfolding c'_def using rec_order.qsort_length [OF assms(8), of ?r]
    by (simp add: file_list_reset_def Let_def modelNumRows_def)
  moreover have "\<not> loading_now c'" by (simp add: c'_def c1_def)
  ultimately show ?thesis using m(1) by blast
qed

text \<open>
  A file arrives: the server's data thread puts the file on the connection and reports 226, and
  when the connection delivers these bytes, in blocks of any size, the client's thread has appended
  the very file to the local one, on a disk that takes whole blocks.
\<close>

theorem download_arrives:
  assumes "file_law os conn f rest dl" and "write_progress (os_write os conn) mm"
    and "write_law (os_write os conn) dl" and "never_fails os conn"
    and "transferring conn f t s" and "t_ty t = DATA_SEND_FILE"
    and "takes_up_to READALL_BLOCK_BUF_SIZE local_write stored" and "got_block end_read = None"
  shows "\<exists>w s'. run_thread os (length (rest (ext s)) div BUF_SIZE + 4) s = s' \<and>
    out s' = out s @ [(226, ''Transfer complete.'')] \<and>
    (\<forall>chunks. dl (ext s) @ concat chunks = dl w \<and>
        list_all (\<lambda>b. b \<noteq> [] \<and> length b \<le> READALL_BLOCK_BUF_SIZE) chunks \<longrightarrow>
      (\<exists>z'. read_all_to_thr local_write True (map Data chunks @ end_read # rs) z = Some (totals 0 chunks @ [-1], z', rs) \<and>
        stored z' = stored z @ rest (ext s)))"
proof -
  obtain w where w: "finished os t 1 w s (run_thread os (length (rest (ext s)) div BUF_SIZE + 4) s)"
    "dl w = dl (ext s) @ rest (ext s)"
    using send_run [OF assms(1,2,5)] assms(3,4,6) by blast
  have "\<exists>z'. read_all_to_thr local_write True (map Data chunks @ end_read # rs) z = Some (totals 0 chunks @ [-1], z', rs) \<and>
      stored z' = stored z @ rest (ext s)"
    if "dl (ext s) @ concat chunks = dl w" "list_all (\<lambda>b. b \<noteq> [] \<and> length b \<le> READALL_BLOCK_BUF_SIZE) chunks" for chunks
  proof -
    have n: "[] \<notin> set chunks" "map (take READALL_BLOCK_BUF_SIZE) chunks = chunks"
      using that(2) by (auto simp: list_all_iff intro!: map_idI)
    have "concat chunks = rest (ext s)" using that(1) w(2) by simp
    with read_all_to_loop_takes [OF assms(7) n(1) assms(8), of rs 0 z] n(2) show ?thesis
      by (auto simp: read_all_to_thr_def)
  qed
  with w(1) show ?thesis by (auto simp: finished_def)
qed

text \<open>
  A file is stored: the client's thread puts the local file on the connection, and when the
  connection delivers these bytes, in blocks of any size with any pauses, the server's data thread
  has appended the very file to the one it opened and reports 226, which is what the client waits for.
\<close>

theorem upload_arrives:
  assumes "write_law net_write dl" and "write_progress net_write mm" and "\<forall>w bs. fst (net_write w bs) \<noteq> WFail"
    and "[] \<notin> set blocks" and "got_block end_file = None"
    and "upload_law os conn f script stored" and "transferring conn f t s" and "t_ty t = DATA_RECV_FILE"
    and "e = Data [] \<or> e = Fail"
  shows "\<exists>z'. write_all_from_thr net_write True (map Data blocks @ end_file # rs) z = Some (totals 0 blocks @ [-1], z', rs) \<and>
    (\<forall>reads. script (ext s) = reads @ [e] \<and> list_all arrives reads \<and> dl z @ payload reads = dl z' \<longrightarrow>
      (\<exists>w s'. run_thread os (length reads + 4) s = s' \<and> stored w = stored (ext s) @ concat blocks \<and>
        ext s' = os_fclose os f (os_close os conn (close_opt os (t_sock t) w)) \<and>
        out s' = out s @ [(226, ''Transfer complete.'')]))"
proof -
  obtain z' where z: "write_all_from_loop net_write (map Data blocks @ end_file # rs) 0 z = Some (totals 0 blocks, z', rs)"
    "dl z' = dl z @ concat blocks"
    using write_all_from_loop_sends [OF assms(1-5), of rs 0 z] by blast
  have "\<exists>w s'. run_thread os (length reads + 4) s = s' \<and> stored w = stored (ext s) @ concat blocks \<and>
      ext s' = os_fclose os f (os_close os conn (close_opt os (t_sock t) w)) \<and>
      out s' = out s @ [(226, ''Transfer complete.'')]"
    if "script (ext s) = reads @ [e]" "list_all arrives reads" "dl z @ payload reads = dl z'" for reads
    using receive_run [OF assms(6-8) that(1,2) assms(9)] that(3) z(2) assms(7,8)
    by (auto simp: finished_def transferring_def close_opt_def close_file_def)
  with z(1) show ?thesis by (auto simp: write_all_from_thr_def)
qed

section \<open>On the in-memory systems\<close>

definition demo_env :: env where
  "demo_env = env0\<lparr>env_user := ''qwq'', env_pass := ''quq''\<rparr>"

theorem login_dialogue_witness:
  "\<exists>c1. client_event demo_env (Reply (Some K_auth_1) 220 (ended WELCOME_MSG))
      ((app_start list0)\<lparr>threads := [ReadMark (Some K_auth_1)]\<rparr>) = Some (Inr c1) \<and>
    (\<exists>c' s'. exchanges demo_os demo_env 5
        (c1, new_sess (client_create 4 [] [0, 0, 0, 0] 0 DATA_UNDEFINED) world0) = Some (c', s') \<and>
      connected c' \<and> cwd c' = Some ''/'' \<and> state (cl s') = CLST_READY \<and>
      threads c' = [ReadMark (Some K_data_pasv_1)] \<and> last_verb c' = ''PASV'')"
proof -
  have v: "valid_login (env_user demo_env) (env_pass demo_env)"
    by (simp add: valid_login_def user_auth_def demo_env_def)
  have p: "plain_arg (env_user demo_env)" "plain_arg (env_pass demo_env)"
    by (simp_all add: plain_arg_def demo_env_def)
  show ?thesis
    using p login_dialogue [of "(app_start list0)\<lparr>threads := [ReadMark (Some K_auth_1)]\<rparr>"
        "new_sess (client_create 4 [] [0, 0, 0, 0] 0 DATA_UNDEFINED) world0" demo_env demo_os]
    unfolding if_P [OF v]
    by (simp add: app_start_def new_sess_def client_create_def demo_env_def)
qed

definition demo_entry :: ls_entry where
  "demo_entry = \<lparr>ls_attr = ''drwxr-xr-x'', ls_links = ''2'', ls_owner = ''ftp'', ls_group = ''ftp'', ls_size = 60,
     ls_d1 = ''Jan'', ls_d2 = ''9'', ls_d3 = ''12:30'', ls_name = ''pub'', ls_gap = (\<lambda>i. if i = 4 then 3 else 0)\<rparr>"

lemma demo_entry_good: "ls_good demo_entry"
  by (simp add: ls_good_def demo_entry_def word_def isspace_def less_eq_char_def)

lemma demo_output:
  "ls_output ''4'' [demo_entry] = ''total 4'' @ [LF] @ ''drwxr-xr-x 2 ftp ftp    60 Jan 9 12:30 pub'' @ [LF]"
proof -
  have "dec 60 = ''60''" by code_simp
  then show ?thesis
    by (simp add: ls_output_def ls_text_def ls_line_def gap_def demo_entry_def numeral_3_eq_3)
qed

theorem listing_shown_witness:
  "\<exists>n m c'. read_all_thr True [Data ''total 4'', Data (LF # ''drwxr-xr-x 2 ftp ftp    60 Jan 9 12:30 pub'' @ [LF]), Data []] =
      Some (Inr (Some (n, m), [])) \<and>
    on_data env0 K_list_3 n (Some m) ((app_start list0)\<lparr>cwd := Some ''/a''\<rparr>) = Inr c' \<and>
    mset (files (flist c')) = mset [parent_rec, ls_rec demo_entry] \<and> modelNumRows (flist c') = 3 \<and> \<not> loading_now c'"
proof -
  let ?cs = "[''total 4'', LF # ''drwxr-xr-x 2 ftp ftp    60 Jan 9 12:30 pub'' @ [LF]]"
  have t: "concat ?cs = ls_output ''4'' [demo_entry]" unfolding demo_output by simp
  have w: "word ''4''" by (simp add: word_def isspace_def less_eq_char_def)
  have l: "length (ls_output ''4'' [demo_entry]) < 2 ^ 62" unfolding demo_output by simp
  have q: "qsort_law (env_qsort env0)" by (simp add: env0_def insertion_sort_law)
  show ?thesis
    using listing_shown [OF t _ _ l, of "Data []" "(app_start list0)\<lparr>cwd := Some ''/a''\<rparr>" "''/a''" env0 "[]"]
      demo_entry_good w q
    by (simp add: numeral_3_eq_3)
qed

definition whole_blocks :: "string \<Rightarrow> string \<Rightarrow> wr \<times> string" where
  "whole_blocks z bs = (Wrote (min READALL_BLOCK_BUF_SIZE (length bs)), z @ take READALL_BLOCK_BUF_SIZE bs)"

theorem download_arrives_witness:
  "\<exists>(w :: world) s'. run_thread demo_os (length (demo_rest (ext (sess_xfer DATA_SEND_FILE []))) div BUF_SIZE + 4)
      (sess_xfer DATA_SEND_FILE []) = s' \<and>
    out s' = out (sess_xfer DATA_SEND_FILE []) @ [(226, ''Transfer complete.'')] \<and>
    (\<forall>chunks. sent (ext (sess_xfer DATA_SEND_FILE [])) @ concat chunks = sent w \<and>
        list_all (\<lambda>b. b \<noteq> [] \<and> length b \<le> READALL_BLOCK_BUF_SIZE) chunks \<longrightarrow>
      (\<exists>z'. read_all_to_thr whole_blocks True (map Data chunks @ Data [] # []) [] = Some (totals 0 chunks @ [-1], z', []) \<and>
        z' = [] @ demo_rest (ext (sess_xfer DATA_SEND_FILE []))))"
proof -
  have t: "t_ty (demo_thr DATA_SEND_FILE) = DATA_SEND_FILE" by (simp add: demo_thr_def)
  have a: "takes_up_to READALL_BLOCK_BUF_SIZE whole_blocks (\<lambda>z. z)"
    by (simp add: takes_up_to_def whole_blocks_def)
  have d: "got_block (Data []) = None" by simp
  show ?thesis
    using download_arrives [OF demo_file_law demo_write_laws demo_transferring t a d, of "[]" "[]" "[]"] by blast
qed

theorem upload_arrives_witness:
  "\<exists>z'. write_all_from_thr two_bytes True (map Data [''ab'', ''c''] @ Data [] # []) [] = Some (totals 0 [''ab'', ''c''] @ [-1], z', []) \<and>
    (\<forall>reads. inbox (ext (sess_xfer DATA_RECV_FILE [Data ''a'', Again, Data ''bc'', Data []])) = reads @ [Data []] \<and>
        list_all arrives reads \<and> [] @ payload reads = z' \<longrightarrow>
      (\<exists>w s'. run_thread demo_os (length reads + 4) (sess_xfer DATA_RECV_FILE [Data ''a'', Again, Data ''bc'', Data []]) = s' \<and>
        content ''pub/a.txt'' w =
          content ''pub/a.txt'' (ext (sess_xfer DATA_RECV_FILE [Data ''a'', Again, Data ''bc'', Data []])) @ concat [''ab'', ''c''] \<and>
        ext s' = os_fclose demo_os ''pub/a.txt'' (os_close demo_os 7 (close_opt demo_os (t_sock (demo_thr DATA_RECV_FILE)) w)) \<and>
        out s' = out (sess_xfer DATA_RECV_FILE [Data ''a'', Again, Data ''bc'', Data []]) @ [(226, ''Transfer complete.'')]))"
proof (rule upload_arrives [OF _ _ _ _ _ demo_upload_law demo_transferring])
  show "write_progress two_bytes (\<lambda>w. 0)" by (auto simp: write_progress_def two_bytes_def)
  show "write_law two_bytes (\<lambda>w. w)" by (auto simp: write_law_def two_bytes_def min_def)
qed (simp_all add: two_bytes_def demo_thr_def)

section \<open>A first listing, and what can follow\<close>

lemma reply_taken:
  "ReadMark (Some k) \<in> set (threads s) \<Longrightarrow> client_event e (Reply (Some k) c t) s =
     Some (on_mark e k c t (s\<lparr>threads := remove1 (ReadMark (Some k)) (threads s)\<rparr>))"
  "Connecting j \<in> set (threads s) \<Longrightarrow> client_event e (Connection j c) s =
     Some (Inr (on_connected j c (s\<lparr>threads := remove1 (Connecting j) (threads s)\<rparr>)))"
  "Gathering d \<in> set (threads s) \<Longrightarrow> client_event e (All_read d len m) s =
     Some (on_data e d len (Some m) (s\<lparr>threads := remove1 (Gathering d) (threads s)\<rparr>))"
  "Streaming d \<in> set (threads s) \<Longrightarrow> client_event e (Moved d (-1)) s =
     Some (on_data e d (-1) None (s\<lparr>threads := remove1 (Streaming d) (threads s)\<rparr>))"
  by (simp_all add: client_event_def take_thread_def)

definition demo_pasv :: string where
  "demo_pasv = commas (map dec [127, 0, 0, 1, 8, 0])"

lemma demo_pasv: "pasv_address demo_pasv = Some (map of_nat [127, 0, 0, 1, 8, 0])"
  using pasv_address_text [of "[]" "[127, 0, 0, 1, 8, 0]" "[]"] by (simp add: demo_pasv_def no_digits_def)

lemma env0_sel [simp]:
  "env_listen env0 = None" "env_init env0 = None" "env_open env0 = Inr 5" "env_choose env0 = Some ''/tmp/a''"
  "env_qsort env0 = insertion_sort" "env_user env0 = ''u''" "env_pass env0 = ''p''"
  by (simp_all add: env0_def)

lemma inter_more [simp]:
  "data_inter (ask t k s) = data_inter s" "data_inter (send_x t s) = data_inter s"
  "data_inter (done_loading s) = data_inter s" "passive_mode (loading s) = passive_mode s"
  by (simp_all add: op_defs)

text \<open>From the reply to PWD to the end of a passive data connection's set-up.\<close>

lemma data_2_up:
  assumes "c = 0"
  shows "threads (data_2 c s) = threads s @ [if data_fd s = 0 then Gathering (data_next s) else Streaming (data_next s)]"
  using assms by (simp add: data_2_def Let_def)

definition first_listing :: "event list" where
  "first_listing = [Reply (Some K_list_1) 257 [DQUOTE, CHR ''/'', DQUOTE], Reply (Some K_data_pasv_1) 227 demo_pasv,
     Connection K_data_2 0, All_read K_list_3 0 [Some NUL]]"

lemma first_listing_facts:
  "quoted_part [DQUOTE, CHR ''/'', DQUOTE] = Inr (Some ''/'')" "listing_recs ''/'' [Some NUL] = Inr []"
  "files (file_list_reset insertion_sort [] l) = []"
  using quoted_part_two [of "[]" "[]" "''/''"]
  by (simp_all add: listing_recs_def list_entries.simps file_list_reset_def Let_def insertion_sort_def)

lemma listed:
  obtains s where "run_client env0 first_listing logged_in_app = Some s" and "\<not> loading_now s" and "connected s"
    and "threads s = [ReadMark None, ReadMark None]" and "files (flist s) = []" and "has_contents (flist s)"
    and "enabled (flist s)" and "passive_mode s" 
  using that
  by (simp add: first_listing_def reply_taken logged_in_app on_mark_def list_1_def first_listing_facts
      do_data_def Let_def data_pasv_1_def demo_pasv call_inter_def run_inter_def
      start_data_def on_connected_def data_2_def on_data_def list_3_def)


lemma edit_event:
  assumes "files (flist s) = []" and "has_contents (flist s)" and "enabled (flist s)"
  shows "client_event e (Edit 0 COL_DELETE v) s = Some (Inr (do_mkd (snprintf 32 (new_folder_prefix @ dec 1)) s))"
    and "env_choose e = Some p \<Longrightarrow>
      client_event e (Edit 0 COL_DOWNLOAD v) s = Some (Inr (do_stor e (base_name p) s))"
proof -
  have ed: "editable (flist s) 0 COL_DELETE" "editable (flist s) 0 COL_DOWNLOAD"
    using assms by (simp_all add: editable_def modelNumRows_def modelCellValue_def)
  have "find_name folder_candidate [] 1 = Some (Inr (snprintf 32 (new_folder_prefix @ dec 1)))"
    by (subst find_name.simps) (simp add: folder_candidate_def file_exists_def)
  with ed(1) assms(1) show "client_event e (Edit 0 COL_DELETE v) s =
      Some (Inr (do_mkd (snprintf 32 (new_folder_prefix @ dec 1)) s))"
    by (simp add: client_event_def modelSetCellValue_def do_request_def)
  show "env_choose e = Some p \<Longrightarrow> client_event e (Edit 0 COL_DOWNLOAD v) s = Some (Inr (do_stor e (base_name p) s))"
    using ed(2) assms(1)
    by (simp add: client_event_def modelSetCellValue_def do_request_def file_list_upload_def
        file_list_get_upload_name_def file_exists_def Let_def)
qed

definition upload_events :: "event list" where
  "upload_events = [Edit 0 COL_DOWNLOAD [], Reply (Some K_data_pasv_1) 227 demo_pasv, Connection K_data_2 0,
     Moved K_stor_2 (-1)]"

lemma run_client_append:
  "run_client e (xs @ ys) s = (case run_client e xs s of None \<Rightarrow> None | Some s' \<Rightarrow> run_client e ys s')"
  by (induction xs arbitrary: s) (auto split: option.split sum.split)

lemma uploaded:
  obtains s where "run_client env0 (first_listing @ upload_events) logged_in_app = Some s" and "loading_now s"
    and "threads s = [ReadMark None, ReadMark None, ReadMark None, ReadMark (Some K_stor_3)]"
proof -
  obtain s where s: "run_client env0 first_listing logged_in_app = Some s" "\<not> loading_now s" "connected s"
    "threads s = [ReadMark None, ReadMark None]" "files (flist s) = []" "has_contents (flist s)"
    "enabled (flist s)" "passive_mode s"
    by (rule listed)
  show thesis
    using s(2-) that edit_event(2) [OF s(5-7), of env0 "''/tmp/a''" "[]"]
    by (simp add: run_client_append s(1) upload_events_def reply_taken do_stor_def on_mark_def do_data_def Let_def
        data_pasv_1_def demo_pasv call_inter_def run_inter_def start_data_def on_connected_def data_2_def
        on_data_def stor_2_def)
qed

theorem ui_dies_exactly_witness:
  "\<exists>s s'. faulty_step\<^sup>*\<^sup>* (app_start list0) s \<and> \<not> dead s \<and>
    client_event env0 (Reply (Some K_stor_3) 550 []) s = Some (Inr s') \<and> dead s' \<and>
    (\<forall>s''. faulty_step\<^sup>*\<^sup>* s' s'' \<longrightarrow> loading_now s'' \<and> talking s'' = [])"
proof -
  obtain s where s: "run_client env0 (first_listing @ upload_events) logged_in_app = Some s" "loading_now s"
    "threads s = [ReadMark None, ReadMark None, ReadMark None, ReadMark (Some K_stor_3)]"
    by (rule uploaded)
  have "client_step\<^sup>*\<^sup>* (app_start list0) s"
    using logged_in_app(1) run_client_steps [OF env0_ok s(1)] by (rule rtranclp_trans)
  then have r: "faulty_step\<^sup>*\<^sup>* (app_start list0) s" by (rule faulty_steps)
  have nd: "\<not> dead s" by (simp add: dead_def talking_def s(3))
  obtain s' where s': "client_event env0 (Reply (Some K_stor_3) 550 []) s = Some (Inr s')"
    by (simp add: reply_taken s(3) on_mark_def)
  note d = ui_dies_exactly [OF r nd env0_ok s']
  have "refused_upload (Reply (Some K_stor_3) 550 [])" by (simp add: refused_upload_def)
  with d have "dead s'" by blast
  moreover from this d have "\<forall>s''. faulty_step\<^sup>*\<^sup>* s' s'' \<longrightarrow> loading_now s'' \<and> talking s'' = []" by blast
  ultimately show ?thesis using r nd s' by blast
qed

end
