(* ===== verification/Dialogues.thy ===== *)
theory Dialogues
  imports Together
begin

text \<open>
  The requests of the file list, from the client's command to the server's answer and the listing that
  follows: what a request is meant to do, what each handler of the server makes of it, and that both
  programs together do what is meant.
\<close>

section \<open>What a request is meant to do\<close>

definition parent :: "string \<Rightarrow> string" where
  "parent d = (case path_cat d ''..'' of Inr u \<Rightarrow> u | Inl _ \<Rightarrow> [])"

text \<open>
  A request of the file list in the directory \<open>d\<close>: whether it is carried out, the directory
  afterwards and the world afterwards.
\<close>

fun wanted :: "('w, 'f) os \<Rightarrow> request \<Rightarrow> string \<Rightarrow> 'w \<Rightarrow> bool \<times> string \<times> 'w" where
  "wanted os (Download f) d w =
     (case path_cat d (fr_name f) of
        Inl _ \<Rightarrow> (False, d, w)
      | Inr p \<Rightarrow> if path_exists (os_lstat os w) p PATH_REQUIREMENT_DIR then (True, p, w) else (False, d, w))"
| "wanted os (Mkdir nm) d w =
     (case path_cat d nm of
        Inl _ \<Rightarrow> (False, d, w)
      | Inr p \<Rightarrow> (case os_mkdir os (tl p) w of (e, w1) \<Rightarrow> (e = None, d, w1)))"
| "wanted os (Delete dir nm) d w =
     (case path_cat d nm of
        Inl _ \<Rightarrow> (False, d, w)
      | Inr p \<Rightarrow>
          if length p = 1 then (False, d, w)
          else if dir then
            (case os_rmdir os (tl p) w of (e, w1) \<Rightarrow> (e = None, if e = None \<and> d = p then parent p else d, w1))
          else if \<not> path_exists (os_lstat os w) p PATH_REQUIREMENT_REGULAR then (False, d, w)
          else (case os_unlink os (tl p) w of (e, w1) \<Rightarrow> (e = None, d, w1)))"
| "wanted os (Rename a b) d w =
     (case path_cat d a of
        Inl _ \<Rightarrow> (False, d, w)
      | Inr p \<Rightarrow>
          if length p = 1 \<or> \<not> path_exists (os_lstat os w) p PATH_REQUIREMENT_NONE then (False, d, w)
          else
            (case path_cat d b of
               Inl _ \<Rightarrow> (False, d, w)
             | Inr q \<Rightarrow>
                 if length q = 1 then (False, d, w)
                 else (case os_rename os (tl p) (tl q) w of
                         (e, w1) \<Rightarrow> (e = None, if e = None \<and> d = p then parent q else d, w1))))"
| "wanted os _ d w = (False, d, w)"

section \<open>One exchange\<close>

text \<open>A server that takes commands.\<close>

definition at_ease :: "('w, 'f) sess \<Rightarrow> bool" where
  "at_ease s \<longleftrightarrow> CLST_READY \<le> state (cl s) \<and> \<not> client_xfer_in_progress s \<and> canonical (wd (cl s))"

text \<open>Between two commands there is no data thread, or one that has come to its end.\<close>

definition rested :: "('w, 'f) sess \<Rightarrow> bool" where
  "rested s \<longleftrightarrow> at_ease s \<and> (thr_dat_running (cl s) \<longrightarrow> (\<exists>t. thr s = Some t \<and> pc t = T_DONE))"

definition same_thread :: "('w, 'f) sess \<Rightarrow> ('w, 'f) sess \<Rightarrow> bool" where
  "same_thread s s' \<longleftrightarrow> thr s' = thr s \<and> thr_dat_running (cl s') = thr_dat_running (cl s)"

lemma rested_same: "rested s \<Longrightarrow> same_thread s s' \<Longrightarrow> at_ease s' \<Longrightarrow> rested s'"
  by (simp add: rested_def same_thread_def)

lemma same_thread_simps [simp]:
  "same_thread s s" "same_thread s (mark code m s') = same_thread s s'" "same_thread s (s'\<lparr>ext := w\<rparr>) = same_thread s s'"
  "same_thread s (upd_cl (\<lambda>c. c\<lparr>wd := d\<rparr>) s') = same_thread s s'"
  "same_thread s (upd_cl (\<lambda>c. c\<lparr>rnfr := x\<rparr>) s') = same_thread s s'"
  by (simp_all add: same_thread_def)

text \<open>A client that waits for the reply to PASV in order to list the directory \<open>d\<close>.\<close>

definition wants_listing :: "string \<Rightarrow> app \<Rightarrow> bool" where
  "wants_listing d c \<longleftrightarrow>
     threads c = [ReadMark (Some K_data_pasv_1)] \<and> (\<exists>ls. lines_sent c = ls @ [''PASV'' @ CRLF]) \<and>
     data_fd c = 0 \<and> data_inter c = Some I_list_2 \<and> data_next c = K_list_3 \<and> cwd c = Some d"

lemma at_ease_passed: "at_ease s \<Longrightarrow> guards [ignore_if_xfer, auth] s = None"
  by (simp add: at_ease_def ready_passes)

lemma at_ease_mark [simp]: "at_ease (mark code m s) = at_ease s"
  by (simp add: at_ease_def client_xfer_in_progress_def)

lemma rested_mark [simp]: "rested (mark code m s) = rested s"
  by (simp add: rested_def)

lemma at_ease_markf [simp]: "at_ease (markf code m s) = at_ease s"
  by (simp add: markf_def)

lemma at_ease_ext [simp]: "at_ease (s\<lparr>ext := w\<rparr>) = at_ease s"
  by (simp add: at_ease_def client_xfer_in_progress_def)

lemma parse_requests:
  assumes "NUL \<notin> set u"
  shows "parse_command (''CWD '' @ u) = Some (''CWD'', u)" and "parse_command (''MKD '' @ u) = Some (''MKD'', u)"
    and "parse_command (''RMD '' @ u) = Some (''RMD'', u)" and "parse_command (''DELE '' @ u) = Some (''DELE'', u)"
    and "parse_command (''RNFR '' @ u) = Some (''RNFR'', u)" and "parse_command (''RNTO '' @ u) = Some (''RNTO'', u)"
proof -
  have up: "upper ''CWD''" "upper ''MKD''" "upper ''RMD''" "upper ''DELE''" "upper ''RNFR''" "upper ''RNTO''"
    by (simp_all add: upper_def isupper_def less_eq_char_def)
  show "parse_command (''CWD '' @ u) = Some (''CWD'', u)" "parse_command (''MKD '' @ u) = Some (''MKD'', u)"
    "parse_command (''RMD '' @ u) = Some (''RMD'', u)" "parse_command (''DELE '' @ u) = Some (''DELE'', u)"
    "parse_command (''RNFR '' @ u) = Some (''RNFR'', u)" "parse_command (''RNTO '' @ u) = Some (''RNTO'', u)"
    using up(1-6) [THEN parse_upper(1), OF assms] by simp_all
qed

text \<open>An exchange about a command that was asked by a client without threads.\<close>

lemma asked_exchange:
  assumes "threads c0 = []" and "parse_command line = Some (v, a)"
    and "process_command os v a s = DONE (mark code m s1)" and "out s1 = out s"
    and "on_mark e k (int code) (ended m) ((ask line k c0)\<lparr>threads := []\<rparr>) = Inr c'"
  shows "exchange os e (ask line k c0, s) = Some (c', mark code m s1)"
  by (rule exchange_reply [where k = k and line = line, OF _ _ assms(2-5)]) (simp_all add: assms(1))

text \<open>The new listing that follows a success.\<close>

lemma listed_again:
  assumes "threads c0 = []" and "passive_mode c0" and "at_ease s" and "length (wd (cl s)) \<le> 232"
  obtains c' where "exchange os e (do_list c0, s) = Some (c', mark 257 (pwd_text (wd (cl s))) s)"
    and "wants_listing (wd (cl s)) c'" and "passive_mode c'"
proof -
  let ?c1 = "status ''Querying current working directory'' (loading c0)"
  let ?c = "(ask ''PWD'' K_list_1 ?c1)\<lparr>threads := []\<rparr>"
  have s: "CLST_READY \<le> state (cl s)" "dat_fp (cl s) = None" "canonical (wd (cl s))"
    using assms(3) by (simp_all add: at_ease_def client_xfer_in_progress_def)
  have q: "quoted_part (ended (pwd_text (wd (cl s)))) = Inr (Some (wd (cl s)))"
    using pwd_text_read canonical_no_quote [OF s(3)] assms(4) by simp
  define c' where "c' = ask ''PASV'' K_data_pasv_1 (status ''Entering passive mode''
    ((loading (status (''Directory: '' @ wd (cl s) @ '' - retrieving file list'') (?c\<lparr>cwd := Some (wd (cl s))\<rparr>)))
       \<lparr>data_fd := 0, data_inter := Some I_list_2, data_next := K_list_3\<rparr>))"
  have l: "list_1 e 257 (ended (pwd_text (wd (cl s)))) ?c = Inr c'"
    using assms(2) by (simp add: list_1_def q do_data_def Let_def c'_def)
  have "exchange os e (ask ''PWD'' K_list_1 ?c1, s) = Some (c', mark 257 (pwd_text (wd (cl s))) s)"
    by (rule asked_exchange [OF _ parse_simple(2) server_PWD [OF s(1,2)] refl])
       (use l assms(1) in \<open>simp_all add: on_mark_def\<close>)
  moreover have "wants_listing (wd (cl s)) c'" "passive_mode c'"
    using assms(2) by (simp_all add: wants_listing_def c'_def)
  ultimately show thesis using that by (simp add: do_list_def)
qed


section \<open>The server's part\<close>

text \<open>A command that is answered once, with a code that tells whether the request was carried out.\<close>

definition serves :: "('w, 'f) os \<Rightarrow> string \<Rightarrow> string \<Rightarrow> ('w, 'f) sess \<Rightarrow> request \<Rightarrow> bool" where
  "serves os v a s r \<longleftrightarrow>
     (\<exists>code m s1. process_command os v a s = DONE (mark code m s1) \<and> out s1 = out s \<and> at_ease s1 \<and> same_thread s s1 \<and>
        (code = 250, wd (cl s1), ext s1) = wanted os r (wd (cl s)) (ext s))"

lemma servesI:
  assumes "process_command os v a s = DONE (mark code m s1)" and "out s1 = out s" and "at_ease s1" and "same_thread s s1"
    and "wanted os r (wd (cl s)) (ext s) = (code = 250, wd (cl s1), ext s1)"
  shows "serves os v a s r"
  using assms unfolding serves_def by metis

lemma servesF:
  assumes "process_command os v a s = DONE (markf code x s1)" and "out s1 = out s" and "at_ease s1" and "same_thread s s1"
    and "wanted os r (wd (cl s)) (ext s) = (code = 250, wd (cl s1), ext s1)"
  shows "serves os v a s r"
  using assms(1) by (intro servesI [OF _ assms(2-5)]) (simp add: markf_def)

lemma parent_up: "canonical d \<Longrightarrow> canonical (parent d)"
  unfolding parent_def by (erule path_cat_up_canonical) simp

lemma at_ease_wd: "at_ease s \<Longrightarrow> canonical d \<Longrightarrow> at_ease (upd_cl (\<lambda>c. c\<lparr>wd := d\<rparr>) s)"
  by (simp add: at_ease_def client_xfer_in_progress_def)

text \<open>What the handlers do with a session that is at ease.\<close>

lemma at_ease_guarded: "at_ease s \<Longrightarrow> guarded [ignore_if_xfer, auth] body s = body s"
  by (rule guarded_passed [OF at_ease_passed])

lemmas handler_defs = process_command_def handler_CWD_def handler_MKD_def handler_RMD_def handler_DELE_def
  handler_RNFR_def handler_RNTO_def at_ease_guarded full_path_def

lemma bad_path:
  assumes "at_ease s" and "path_cat (wd (cl s)) a = Inl err" and "v \<in> {''CWD'', ''MKD'', ''RMD'', ''DELE'', ''RNFR''}"
  shows "process_command os v a s = DONE (mark 501 ''Argument is not a valid path.'' s)"
  using assms(3)
  by (elim insertE emptyE) (simp_all add: handler_defs assms(1,2) cong: mark_weak_cong)

lemma serves_bad_path:
  assumes "at_ease s" and "path_cat (wd (cl s)) a = Inl err" and "v \<in> {''CWD'', ''MKD'', ''RMD'', ''DELE'', ''RNFR''}"
    and "wanted os r (wd (cl s)) (ext s) = (False, wd (cl s), ext s)"
  shows "serves os v a s r"
  by (rule servesI [OF bad_path [OF assms(1-3)]]) (simp_all add: assms)

lemma serves_CWD:
  assumes "at_ease s"
  shows "serves os ''CWD'' (fr_name f) s (Download f)"
proof (cases "path_cat (wd (cl s)) (fr_name f)")
  case (Inl err)
  then show ?thesis by (intro serves_bad_path [OF assms Inl]) simp_all
next
  case (Inr p)
  have c: "canonical p" using path_cat_canonical [OF _ Inr] assms by (simp add: at_ease_def)
  show ?thesis
  proof (cases "path_exists (os_lstat os (ext s)) p PATH_REQUIREMENT_DIR")
    case True
    then show ?thesis
      by (intro servesF [of _ _ _ _ 250 "''Working directory changed to '' @ quoted p @ ''.''"
            "upd_cl (\<lambda>c. c\<lparr>wd := p\<rparr>) s"])
         (simp_all add: at_ease_wd [OF assms c] handler_defs assms Inr cong: markf_weak_cong)
  next
    case False
    then show ?thesis
      by (intro servesF [of _ _ _ _ 550 "''Directory '' @ quoted p @ '' does not exist.''" s])
         (simp_all add: assms handler_defs Inr cong: markf_weak_cong)
  qed
qed

lemma serves_MKD:
  assumes "at_ease s"
  shows "serves os ''MKD'' nm s (Mkdir nm)"
proof (cases "path_cat (wd (cl s)) nm")
  case (Inl err)
  then show ?thesis by (intro serves_bad_path [OF assms Inl]) simp_all
next
  case (Inr p)
  obtain e w1 where m: "os_mkdir os (tl p) (ext s) = (e, w1)" by fastforce
  show ?thesis
  proof (cases e)
    case None
    with m show ?thesis
      by (intro servesF [of _ _ _ _ 250 "''Directory '' @ quoted p @ '' created.''" "s\<lparr>ext := w1\<rparr>"])
         (simp_all add: assms handler_defs Inr cong: markf_weak_cong)
  next
    case (Some err)
    with m show ?thesis
      by (intro servesF [of _ _ _ _ 550 "''Cannot create directory '' @ quoted p @ '' ('' @ err @ '').''"
            "s\<lparr>ext := w1\<rparr>"])
         (simp_all add: assms handler_defs Inr cong: markf_weak_cong)
  qed
qed

text \<open>The reply of \<open>mark_dir\<close>, and the directory it leaves the session in.\<close>

lemma mark_dir_reply:
  obtains m where "mark_dir msg p q s = mark 250 m (if wd (cl s) = p then upd_cl (\<lambda>c. c\<lparr>wd := parent q\<rparr>) s else s)"
  by (cases "wd (cl s) = p") (auto simp: mark_dir_def markf_def Let_def parent_def)

lemma served_mark_dir:
  assumes "at_ease s" and "process_command os v a s' = DONE (mark_dir msg p q s)" and "canonical q" and "out s = out s'"
    and "same_thread s' s"
    and "wanted os r (wd (cl s')) (ext s') = (True, if wd (cl s) = p then parent q else wd (cl s), ext s)"
  shows "serves os v a s' r"
proof -
  obtain m where "mark_dir msg p q s = mark 250 m (if wd (cl s) = p then upd_cl (\<lambda>c. c\<lparr>wd := parent q\<rparr>) s else s)"
    by (rule mark_dir_reply)
  with assms show ?thesis
    by (intro servesI [of _ _ _ _ 250 m "if wd (cl s) = p then upd_cl (\<lambda>c. c\<lparr>wd := parent q\<rparr>) s else s"])
       (simp_all add: at_ease_wd parent_up)
qed

lemma serves_RMD:
  assumes "at_ease s"
  shows "serves os ''RMD'' nm s (Delete True nm)"
proof (cases "path_cat (wd (cl s)) nm")
  case (Inl err)
  then show ?thesis by (intro serves_bad_path [OF assms Inl]) simp_all
next
  case (Inr p)
  have c: "canonical p" using path_cat_canonical [OF _ Inr] assms by (simp add: at_ease_def)
  show ?thesis
  proof (cases "length p = 1")
    case True
    then show ?thesis
      by (intro servesI [of _ _ _ _ 550 "''Cannot remove root directory.''" s]) (simp_all add: assms handler_defs Inr cong: mark_weak_cong)
  next
    case False
    obtain e w1 where m: "os_rmdir os (tl p) (ext s) = (e, w1)" by fastforce
    show ?thesis
    proof (cases e)
      case None
      with m False show ?thesis
        by (intro served_mark_dir [OF _ _ c, of "s\<lparr>ext := w1\<rparr>" _ _ _ _ "''Directory '' @ quoted p @ '' removed.''" p])
           (simp_all add: assms handler_defs Inr cong: mark_weak_cong)
    next
      case (Some err)
      with m False show ?thesis
        by (intro servesF [of _ _ _ _ 550 "''Cannot remove directory '' @ quoted p @ '' ('' @ err @ '').''"
              "s\<lparr>ext := w1\<rparr>"])
           (simp_all add: assms handler_defs Inr cong: markf_weak_cong)
    qed
  qed
qed

lemma serves_DELE:
  assumes "at_ease s"
  shows "serves os ''DELE'' nm s (Delete False nm)"
proof (cases "path_cat (wd (cl s)) nm")
  case (Inl err)
  then show ?thesis by (intro serves_bad_path [OF assms Inl]) simp_all
next
  case (Inr p)
  show ?thesis
  proof (cases "length p = 1")
    case True
    then show ?thesis
      by (intro servesI [of _ _ _ _ 550 "''Cannot rename root directory.''" s]) (simp_all add: assms handler_defs Inr cong: mark_weak_cong)
  next
    case len: False
    show ?thesis
    proof (cases "path_exists (os_lstat os (ext s)) p PATH_REQUIREMENT_REGULAR")
      case False
      with len show ?thesis
        by (intro servesF [of _ _ _ _ 550 "''File '' @ quoted p @ '' does not exist.''" s])
           (simp_all add: assms handler_defs Inr cong: markf_weak_cong)
    next
      case True
      obtain e w1 where m: "os_unlink os (tl p) (ext s) = (e, w1)" by fastforce
      show ?thesis
      proof (cases e)
        case None
        with m len True show ?thesis
          by (intro servesF [of _ _ _ _ 250 "''Deleted '' @ quoted p @ ''.''" "s\<lparr>ext := w1\<rparr>"])
             (simp_all add: assms handler_defs Inr cong: markf_weak_cong)
      next
        case (Some err)
        with m len True show ?thesis
          by (intro servesF [of _ _ _ _ 550 "''Cannot delete '' @ quoted p @ '' ('' @ err @ '').''"
                "s\<lparr>ext := w1\<rparr>"])
             (simp_all add: assms handler_defs Inr cong: markf_weak_cong)
      qed
    qed
  qed
qed

lemma serves_RNFR_refused:
  assumes "at_ease s" and "path_cat (wd (cl s)) a = Inr p"
    and "length p = 1 \<or> \<not> path_exists (os_lstat os (ext s)) p PATH_REQUIREMENT_NONE"
  shows "serves os ''RNFR'' a s (Rename a b)"
proof (cases "length p = 1")
  case True
  then show ?thesis
    by (intro servesI [of _ _ _ _ 550 "''Cannot rename root directory.''" s])
       (simp_all add: assms handler_defs cong: mark_weak_cong)
next
  case False
  with assms show ?thesis
    by (intro servesF [of _ _ _ _ 550 "''Path '' @ quoted p @ '' does not exist.''" s])
       (simp_all add: handler_defs cong: markf_weak_cong)
qed

lemma server_RNFR:
  assumes "at_ease s" and "path_cat (wd (cl s)) a = Inr p" and "length p \<noteq> 1"
    and "path_exists (os_lstat os (ext s)) p PATH_REQUIREMENT_NONE"
  shows "process_command os ''RNFR'' a s =
    DONE (markf 250 (''Renaming '' @ quoted p @ ''.'') (upd_cl (\<lambda>c. c\<lparr>rnfr := Some p\<rparr>) s))"
  using assms by (simp add: handler_defs cong: markf_weak_cong)

lemma at_ease_rnfr [simp]: "at_ease (upd_cl (\<lambda>c. c\<lparr>rnfr := x\<rparr>) s) = at_ease s"
  by (simp add: at_ease_def client_xfer_in_progress_def)

lemma serves_RNTO:
  assumes "at_ease s" and "rnfr (cl s) = Some p" and "path_cat (wd (cl s)) a = Inr p" and "length p \<noteq> 1"
    and "path_exists (os_lstat os (ext s)) p PATH_REQUIREMENT_NONE"
  shows "serves os ''RNTO'' b s (Rename a b)"
proof (cases "path_cat (wd (cl s)) b")
  case (Inl err)
  with assms show ?thesis
    by (intro servesI [of _ _ _ _ 501 "''Argument is not a valid path.''" "upd_cl (\<lambda>c. c\<lparr>rnfr := None\<rparr>) s"])
       (simp_all add: handler_defs Let_def cong: mark_weak_cong)
next
  case (Inr q)
  let ?s = "upd_cl (\<lambda>c. c\<lparr>rnfr := None\<rparr>) s"
  have c: "canonical q" using path_cat_canonical [OF _ Inr] assms(1) by (simp add: at_ease_def)
  show ?thesis
  proof (cases "length q = 1")
    case True
    with assms Inr show ?thesis
      by (intro servesI [of _ _ _ _ 550 "''Cannot rename to root directory.''" ?s])
         (simp_all add: handler_defs Let_def cong: mark_weak_cong)
  next
    case False
    obtain e w1 where m: "os_rename os (tl p) (tl q) (ext s) = (e, w1)" by fastforce
    show ?thesis
    proof (cases e)
      case None
      with assms m False Inr show ?thesis
        by (intro served_mark_dir [OF _ _ c, of "?s\<lparr>ext := w1\<rparr>" _ _ _ _
              "''Renamed '' @ quoted p @ '' to '' @ quoted q @ ''.''" p])
           (simp_all add: handler_defs Let_def)
    next
      case (Some err)
      with assms m False Inr show ?thesis
        by (intro servesF [of _ _ _ _ 550 "''Cannot rename '' @ quoted p @ '' to '' @ quoted q @ '' ('' @ err @ '').''"
              "?s\<lparr>ext := w1\<rparr>"])
           (simp_all add: handler_defs Let_def cong: markf_weak_cong)
    qed
  qed
qed

section \<open>Both together\<close>

text \<open>
  How a request ends: the world and the directory of the server are the wanted ones, and the client
  either shows that directory and asks for its listing, or has given up and is free again.
\<close>

fun settled :: "bool \<times> string \<times> 'w \<Rightarrow> app \<Rightarrow> app \<times> ('w, 'f) sess \<Rightarrow> bool" where
  "settled (ok, d, w) c (c', s') \<longleftrightarrow>
     ext s' = w \<and> wd (cl s') = d \<and> rested s' \<and> passive_mode c' = passive_mode c \<and>
     (if ok then wants_listing d c'
      else cwd c' = cwd c \<and> threads c' = [] \<and> \<not> loading_now c')"

lemma settled_same: "settled x c q \<Longrightarrow> cwd c' = cwd c \<Longrightarrow> passive_mode c' = passive_mode c \<Longrightarrow> settled x c' q"
  by (cases x; cases q) (simp split: if_splits)

lemma rename_to_quiet [simp]:
  "rename_to (ask t k s) = rename_to s" "rename_to (statusf t s) = rename_to s"
  by (simp_all add: op_defs)

lemma refused:
  assumes "code \<noteq> 250" and "k \<in> {K_cwd_1, K_mkd_1, K_rm_1, K_rename_1, K_rename_2}" and "threads c = []"
  obtains c' where "on_mark e k code t c = Inr c'" and "cwd c' = cwd c" and "threads c' = []" and "\<not> loading_now c'"
    and "passive_mode c' = passive_mode c"
  using assms
  by (auto simp: on_mark_def cwd_1_def mkd_1_def rm_1_def rename_1_def rename_2_def Let_def)

lemma accepted:
  assumes "k \<in> {K_cwd_1, K_mkd_1, K_rm_1, K_rename_2}"
  obtains c0 where "on_mark e k 250 t c = Inr (do_list c0)" and "threads c0 = threads c"
    and "passive_mode c0 = passive_mode c"
  using assms
  by (auto simp: on_mark_def cwd_1_def mkd_1_def rm_1_def rename_2_def Let_def)

lemma one_command:
  assumes "threads c = []" and "passive_mode c" and "parse_command line = Some (v, a)" and "serves os v a s r"
    and "wanted os r (wd (cl s)) (ext s) = (ok, d, w)" and "length d \<le> 232"
    and "k \<in> {K_cwd_1, K_mkd_1, K_rm_1, K_rename_1, K_rename_2}" and "k = K_rename_1 \<longrightarrow> \<not> ok"
    and "rested s"
  shows "\<exists>n q. n \<le> 2 \<and> exchanges os e n (ask line k c, s) = Some q \<and> settled (ok, d, w) c q"
proof -
  obtain code m s1 where s1: "process_command os v a s = DONE (mark code m s1)" "out s1 = out s" "at_ease s1" "same_thread s s1"
    "(code = 250, wd (cl s1), ext s1) = (ok, d, w)"
    using assms(4) unfolding serves_def assms(5) by blast
  have rest: "rested s1" by (rule rested_same [OF assms(9) s1(4,3)])
  let ?c = "(ask line k c)\<lparr>threads := []\<rparr>"
  show ?thesis
  proof (cases ok)
    case False
    then have code: "int code \<noteq> 250" using s1(5) by auto
    have nt: "threads ?c = []" by simp
    obtain c' where c': "on_mark e k (int code) (ended m) ?c = Inr c'" "cwd c' = cwd ?c" "threads c' = []"
      "\<not> loading_now c'" "passive_mode c' = passive_mode ?c"
      by (rule refused [OF code assms(7) nt])
    have "exchange os e (ask line k c, s) = Some (c', mark code m s1)"
      by (rule asked_exchange [OF assms(1,3) s1(1,2) c'(1)])
    with c' s1(5) rest False show ?thesis
      by (intro exI [of _ 1] exI [of _ "(c', mark code m s1)"]) simp
  next
    case True
    then have code: "code = 250" using s1(5) by simp
    have "k \<in> {K_cwd_1, K_mkd_1, K_rm_1, K_rename_2}" using assms(7,8) True by auto
    then obtain c0 where c0: "on_mark e k 250 (ended m) ?c = Inr (do_list c0)" "threads c0 = threads ?c"
      "passive_mode c0 = passive_mode ?c"
      by (rule accepted)
    have x1: "exchange os e (ask line k c, s) = Some (do_list c0, mark code m s1)"
      by (rule asked_exchange [OF assms(1,3) s1(1,2)]) (simp add: code c0(1))
    have le: "length (wd (cl (mark code m s1))) \<le> 232" "at_ease (mark code m s1)" using s1(3,5) assms(6) by simp_all
    obtain c' where c': "exchange os e (do_list c0, mark code m s1) =
        Some (c', mark 257 (pwd_text (wd (cl (mark code m s1)))) (mark code m s1))"
      "wants_listing (wd (cl (mark code m s1))) c'" "passive_mode c'"
      by (rule listed_again [OF _ _ le(2,1), of c0 os e]) (simp_all add: c0(2,3) assms(2))
    have "exchanges os e 2 (ask line k c, s) =
        Some (c', mark 257 (pwd_text (wd (cl (mark code m s1)))) (mark code m s1))"
      using x1 c'(1) by (simp add: numeral_2_eq_2)
    with c'(2-) s1(5) rest True assms(2) show ?thesis
      by (intro exI [of _ 2] exI [of _ "(c', mark 257 (pwd_text (wd (cl (mark code m s1)))) (mark code m s1))"]) simp
  qed
qed

text \<open>The command of a request that can be sent; the new name of a renaming must be sendable too.\<close>

fun sendable_request :: "request \<Rightarrow> bool" where
  "sendable_request (Download f) \<longleftrightarrow> is_dir f \<noteq> 0 \<and> plain_arg (fr_name f)"
| "sendable_request (Mkdir nm) \<longleftrightarrow> plain_arg nm"
| "sendable_request (Delete dir nm) \<longleftrightarrow> plain_arg nm"
| "sendable_request (Rename a b) \<longleftrightarrow> plain_arg a \<and> plain_arg b"
| "sendable_request _ \<longleftrightarrow> False"

lemma plain_NUL: "plain_arg a \<Longrightarrow> NUL \<notin> set a"
  by (simp add: plain_arg_def)

lemma rename_served:
  assumes "threads c = []" and "passive_mode c" and "rename_to c = b" and "plain_arg a" and "plain_arg b" and "rested s"
    and "wanted os (Rename a b) (wd (cl s)) (ext s) = (ok, d, w)" and "length d \<le> 232"
  shows "\<exists>n q. n \<le> 3 \<and> exchanges os e n (ask (''RNFR '' @ a) K_rename_1 c, s) = Some q \<and> settled (ok, d, w) c q"
proof -
  have ease: "at_ease s" using assms(6) by (simp add: rested_def)
  show ?thesis
  proof (cases "\<exists>p. path_cat (wd (cl s)) a = Inr p \<and> length p \<noteq> 1 \<and> path_exists (os_lstat os (ext s)) p PATH_REQUIREMENT_NONE")
    case True
    then obtain p where p: "path_cat (wd (cl s)) a = Inr p" "length p \<noteq> 1"
      "path_exists (os_lstat os (ext s)) p PATH_REQUIREMENT_NONE" by blast
    let ?s0 = "upd_cl (\<lambda>c. c\<lparr>rnfr := Some p\<rparr>) s" and ?m = "snprintf 256 (''Renaming '' @ quoted p @ ''.'')"
    let ?c = "(ask (''RNFR '' @ a) K_rename_1 c)\<lparr>threads := []\<rparr>"
    have x: "exchange os e (ask (''RNFR '' @ a) K_rename_1 c, s) = Some (ask (''RNTO '' @ b) K_rename_2 ?c, mark 250 ?m ?s0)"
    proof (rule asked_exchange [OF assms(1) parse_requests(5) [OF plain_NUL [OF assms(4)]]])
      show "process_command os ''RNFR'' a s = DONE (mark 250 ?m ?s0)"
        using server_RNFR [OF ease p] by (simp add: markf_def)
    qed (simp_all add: on_mark_def rename_1_def assms(3))
    have sv: "serves os ''RNTO'' b (mark 250 ?m ?s0) (Rename a b)"
      by (rule serves_RNTO) (use ease p in simp_all)
    have "\<exists>n q. n \<le> 2 \<and> exchanges os e n (ask (''RNTO '' @ b) K_rename_2 ?c, mark 250 ?m ?s0) = Some q \<and>
        settled (ok, d, w) ?c q"
      by (rule one_command [OF _ _ parse_requests(6) [OF plain_NUL [OF assms(5)]] sv])
         (use assms(2,7,8) rested_same [OF assms(6)] ease in simp_all)
    then obtain n q where "n \<le> 2" "exchanges os e n (ask (''RNTO '' @ b) K_rename_2 ?c, mark 250 ?m ?s0) = Some q"
      "settled (ok, d, w) ?c q" by blast
    with x show ?thesis by (intro exI [of _ "Suc n"] exI [of _ q]) (simp add: settled_same [of "(ok, d, w)" ?c])
  next
    case False
    then have ok: "\<not> ok" using assms(7) by (auto split: sum.splits if_splits)
    have "serves os ''RNFR'' a s (Rename a b)"
    proof (cases "path_cat (wd (cl s)) a")
      case (Inl err)
      then show ?thesis by (intro serves_bad_path [OF ease Inl]) simp_all
    next
      case (Inr p)
      with False show ?thesis by (intro serves_RNFR_refused [OF ease Inr]) blast
    qed
    from one_command [OF assms(1,2) parse_requests(5) [OF plain_NUL [OF assms(4)]] this assms(7,8) _ _ assms(6), of K_rename_1 e] ok
    obtain n q where "n \<le> 2" "exchanges os e n (ask (''RNFR '' @ a) K_rename_1 c, s) = Some q" "settled (ok, d, w) c q"
      by auto
    then show ?thesis by (intro exI [of _ n] exI [of _ q]) simp
  qed
qed

lemma served_by_one:
  assumes "parse_command line = Some (v, a)" and "serves os v a s r" and "k \<in> {K_cwd_1, K_mkd_1, K_rm_1}"
    and "threads c0 = []" and "passive_mode c0" and "cwd c0 = cwd c" and "passive_mode c0 = passive_mode c"
    and "rested s" and "wanted os r (wd (cl s)) (ext s) = (ok, d, w)" and "length d \<le> 232"
  shows "\<exists>n q. n \<le> 3 \<and> exchanges os e n (ask line k c0, s) = Some q \<and> settled (ok, d, w) c q"
proof -
  obtain n q where "n \<le> 2" "exchanges os e n (ask line k c0, s) = Some q" "settled (ok, d, w) c0 q"
    using one_command [OF assms(4,5,1,2,9,10) _ _ assms(8), of k e] assms(3) by auto
  with settled_same [OF _ assms(6,7) [symmetric]] show ?thesis by (intro exI [of _ n] exI [of _ q]) simp
qed

text \<open>
  C10. The requests of the user are carried out: when the file list asks to enter a directory, to make,
  remove or rename something, at most three exchanges of client and server have exactly the effect on
  the files and on the server's directory that the request is meant to have, and nothing else reaches
  the system; on success the client shows the server's directory and asks for its listing, and on
  failure the user interface is free again.
\<close>

theorem requests_served:
  assumes "threads c = []" and "passive_mode c" and "sendable_request r" and "do_request e r c = Some (Inr c1)"
    and "rested s" and "wanted os r (wd (cl s)) (ext s) = (ok, d, w)" and "length d \<le> 232"
  shows "\<exists>n q. n \<le> 3 \<and> exchanges os e n (c1, s) = Some q \<and> settled (ok, d, w) c q"
proof -
  have ease: "at_ease s" using assms(5) by (simp add: rested_def)
  note one = served_by_one [where r = r, OF _ _ _ _ _ _ _ assms(5-7)]
  show ?thesis
  proof (cases r)
    case (Download f)
    with assms(3) have n: "NUL \<notin> set (fr_name f)" by (simp add: plain_NUL)
    from Download assms(3,4) have c1: "c1 = do_cwd (fr_name f) c" by (simp add: do_request_def file_list_download_def)
    show ?thesis unfolding c1 do_cwd_def
      by (rule one [OF parse_requests(1) [OF n]]) (use Download assms serves_CWD [OF ease] in simp_all)
  next
    case (Mkdir nm)
    with assms(3) have n: "NUL \<notin> set nm" by (simp add: plain_NUL)
    from Mkdir assms(4) have c1: "c1 = do_mkd nm c" by (simp add: do_request_def)
    show ?thesis unfolding c1 do_mkd_def
      by (rule one [OF parse_requests(2) [OF n]]) (use Mkdir assms serves_MKD [OF ease] in simp_all)
  next
    case (Delete dir nm)
    with assms(3) have n: "NUL \<notin> set nm" by (simp add: plain_NUL)
    from Delete assms(4) have c1: "c1 = do_rm dir nm c" by (simp add: do_request_def)
    show ?thesis
    proof (cases dir)
      case True
      show ?thesis unfolding c1 do_rm_def if_P [OF True]
        by (rule one [OF parse_requests(3) [OF n]]) (use Delete True assms serves_RMD [OF ease] in simp_all)
    next
      case False
      show ?thesis unfolding c1 do_rm_def if_not_P [OF False]
        by (rule one [OF parse_requests(4) [OF n]]) (use Delete False assms serves_DELE [OF ease] in simp_all)
    qed
  next
    case (Rename a b)
    let ?c0 = "statusf (''Renaming '' @ a @ '' to '' @ b @ '' (RNFR)'') ((loading c)\<lparr>rename_from := a, rename_to := b\<rparr>)"
    from Rename assms(4) have c1: "c1 = ask (''RNFR '' @ a) K_rename_1 ?c0" by (simp add: do_request_def do_rename_def)
    obtain n q where "n \<le> 3" "exchanges os e n (ask (''RNFR '' @ a) K_rename_1 ?c0, s) = Some q" "settled (ok, d, w) ?c0 q"
      using rename_served [of ?c0 b a s os ok d w e] Rename assms by auto
    then show ?thesis unfolding c1
      by (intro exI [of _ n] exI [of _ q]) (simp add: settled_same [of "(ok, d, w)" ?c0])
  qed (use assms(3) in simp_all)
qed

lemma demo_new: "path_cat ''/'' ''new'' = Inr ''/new''"
  by code_simp

theorem requests_served_witness:
  "\<exists>n q. n \<le> 3 \<and> exchanges demo_os env0 n (do_mkd ''new'' (app_start list0), sess_buf []) = Some q \<and>
    settled (True, ''/'', world0\<lparr>dirs := [''new'', ''pub'']\<rparr>) (app_start list0) q"
proof (rule requests_served)
  show "wanted demo_os (Mkdir ''new'') (wd (cl (sess_buf []))) (ext (sess_buf [])) =
      (True, ''/'', world0\<lparr>dirs := [''new'', ''pub'']\<rparr>)"
    by (simp add: demo_new) (simp add: demo_os_def demo_mkdir_def demo_lstat_def world0_def)
  show "do_request env0 (Mkdir ''new'') (app_start list0) = Some (Inr (do_mkd ''new'' (app_start list0)))"
    by (simp add: do_request_def)
qed (simp_all add: app_start_def plain_arg_def at_ease_def rested_def)

end
