(* ===== verification/Passive.thy ===== *)
theory Passive
  imports Dialogues
begin

text \<open>
  A data connection in passive mode, as both programs set it up and as the server's data thread uses
  it: the exchange of PASV, the command that follows, and the run of the thread. Listings,
  downloads and uploads are made of these pieces.
\<close>

section \<open>A server between two commands\<close>

lemma rested_joins:
  assumes "rested s"
  obtains s0 where "client_close_threads os s = Some s0" and "at_ease s0" and "wd (cl s0) = wd (cl s)"
    and "ext s0 = ext s" and "out s0 = out s" and "sock_ctl (cl s0) = sock_ctl (cl s)"
    and "rest_offs (cl s0) = rest_offs (cl s)"
proof (cases "thr_dat_running (cl s)")
  case False
  with assms that show thesis by (simp add: client_close_threads_def rested_def)
next
  case True
  then obtain t where t: "thr s = Some t" "pc t = T_DONE" using assms by (auto simp: rested_def)
  let ?s = "upd_cl (\<lambda>c. c\<lparr>state := CLST_READY\<rparr>) ((upd_cl (\<lambda>c. c\<lparr>thr_dat_running := False\<rparr>) s)\<lparr>thr := None\<rparr>)"
  have "client_close_threads os s = Some ?s"
    using True t by (simp add: client_close_threads_def thr_join.simps)
  moreover have "at_ease ?s" using assms by (simp add: rested_def at_ease_def client_xfer_in_progress_def)
  ultimately show thesis by (rule that) simp_all
qed

section \<open>Setting the connection up\<close>

text \<open>A client that waits for the reply to PASV, and what the reply makes of it.\<close>

definition wants_data :: "inter \<Rightarrow> data_cb \<Rightarrow> int \<Rightarrow> app \<Rightarrow> bool" where
  "wants_data i k fd c \<longleftrightarrow>
     threads c = [ReadMark (Some K_data_pasv_1)] \<and> (\<exists>ls. lines_sent c = ls @ [''PASV'' @ CRLF]) \<and>
     data_fd c = fd \<and> data_inter c = Some i \<and> data_next c = k"

definition joining :: "inter \<Rightarrow> string \<Rightarrow> int \<Rightarrow> app \<Rightarrow> app" where
  "joining i h p c =
     run_inter i (start_thread (Connecting K_data_2) (act (InitY h p)
       (statusf (''Passive mode: connecting to '' @ h @ '':'' @ sdec p) (c\<lparr>threads := []\<rparr>))))"

text \<open>A session that has just entered passive mode, with its thread listening at \<open>fd\<close>.\<close>

definition entered :: "nat \<Rightarrow> ('w, 'f) sess \<Rightarrow> ('w, 'f) sess \<Rightarrow> bool" where
  "entered fd s s1 \<longleftrightarrow>
     thr s1 = Some (passive_init fd) \<and> state (cl s1) = CLST_PASV \<and> thr_dat_running (cl s1) \<and>
     \<not> client_xfer_in_progress s1 \<and> wd (cl s1) = wd (cl s) \<and> rest_offs (cl s1) = rest_offs (cl s)"

lemma passive_entered:
  assumes "wants_data i k fdc c" and "env_init e = None" and "rested s"
    and "pasv_listen os (sock_ctl (cl s)) (ext s) = (Some (a, fd), w1)" and "length a = 6"
    and "os_pthread_create os w1 = (True, w2)"
  obtains h p s1 where "exchange os e (c, s) = Some (joining i h p c, s1)" and "entered fd s s1"
    and "ext s1 = w2" and "inet_addr h = take 4 a" and "(word_of_int p :: u16) = port_of a"
proof -
  obtain ls where c: "threads c = [ReadMark (Some K_data_pasv_1)]" "lines_sent c = ls @ [''PASV'' @ CRLF]"
    "data_inter c = Some i"
    using assms(1) by (auto simp: wants_data_def)
  obtain s0 where s0: "client_close_threads os s = Some s0" "at_ease s0" "wd (cl s0) = wd (cl s)" "ext s0 = ext s"
    "out s0 = out s" "sock_ctl (cl s0) = sock_ctl (cl s)" "rest_offs (cl s0) = rest_offs (cl s)"
    by (rule rested_joins [OF assms(3)])
  let ?p = "(upd_cl (\<lambda>c. c\<lparr>state := CLST_PASV, thr_dat_running := True\<rparr>) s0)\<lparr>ext := w2, thr := Some (passive_init fd)\<rparr>"
  let ?x = "map (\<lambda>b. of_nat (unat b) :: u32) a"
  obtain m where m: "process_command os ''PASV'' [] s = DONE (mark 227 m ?p)" "pasv_address (ended m) = Some ?x"
    by (rule pasv_reply [OF _ _ s0(1) _ assms(6,5)])
       (use assms(3,4) s0(4,6) in \<open>simp_all add: rested_def at_ease_def\<close>)
  have up: "upper ''PASV''" by (simp add: upper_def isupper_def less_eq_char_def)
  have pp: "parse_command ''PASV'' = Some (''PASV'', [])" using parse_upper(2) [OF up, of "[]"] by simp
  have "on_mark e K_data_pasv_1 227 (ended m) (c\<lparr>threads := []\<rparr>) = Inr (joining i (pasv_host ?x) (pasv_port ?x) c)"
    using c(3) by (simp add: on_mark_def data_pasv_1_def m(2) Let_def start_data_def assms(2) call_inter_def joining_def op_defs)
  then have "exchange os e (c, s) = Some (joining i (pasv_host ?x) (pasv_port ?x) c, mark 227 m ?p)"
    by (intro exchange_reply [OF c(1,2) pp m(1)]) (use s0(5) in simp_all)
  moreover have "entered fd s (mark 227 m ?p)"
    using s0(2,3,7) by (simp add: entered_def at_ease_def client_xfer_in_progress_def)
  ultimately show thesis
    by (rule that) (simp add: mark_def, rule host_read [OF assms(5) refl], rule port_read(1) [OF assms(5) refl])
qed

text \<open>The command that follows, when the server accepts it: the thread is handed the open file.\<close>

definition handed :: "'f \<Rightarrow> dat_type \<Rightarrow> string \<Rightarrow> ('w, 'f) sess \<Rightarrow> ('w, 'f) sess" where
  "handed f ty m s = (mark 150 m s)\<lparr>cl := (cl s)\<lparr>dat_fp := Some f, dat_ty := ty\<rparr>\<rparr>"

lemma server_opens:
  assumes "parse_command line = Some (v, arg)" and "process_command os v arg s = DONE (signal_file f ty (mark 150 m s1))"
    and "thr s1 = Some (passive_init fd)" and "out s1 = out s"
  shows "answer os line s = Some ((150, m), handed f ty m s1)"
proof -
  have "signal_file f ty (mark 150 m s1) = handed f ty m s1"
    using assms(3) by (simp add: signal_file_def handed_def mark_def passive_init_def)
  then show ?thesis using assms by (simp add: answer_def run_line_def handed_def)
qed

lemma entered_passed: "entered fd s s1 \<Longrightarrow> guards [ignore_if_xfer, auth, data] s1 = None"
  by (simp add: entered_def guards.simps ignore_if_xfer_def auth_def data_def)


section \<open>The run of the thread\<close>

text \<open>The first pass of the passive thread: it accepts, takes up the file and moves a block.\<close>

lemma passive_takes_up:
  assumes "thr s = Some (passive_init fd)" and "thr_dat_running (cl s)" and "dat_fp (cl s) = Some f"
    and "os_accept os fd (ext s) = (AConn conn, w)"
    and "t = (passive_init fd)\<lparr>conn_fd := Some conn, t_fp := Some f, t_ty := dat_ty (cl s)\<rparr>"
  shows "transferring conn f t (s\<lparr>ext := w, thr := Some t\<rparr>)"
    and "finished os t r v (s\<lparr>ext := w, thr := Some t\<rparr>) (run_thread os (Suc n) (s\<lparr>ext := w, thr := Some t\<rparr>)) \<Longrightarrow>
      finished os t r v s (run_thread os (Suc n) s)"
proof -
  show tr: "transferring conn f t (s\<lparr>ext := w, thr := Some t\<rparr>)"
    using assms(2) by (simp add: transferring_def assms(5) passive_init_def)
  have "thr_step os s = Some (block_step os t conn (s\<lparr>ext := w\<rparr>))"
    using assms by (simp add: thr_step_def passive_init_def pasv_step_def pasv_connected_def Let_def)
  also have "\<dots> = Some (block_step os t conn (s\<lparr>ext := w, thr := Some t\<rparr>))"
    by (simp add: block_step_def assms(5) passive_init_def split: option.split)
  also have "\<dots> = thr_step os (s\<lparr>ext := w, thr := Some t\<rparr>)" using transferring_step [OF tr] by simp
  finally have eq: "thr_step os s = thr_step os (s\<lparr>ext := w, thr := Some t\<rparr>)" .
  show "finished os t r v s (run_thread os (Suc n) s)"
    if "finished os t r v (s\<lparr>ext := w, thr := Some t\<rparr>) (run_thread os (Suc n) (s\<lparr>ext := w, thr := Some t\<rparr>))"
  proof (cases "thr_step os s")
    case None
    then show ?thesis using that eq by (simp add: finished_def assms(5) passive_init_def)
  next
    case (Some s')
    then have "run_thread os (Suc n) s = run_thread os (Suc n) (s\<lparr>ext := w, thr := Some t\<rparr>)" using eq by simp
    with that show ?thesis by (simp add: finished_def)
  qed
qed

lemma run_thread_same_client: "same_client (cl s) (cl (run_thread os n s))"
  by (induction n arbitrary: s)
     (auto split: option.split intro: same_client_trans thr_step_same_client)

text \<open>A thread that has been handed the file \<open>f\<close>, and its end after \<open>n\<close> steps.\<close>

definition has_file :: "nat \<Rightarrow> 'f \<Rightarrow> ('w, 'f) sess \<Rightarrow> bool" where
  "has_file fd f s \<longleftrightarrow>
     thr s = Some (passive_init fd) \<and> thr_dat_running (cl s) \<and> dat_fp (cl s) = Some f \<and> canonical (wd (cl s))"

definition delivered :: "('w, 'f) os \<Rightarrow> nat \<Rightarrow> nat \<Rightarrow> 'f \<Rightarrow> 'w \<Rightarrow> ('w, 'f) sess \<Rightarrow> ('w, 'f) sess \<Rightarrow> bool" where
  "delivered os fd conn f w s s' \<longleftrightarrow>
     ext s' = close_file os (dat_ty (cl s)) (Some f) (os_close os conn (os_close os fd w)) \<and>
     out s' = out s @ [(226, ''Transfer complete.'')] \<and> rested s' \<and> wd (cl s') = wd (cl s)"

lemma has_file_handed:
  assumes "entered fd s s1" and "canonical (wd (cl s))"
    and "thr s2 = thr s1" and "thr_dat_running (cl s2) = thr_dat_running (cl s1)" and "wd (cl s2) = wd (cl s1)"
  shows "has_file fd f (handed f ty m s2)" and "dat_ty (cl (handed f ty m s2)) = ty" and "ext (handed f ty m s2) = ext s2"
    and "wd (cl (handed f ty m s2)) = wd (cl s)"
  using assms by (simp_all add: has_file_def handed_def entered_def)

lemma finished_delivered:
  assumes "finished os t 1 w s s'" and "t = (passive_init fd)\<lparr>conn_fd := Some conn, t_fp := Some f, t_ty := dat_ty (cl s)\<rparr>"
    and "has_file fd f s" and "s' = run_thread os n s"
  shows "delivered os fd conn f w s s'"
proof -
  have "wd (cl s') = wd (cl s)" using same_client_sel(1) [OF run_thread_same_client [of s os n]] assms(4) by metis
  with assms(1,2,3) show ?thesis
    by (auto simp: delivered_def finished_def rested_def at_ease_def client_xfer_in_progress_def has_file_def
      passive_init_def close_opt_def)
qed

lemma thread_sends:
  assumes "has_file fd f s" and "dat_ty (cl s) = DATA_SEND_FILE \<or> dat_ty (cl s) = DATA_SEND_PIPE"
    and "os_accept os fd (ext s) = (AConn conn, w0)" and "dl w0 = []"
    and "file_law os conn f rest dl" and "write_progress (os_write os conn) mm" and "write_law (os_write os conn) dl"
    and "never_fails os conn"
  obtains w where "dl w = rest w0"
    and "delivered os fd conn f w s (run_thread os (length (rest w0) div BUF_SIZE + 4) s)"
proof -
  define t where "t = (passive_init fd)\<lparr>conn_fd := Some conn, t_fp := Some f, t_ty := dat_ty (cl s)\<rparr>"
  let ?s = "s\<lparr>ext := w0, thr := Some t\<rparr>" and ?k = "length (rest w0) div BUF_SIZE + 4"
  have s: "thr s = Some (passive_init fd)" "thr_dat_running (cl s)" "dat_fp (cl s) = Some f"
    using assms(1) by (simp_all add: has_file_def)
  note up = passive_takes_up [OF s assms(3) t_def]
  have ty: "t_ty t = DATA_SEND_FILE \<or> t_ty t = DATA_SEND_PIPE" and e: "ext ?s = w0"
    using assms(2) by (simp_all add: t_def)
  have k: "?k = Suc (length (rest w0) div BUF_SIZE + 3)" by simp
  obtain w where w: "finished os t 1 w ?s (run_thread os ?k ?s)" "dl w = rest w0"
    using send_run [OF assms(5,6) up(1) ty] assms(7,8) unfolding e assms(4) by auto
  have "finished os t 1 w s (run_thread os ?k s)" unfolding k by (rule up(2) [OF w(1) [unfolded k]])
  from finished_delivered [OF this t_def assms(1) refl] w(2) that show thesis by blast
qed

lemma thread_receives:
  assumes "has_file fd f s" and "dat_ty (cl s) = DATA_RECV_FILE"
    and "os_accept os fd (ext s) = (AConn conn, w0)" and "script w0 = rds @ [e]" and "list_all arrives rds"
    and "e = Data [] \<or> e = Fail" and "upload_law os conn f script stored"
  obtains w where "stored w = stored w0 @ payload rds"
    and "delivered os fd conn f w s (run_thread os (length rds + 4) s)"
proof -
  define t where "t = (passive_init fd)\<lparr>conn_fd := Some conn, t_fp := Some f, t_ty := dat_ty (cl s)\<rparr>"
  let ?s = "s\<lparr>ext := w0, thr := Some t\<rparr>" and ?k = "length rds + 4"
  have s: "thr s = Some (passive_init fd)" "thr_dat_running (cl s)" "dat_fp (cl s) = Some f"
    using assms(1) by (simp_all add: has_file_def)
  note up = passive_takes_up [OF s assms(3) t_def]
  have ty: "t_ty t = DATA_RECV_FILE" and e: "script (ext ?s) = rds @ [e]" using assms(2,4) by (simp_all add: t_def)
  have k: "?k = Suc (length rds + 3)" by simp
  obtain w where w: "finished os t 1 w ?s (run_thread os ?k ?s)" "stored w = stored w0 @ payload rds"
    using receive_run [OF assms(7) up(1) ty e assms(5,6)] by auto
  have "finished os t 1 w s (run_thread os ?k s)" unfolding k by (rule up(2) [OF w(1) [unfolded k]])
  from finished_delivered [OF this t_def assms(1) refl] w(2) that show thesis by blast
qed

end
