(* ===== verification/Browsing.thy ===== *)
theory Browsing
  imports Passive
begin

text \<open>
  One directory listing with everything that takes part in it: the control connection, the server's
  data thread, the client's threads and callbacks, and the table.
\<close>

section \<open>A listing from end to end\<close>

text \<open>
  What the system does for a listing of the directory \<open>d\<close> over a passive connection: the
  listening socket and the thread can be made, \<open>popen\<close> starts a command that prints \<open>txt\<close>, the
  client's connection is accepted, and writing to it works.
\<close>

definition listing_law ::
  "('w, 'f) os \<Rightarrow> nat \<Rightarrow> string \<Rightarrow> 'w \<Rightarrow> u8 list \<Rightarrow> nat \<Rightarrow> nat \<Rightarrow> 'f \<Rightarrow>
     ('w \<Rightarrow> string) \<Rightarrow> ('w \<Rightarrow> string) \<Rightarrow> ('w \<Rightarrow> nat) \<Rightarrow> string \<Rightarrow> bool" where
  "listing_law os sock d w a fd conn f rest dl mm txt \<longleftrightarrow>
     (\<exists>w1 w2 w3 w4. pasv_listen os sock w = (Some (a, fd), w1) \<and> length a = 6 \<and>
        os_pthread_create os w1 = (True, w2) \<and> os_popen os (list_cmd d) w2 = (Some f, w3) \<and>
        os_accept os fd w3 = (AConn conn, w4) \<and> rest w4 = txt \<and> dl w4 = []) \<and>
     file_law os conn f rest dl \<and> write_progress (os_write os conn) mm \<and> write_law (os_write os conn) dl \<and>
     never_fails os conn"

text \<open>LIST, on a session that has just entered passive mode.\<close>

lemma server_LIST:
  assumes "entered fd s0 s" and "os_popen os (list_cmd (wd (cl s))) (ext s) = (Some f, w)"
  obtains m where "answer os ''LIST'' s = Some ((150, m), handed f DATA_SEND_PIPE m (s\<lparr>ext := w\<rparr>))"
proof -
  note g = entered_passed [OF assms(1)]
  have up: "upper ''LIST''" by (simp add: upper_def isupper_def less_eq_char_def)
  have p: "parse_command ''LIST'' = Some (''LIST'', [])" using parse_upper(2) [OF up, of "[]"] by simp
  define m where "m = ''Directory listing is being sent over the data connection.''"
  have "open_LIST os [] s = Opened f DATA_SEND_PIPE (mark 150 m (s\<lparr>ext := w\<rparr>))"
    unfolding open_LIST_def staged_def g option.case assms(2) prod.case m_def by (rule refl)
  then have "process_command os ''LIST'' [] s = DONE (signal_file f DATA_SEND_PIPE (mark 150 m (s\<lparr>ext := w\<rparr>)))"
    by (simp add: process_command_def handler_LIST_def)
  from server_opens [OF p this, of fd] assms(1) that [of m] show thesis by (simp add: entered_def)
qed

text \<open>What happens to the client then: the connection is there, the server announces the listing, all of
  its data has been read, and the server reports its end.\<close>

definition listing_events :: "string \<Rightarrow> size_t \<Rightarrow> mem \<Rightarrow> string \<Rightarrow> event list" where
  "listing_events m1 n buf m2 =
     [Connection K_data_2 0, Reply None 150 m1, All_read K_list_3 n buf, Reply None 226 m2]"

text \<open>The client from the reply to PASV to the end of a listing.\<close>

lemma client_listing:
  assumes "wants_listing d c" and "qsort_law (env_qsort e)" and "listing_recs d m = Inr recs"
  shows "\<exists>c2. run_client e (listing_events m1 n m m2) (joining I_list_2 h p c) = Some c2 \<and>
    threads c2 = [] \<and> \<not> loading_now c2 \<and> cwd c2 = Some d \<and> connected c2 = connected c \<and> passive_mode c2 = passive_mode c \<and>
    mset (files (flist c2)) = mset recs \<and> modelNumRows (flist c2) = length recs + 1 \<and> enabled (flist c2)"
  using rec_order.qsort_perm [OF assms(2), of recs] rec_order.qsort_length [OF assms(2), of recs] assms(1,3)
  by (simp add: wants_listing_def joining_def run_inter_def listing_events_def client_event_def take_thread_def
      on_connected_def data_2_def Let_def on_data_def list_3_def file_list_reset_def modelNumRows_def)

text \<open>
  The listing \<open>xs\<close> of the directory \<open>d\<close> arrives: in whatever blocks the bytes come, the client \<open>c1\<close>
  (which was \<open>c\<close>) ends with the entries in its table, with nothing left to do and free.
\<close>

definition listing_arrives :: "env \<Rightarrow> app \<Rightarrow> string \<Rightarrow> ls_entry list \<Rightarrow> string \<Rightarrow> string \<Rightarrow> app \<Rightarrow> bool" where
  "listing_arrives e c d xs bytes m c1 \<longleftrightarrow>
     (\<forall>chunks end_read m2. concat chunks = bytes \<and> [] \<notin> set chunks \<and> got_block end_read = None \<longrightarrow>
      (\<exists>n buf c2. read_all_thr True (map Data chunks @ [end_read]) = Some (Inr (Some (n, buf), [])) \<and>
        run_client e (listing_events m n buf m2) c1 = Some c2 \<and>
        mset (files (flist c2)) = mset ((if d \<noteq> ''/'' then [parent_rec] else []) @ map ls_rec xs) \<and>
        modelNumRows (flist c2) = length xs + (if d \<noteq> ''/'' then 2 else 1) \<and> enabled (flist c2) \<and>
        threads c2 = [] \<and> \<not> loading_now c2 \<and> connected c2 = connected c \<and> passive_mode c2 = passive_mode c))"

lemma listing_taken:
  assumes "wants_listing d c" and "qsort_law (env_qsort e)"
    and "list_all ls_good xs" and "word tot" and "length (ls_output tot xs) < 2 ^ 62"
  shows "listing_arrives e c d xs (ls_output tot xs) m (joining I_list_2 h p c)"
proof -
  let ?t = "ls_output tot xs" and ?r = "(if d \<noteq> ''/'' then [parent_rec] else []) @ map ls_rec xs"
  have "\<exists>n buf c2. read_all_thr True (map Data chunks @ [end_read]) = Some (Inr (Some (n, buf), [])) \<and>
      run_client e (listing_events m n buf m2) (joining I_list_2 h p c) = Some c2 \<and>
      mset (files (flist c2)) = mset ?r \<and> modelNumRows (flist c2) = length xs + (if d \<noteq> ''/'' then 2 else 1) \<and>
      enabled (flist c2) \<and> threads c2 = [] \<and> \<not> loading_now c2 \<and> connected c2 = connected c \<and> passive_mode c2 = passive_mode c"
    if h: "concat chunks = ?t \<and> [] \<notin> set chunks \<and> got_block end_read = None" for chunks end_read m2
  proof -
    obtain buf where buf: "read_all_thr True (map Data chunks @ [end_read]) = Some (Inr (Some (of_nat (length ?t), buf), []))"
      "take (Suc (length ?t)) buf = map Some (?t @ [NUL])"
      using gathered [of chunks end_read "[]"] h assms(5) by auto
    have "buf = map Some ?t @ Some NUL # drop (Suc (length ?t)) buf"
      using buf(2) append_take_drop_id [of "Suc (length ?t)" buf] by simp
    then have recs: "listing_recs d buf = Inr ?r" using listing_recs_ls [OF assms(3,4), of d] by metis
    from client_listing [OF assms(1,2) recs, of m "of_nat (length ?t)" m2 h p] buf(1) show ?thesis by auto
  qed
  then show ?thesis unfolding listing_arrives_def by blast
qed

text \<open>
  C11. A directory is shown, as long as the names in it have no white space and at most 63 characters,
  no size is \<open>2 ^ 31\<close> or more, and \<open>ls\<close> prints its lines in the format of \<open>ls -l\<close>
  (\<open>ls_good\<close>; what else the table may show is not said here): once the client has asked for passive
  mode to list the directory, one exchange and the LIST that follows make the server put exactly what \<open>ls\<close> prints on the data
  connection that the client has made to the very address and port the server listens on, and report
  226; and when these bytes arrive, in blocks of any size, the client's table shows exactly the
  entries of the directory, its user interface is free, no thread is left, and the server is again
  between two commands: the next request finds both as this one did.
\<close>

theorem directory_shown:
  assumes "wants_listing (wd (cl s)) c"
    and "env_init e = None" and "qsort_law (env_qsort e)" and "rested s"
    and "listing_law os (sock_ctl (cl s)) (wd (cl s)) (ext s) a fd conn f rest dl mm (ls_output tot xs)"
    and "list_all ls_good xs" and "word tot" and "length (ls_output tot xs) < 2 ^ 62"
  shows "\<exists>c1 s1 m s2 s3 w. exchange os e (c, s) = Some (c1, s1) \<and> answer os ''LIST'' s1 = Some ((150, m), s2) \<and>
    last (lines_sent c1) = ''LIST'' @ CRLF \<and>
    (\<exists>h p. InitY h p \<in> set (acts c1) \<and> inet_addr h = take 4 a \<and> (word_of_int p :: u16) = port_of a) \<and>
    run_thread os (length (ls_output tot xs) div BUF_SIZE + 4) s2 = s3 \<and> dl w = ls_output tot xs \<and>
    ext s3 = os_pclose os f (os_close os conn (os_close os fd w)) \<and>
    out s3 = out s2 @ [(226, ''Transfer complete.'')] \<and> rested s3 \<and> wd (cl s3) = wd (cl s) \<and>
    listing_arrives e c (wd (cl s)) xs (dl w) m c1"
proof -
  let ?t = "ls_output tot xs" and ?d = "wd (cl s)"
  obtain w1 w2 w3 w4 where n: "pasv_listen os (sock_ctl (cl s)) (ext s) = (Some (a, fd), w1)" "length a = 6"
    "os_pthread_create os w1 = (True, w2)" "os_popen os (list_cmd ?d) w2 = (Some f, w3)"
    "os_accept os fd w3 = (AConn conn, w4)" "rest w4 = ?t" "dl w4 = []"
    and law: "file_law os conn f rest dl" "write_progress (os_write os conn) mm" "write_law (os_write os conn) dl"
      "never_fails os conn"
    using assms(5) unfolding listing_law_def by blast
  have wants: "wants_data I_list_2 K_list_3 0 c" using assms(1) by (simp add: wants_listing_def wants_data_def)
  obtain h p s1 where s1: "exchange os e (c, s) = Some (joining I_list_2 h p c, s1)" "entered fd s s1" "ext s1 = w2"
    "inet_addr h = take 4 a" "(word_of_int p :: u16) = port_of a"
    by (rule passive_entered [OF wants assms(2,4) n(1,2,3)])
  have wd: "wd (cl s1) = ?d" using s1(2) by (simp add: entered_def)
  obtain m where ans: "answer os ''LIST'' s1 = Some ((150, m), handed f DATA_SEND_PIPE m (s1\<lparr>ext := w3\<rparr>))"
    by (rule server_LIST [OF s1(2)]) (use n(4) s1(3) wd in simp_all)
  define s2 where "s2 = handed f DATA_SEND_PIPE m (s1\<lparr>ext := w3\<rparr>)"
  have can: "canonical ?d" using assms(4) by (simp add: rested_def at_ease_def)
  have f: "has_file fd f s2" "dat_ty (cl s2) = DATA_SEND_PIPE" "ext s2 = w3" "wd (cl s2) = ?d"
    unfolding s2_def using has_file_handed [OF s1(2) can, of "s1\<lparr>ext := w3\<rparr>"] by simp_all
  obtain w where w: "dl w = rest w4" "delivered os fd conn f w s2 (run_thread os (length (rest w4) div BUF_SIZE + 4) s2)"
    by (rule thread_sends [OF f(1) _ _ n(7) law]) (use f(2,3) n(5) in simp_all)
  have arr: "listing_arrives e c ?d xs (dl w) m (joining I_list_2 h p c)"
    unfolding w(1) n(6) by (rule listing_taken [OF assms(1,3,6-8)])
  have c1: "last (lines_sent (joining I_list_2 h p c)) = ''LIST'' @ CRLF" "InitY h p \<in> set (acts (joining I_list_2 h p c))"
    by (simp_all add: joining_def run_inter_def op_defs lines_sent_def)
  have fin: "ext s3 = os_pclose os f (os_close os conn (os_close os fd w)) \<and> out s3 = out s2 @ [(226, ''Transfer complete.'')] \<and>
      rested s3 \<and> wd (cl s3) = ?d" if "s3 = run_thread os (length ?t div BUF_SIZE + 4) s2" for s3
    using w(2) unfolding n(6) that by (simp add: delivered_def f(2,4) close_file_def)
  show ?thesis
    by (intro exI [of _ "joining I_list_2 h p c"] exI [of _ s1] exI [of _ m] exI [of _ s2]
        exI [of _ "run_thread os (length ?t div BUF_SIZE + 4) s2"] exI [of _ w] conjI s1(1)
        ans [folded s2_def] c1(1) w(1) [unfolded n(6)] refl arr exI [of _ h] exI [of _ p] c1(2) s1(4,5))
       (use fin [OF refl] in simp_all)
qed

section \<open>On the in-memory system\<close>

definition listing_os :: "(world, string) os" where
  "listing_os = demo_os\<lparr>os_popen :=
     (\<lambda>cmd w. (Some cmd, (put cmd (ls_output ''4'' [demo_entry]) w)\<lparr>pos := 0, at_eof := False\<rparr>))\<rparr>"

lemma demo_listing_law:
  "listing_law listing_os 4 ''/'' world0 [127, 0, 0, 1, 7, 208] 5 7 ''ls -lH '' (\<lambda>w. drop (pos w) (content ''ls -lH '' w)) sent (\<lambda>w. 0)
     (ls_output ''4'' [demo_entry])"
proof -
  have "pasv_listen listing_os 4 world0 = (Some ([127, 0, 0, 1, 7, 208], 5), world0)"
    by (simp add: pasv_listen_def ephemeral_def sock_ephemeral_def Let_def listing_os_def demo_os_def)
  moreover have "file_law listing_os 7 ''ls -lH '' (\<lambda>w. drop (pos w) (content ''ls -lH '' w)) sent"
    using demo_file_law_any [of 7 "''ls -lH ''"] by (simp add: file_law_def listing_os_def)
  moreover have "os_write listing_os = os_write demo_os" by (simp add: listing_os_def)
  ultimately show ?thesis
    using demo_write_laws unfolding listing_law_def never_fails_def
    by (simp add: listing_os_def list_cmd_def)
       (simp add: demo_os_def world0_def put_def content_def)
qed

theorem directory_shown_witness:
  "\<exists>c1 s1 m s2 n buf c2.
    exchange listing_os env0 (do_data env0 0 I_list_2 K_list_3 ((app_start list0)\<lparr>cwd := Some ''/''\<rparr>), sess_buf []) = Some (c1, s1) \<and>
    answer listing_os ''LIST'' s1 = Some ((150, m), s2) \<and>
    rested (run_thread listing_os (length (ls_output ''4'' [demo_entry]) div BUF_SIZE + 4) s2) \<and>
    read_all_thr True (map Data [ls_output ''4'' [demo_entry]] @ [Data []]) = Some (Inr (Some (n, buf), [])) \<and>
    run_client env0 (listing_events m n buf []) c1 = Some c2 \<and>
    files (flist c2) = [ls_rec demo_entry] \<and> threads c2 = []"
proof -
  let ?c = "do_data env0 0 I_list_2 K_list_3 ((app_start list0)\<lparr>cwd := Some ''/''\<rparr>)"
  have c: "wants_listing (wd (cl (sess_buf []))) ?c"
    by (simp add: wants_listing_def do_data_def Let_def app_start_def)
  have q: "qsort_law (env_qsort env0)" by (simp add: env0_def insertion_sort_law)
  have r: "rested (sess_buf [])" by (simp add: rested_def at_ease_def)
  have w: "word ''4''" by (simp add: word_def isspace_def less_eq_char_def)
  have l: "length (ls_output ''4'' [demo_entry]) < 2 ^ 62" "ls_output ''4'' [demo_entry] \<noteq> []" unfolding demo_output by simp_all
  have law: "listing_law listing_os (sock_ctl (cl (sess_buf []))) (wd (cl (sess_buf []))) (ext (sess_buf [])) [127, 0, 0, 1, 7, 208] 5 7 ''ls -lH ''
      (\<lambda>w. drop (pos w) (content ''ls -lH '' w)) sent (\<lambda>w. 0) (ls_output ''4'' [demo_entry])"
    using demo_listing_law by simp
  have g: "list_all ls_good [demo_entry]" by (simp add: demo_entry_good)
  obtain c1 s1 m s2 s3 w where x: "exchange listing_os env0 (?c, sess_buf []) = Some (c1, s1)"
    "answer listing_os ''LIST'' s1 = Some ((150, m), s2)"
    "run_thread listing_os (length (ls_output ''4'' [demo_entry]) div BUF_SIZE + 4) s2 = s3" "rested s3"
    "sent (w :: world) = ls_output ''4'' [demo_entry]"
    and a: "listing_arrives env0 ?c (wd (cl (sess_buf []))) [demo_entry] (sent w) m c1"
    using directory_shown [OF c env0_sel(2) q r law g w l(1)] by blast
  have "concat [ls_output ''4'' [demo_entry]] = sent w" "[] \<notin> set [ls_output ''4'' [demo_entry]]" "got_block (Data []) = None"
    using x(5) l(2) by simp_all
  with a obtain n buf c2 where
    "read_all_thr True (map Data [ls_output ''4'' [demo_entry]] @ [Data []]) = Some (Inr (Some (n, buf), []))"
    "run_client env0 (listing_events m n buf []) c1 = Some c2"
    "mset (files (flist c2)) = mset ((if wd (cl (sess_buf [])) \<noteq> ''/'' then [parent_rec] else []) @ map ls_rec [demo_entry])"
    "threads c2 = []"
    unfolding listing_arrives_def by blast
  with x(1-4) show ?thesis by auto
qed

end
