(* ===== verification/Transfers.thy ===== *)
theory Transfers
  imports Passive
begin

text \<open>
  Downloads and uploads from the click in the file list to the file at the other end, over a data
  connection in passive mode: both control threads, the server's data thread, the client's threads
  and callbacks.
\<close>

section \<open>Callbacks of a transfer\<close>











text \<open>The client from the reply to PASV to the last block.\<close>

lemma run_inter_more [simp]:
  "passive_mode (run_inter i s) = passive_mode s" "retr_out_fd (run_inter i s) = retr_out_fd s"
  "stor_in_fd (run_inter i s) = stor_in_fd s"
  by (simp_all add: run_inter_def op_defs split: inter.split)

lemma fd_sel [simp]:
  "retr_out_fd (act a s) = retr_out_fd s" "stor_in_fd (act a s) = stor_in_fd s"
  "retr_out_fd (status u s) = retr_out_fd s" "stor_in_fd (status u s) = stor_in_fd s"
  "retr_out_fd (statusf u s) = retr_out_fd s" "stor_in_fd (statusf u s) = stor_in_fd s"
  "retr_out_fd (start_thread t s) = retr_out_fd s" "stor_in_fd (start_thread t s) = stor_in_fd s"
  by (simp_all add: op_defs)




section \<open>Downloads\<close>









section \<open>Uploads\<close>









section \<open>On the in-memory system\<close>










end
