(* ===== verification/BinCompare.thy ===== *)
theory BinCompare
  imports CScan
begin

text \<open>
  The comparison tool \<^verbatim>\<open>misc/binfc.c\<close>, with which transferred files are checked: it prints the
  places where two stretches of bytes differ. The two files are an argument, by name.
\<close>

definition strtoll :: "string \<Rightarrow> int" where
  "strtoll s = (case scan_number s of None \<Rightarrow> 0 | Some (p, _) \<Rightarrow> long_of_scan p)"

text \<open>A number of the command line, cut to an \<open>int\<close>.\<close>

definition int_arg :: "string \<Rightarrow> int" where
  "int_arg s = sint (word_of_int (strtoll s) :: 32 word)"

text \<open>\<open>fseek\<close> to the start (a negative one fails and changes nothing), and \<open>fgetc\<close> into an
  \<open>unsigned char\<close>: the end of the file is 255.\<close>

definition seek :: "int \<Rightarrow> u8 list \<Rightarrow> u8 list" where
  "seek start f = (if start < 0 then f else drop (nat start) f)"

definition get_byte :: "u8 list \<Rightarrow> u8 \<times> u8 list" where
  "get_byte f = (case f of [] \<Rightarrow> (255, []) | b # bs \<Rightarrow> (b, bs))"

definition pad3 :: "string \<Rightarrow> string" where
  "pad3 s = replicate (3 - length s) (CHR '' '') @ s"

definition byte_line :: "nat \<Rightarrow> u8 \<Rightarrow> u8 \<Rightarrow> string" where
  "byte_line i a b =
     ''Byte '' @ dec i @ '': a = '' @ pad3 (dec (unat a)) @ '', b = '' @ pad3 (dec (unat b)) @ [LF]"

text \<open>The loop, from index \<open>i\<close> with \<open>n\<close> bytes to go.\<close>

fun compare_loop :: "nat \<Rightarrow> nat \<Rightarrow> u8 list \<Rightarrow> u8 list \<Rightarrow> string list" where
  "compare_loop 0 i a b = []"
| "compare_loop (Suc n) i a b =
     (case get_byte a of (x, a') \<Rightarrow>
      case get_byte b of (y, b') \<Rightarrow>
        (if x \<noteq> y then [byte_line i x y] else []) @ compare_loop n (Suc i) a' b')"

definition usage :: "string \<Rightarrow> string" where
  "usage prog = ''usage: '' @ prog @ '' <file-A> <file-A-start>'' @ '' <file-B> <file-B-start> <len>'' @ [LF]"

text \<open>The exit code and the lines printed, for the command line (with the name of the program).\<close>

definition binfc :: "(string \<Rightarrow> u8 list option) \<Rightarrow> string list \<Rightarrow> int \<times> string list" where
  "binfc file argv =
     (if length argv < 6 then (1, [usage (argv ! 0)])
      else
        (case (file (argv ! 1), file (argv ! 3)) of
           (Some a, Some b) \<Rightarrow>
             (0, compare_loop (nat (int_arg (argv ! 5))) 0
                   (seek (int_arg (argv ! 2)) a) (seek (int_arg (argv ! 4)) b) @ [''Compare finished'' @ [LF]])
         | (a, b) \<Rightarrow>
             (1, (if a = None then [''Cannot open '' @ argv ! 1 @ [LF]] else []) @
                 (if b = None then [''Cannot open '' @ argv ! 3 @ [LF]] else []))))"

section \<open>What it finds\<close>

definition byte_at :: "u8 list \<Rightarrow> nat \<Rightarrow> u8" where
  "byte_at f k = (if k < length f then f ! k else 255)"

lemma byte_at_step: "get_byte f = (byte_at f 0, tl f)"
  by (cases f) (simp_all add: get_byte_def byte_at_def)

lemma byte_at_tl: "byte_at (tl f) k = byte_at f (Suc k)"
  by (cases f) (simp_all add: byte_at_def)

text \<open>It prints one line for each place where the stretches differ, in order; behind the end of a
  file there are bytes 255, so that a shorter file may compare as equal.\<close>

lemma compare_loop_lines:
  "compare_loop n i a b =
     map (\<lambda>k. byte_line (i + k) (byte_at a k) (byte_at b k)) (filter (\<lambda>k. byte_at a k \<noteq> byte_at b k) [0..<n])"
proof (induction n arbitrary: i a b)
  case (Suc n)
  have "[0..<Suc n] = 0 # map Suc [0..<n]" by (simp add: upt_conv_Cons map_Suc_upt del: upt_Suc)
  then show ?case
    by (simp add: byte_at_step byte_at_tl Suc.IH filter_map comp_def del: upt_Suc)
qed simp

lemma compare_silent_iff: "compare_loop n i a b = [] \<longleftrightarrow> (\<forall>k < n. byte_at a k = byte_at b k)"
  by (auto simp: compare_loop_lines filter_empty_conv)

end
