(* ===== verification/Spec2Isabelle.thy ===== *)
theory Spec2Isabelle
  imports ServerMain ClientEnds ClientThreads ClientWindow Browsing Transfers BinCompare
begin

text \<open>
  zzFTP is an FTP server (\<^verbatim>\<open>src/server\<close>) and a graphical FTP client (\<^verbatim>\<open>src/client\<close>) in C. This
  development models both, translated from the sources function by function, and proves what makes
  them correct apart and together, and where they are not correct, exactly when they fail. There are
  no axioms; what the operating system and the C library do is an argument of the model with named
  laws, or written out where the programs rely on it.

  \<^bold>\<open>How the programs work.\<close> The server has one thread for each client, which reads command lines and
  calls a handler, and for each data connection a second thread, which shares the session record with
  it. The client has the thread of its user interface; every write, every reply and every transfer is
  a thread of its own, which queues a callback for the user interface. The two talk over the control
  connection (lines and replies) and a data connection (files and listings).

  \<^bold>\<open>The theories and the sources.\<close>

  \<^item> Prelude: results, strings, decimal numbers, \<^verbatim>\<open>snprintf\<close>, and the locale of invariants of
    transition systems. CScan: the \<^verbatim>\<open>sscanf\<close> conversions of both programs. CMemory: heap arrays with
    indeterminate cells; leaving an array is a value of the model (\<^verbatim>\<open>OVERRUN\<close>).

  \<^item> PathUtils: \<^verbatim>\<open>server/path_utils.c\<close>. \<^verbatim>\<open>path_cat\<close> with its buffer and bounds is refined to a walk over
    path components; the result is canonical, and no cell outside the buffer is used.

  \<^item> IoUtils: \<^verbatim>\<open>server/io_utils.c\<close>, which both programs use. \<^verbatim>\<open>rlb_read_line\<close> refines a specification
    on the characters to come, whatever \<^verbatim>\<open>read\<close> makes of them; \<^verbatim>\<open>write_all\<close> and \<^verbatim>\<open>send_mark\<close>.

  \<^item> Platform: the session record of \<^verbatim>\<open>server/client.h\<close> and the system calls as a record of functions
    over an abstract world. DataThread: \<^verbatim>\<open>server/client_xfer_thr.h\<close>, the data thread as a step function
    with a control point. Commands: \<^verbatim>\<open>server/client_cmds.c\<close>, the nineteen handlers. ServerLoop:
    \<^verbatim>\<open>server/client.c\<close>, from the creation of a client to its end. ServerMain: \<^verbatim>\<open>server/main.c\<close>.

  \<^item> SessionInv, ThreadInv: the invariant of a session, kept by every handler and every step of the
    data thread; which commands never return, and that the others are answered once. Replies: what each
    handler sends. Interleave: commands and thread steps in any order (\<open>session_step\<close>), and
    around them the closing of the session (\<open>life_step\<close>), with spurious wake-ups as an option; the
    sessions that get stuck. Confine: whatever a client sends, only paths under the root reach the
    system. DataTransfer: what a transfer of the server delivers, and what a peer that stalls does.
    DemoOs: a small system in memory, for the witnesses.

  \<^item> Xfer: \<^verbatim>\<open>read_mark_thr\<close> of \<^verbatim>\<open>client/xfer.c\<close> with its doubling buffer: it refines the reading of a
    reply, reads back what \<^verbatim>\<open>send_mark\<close> writes, stays in bounds on an open connection, and loops or
    overruns its buffer on a closed one. XferData: the rest of \<^verbatim>\<open>client/xfer.c\<close>: gathering, storing and
    sending data, connecting and listening, with what happens to descriptors.

  \<^item> FileList: \<^verbatim>\<open>client/model_filelist.c\<close> and \<^verbatim>\<open>.h\<close>: the records behind the table, their order, the
    cells and their types, the search for names that are free, and what an edit of a cell asks for.

  \<^item> ClientMain: \<^verbatim>\<open>client/main.c\<close>: the variables as a record, each callback as a function on it, a
    callback as a value, the threads at work and the log of what is done as parts of the state.
    ClientRun: the client as a transition system (clicks, edits, callbacks in any order) with the
    invariant that it holds one conversation at a time. ClientOrder: the order of its commands.
    ClientEnds: how many callbacks a conversation can have, and that each of them ends.
    ClientThreads: what every event does when one of its threads cannot be created (\<open>faulty_step\<close>),
    and the events whose reply or listing is read by \<^verbatim>\<open>xfer.c\<close> first (\<open>wire_event\<close>). ClientWindow: the
    window and the table as values, the start of the program, what the window shows. ListingText: the
    text of \<^verbatim>\<open>ls -l\<close> and the parser of \<^verbatim>\<open>list_3\<close>.

  \<^item> Agreement: what one program writes to the control connection is what the other reads: command
    lines, the working directory, the addresses of data connections. Together: the login dialogue of
    both programs, listings and files from one end to the other. An exchange hands the server the line
    as a whole; \<open>answer_is_round\<close> shows that the server's loop reads that very line, for the
    verbs of the client and arguments that fit (\<open>plain_arg\<close>).

  \<^item> Dialogues: what each request of the file list is meant to do to the files and to the server's
    directory (\<open>wanted\<close>, a specification that knows no commands), and that the exchanges of both programs
    do exactly that. Passive: a data connection in passive mode, from PASV to the end of the server's
    thread. On it, Browsing: a directory from the request to the rows of the table; Transfers: a
    file from the click of the user to the file at the other end, in both directions. At the end of each
    the conditions of the next request hold again.

  \<^item> BinCompare: \<^verbatim>\<open>misc/binfc.c\<close>, which compares stretches of two files.

  \<^bold>\<open>Interfaces.\<close> Locales hold what several proofs share: \<^verbatim>\<open>transition_invariant\<close> (the step relations of
    sessions and of the client), \<^verbatim>\<open>path_resolver\<close> (what handlers need of a resolver of paths, interpreted on
    \<^verbatim>\<open>path_cat\<close>), \<^verbatim>\<open>reply_channel\<close> (any writer and reader of replies, interpreted on
    \<^verbatim>\<open>send_mark\<close> and \<^verbatim>\<open>read_mark_thr\<close>), \<^verbatim>\<open>c_comparison\<close> (an order for \<^verbatim>\<open>qsort\<close>, interpreted on
    \<^verbatim>\<open>file_rec_cmp\<close>) and \<^verbatim>\<open>candidate_names\<close> (a numbered family of names, interpreted on the names of
    uploads and of new folders).

  \<^bold>\<open>Conventions.\<close> Machine integers are words of their width (\<^verbatim>\<open>size_t\<close> has 64 bits, \<^verbatim>\<open>int\<close> is an integer
  where the sources cannot overflow it and a 32-bit word where they can). A function that may not
  return is an option, with \<^verbatim>\<open>None\<close> for a loop, a join or a read that does not end; it is defined by
  structural or well-founded recursion, or as a partial function. Input is a list of what the
  coming \<^verbatim>\<open>read\<close> calls return. The numbers of steps in the statements (blocks of a transfer plus
  four, five exchanges of a login) are the exact ones, so that no fuel is chosen.

  \<^bold>\<open>Waiting.\<close> A block of a transfer in which \<^verbatim>\<open>read\<close> or \<^verbatim>\<open>fread\<close> does not return (\<open>os_hangs\<close>), or in
  which \<^verbatim>\<open>write_all\<close> is told \<^verbatim>\<open>EAGAIN\<close> for ever, puts the data thread at \<open>T_HANGS\<close>, and whoever joins it waits
  for good. The other calls of the server are taken to return: in particular the client reads its
  replies, so that no \<^verbatim>\<open>write\<close> to the control connection blocks, and no file of the served directory
  is a FIFO, which \<^verbatim>\<open>fopen\<close> would wait for. A \<^verbatim>\<open>panic\<close> ends the server: nothing happens in a session
  after a fault. \<^verbatim>\<open>memcmp\<close> stops at the first difference (FileList says what happens if it does not).

  \<^bold>\<open>Bounds.\<close> The client's buffers are shown to suffice for up to \<open>2 ^ 62\<close> bytes from the server, names
  of uploads for fewer than \<open>10 ^ 8 - 1\<close> files, command lines for arguments of at most 1018
  characters, the reply to PWD for working directories of at most 232 characters; beyond that limit
  the failure is proved. The text of a size fits its 16 bytes for sizes below 32 TiB. The count of the lines of a listing is a natural number where the source has
  an \<^verbatim>\<open>int\<close>, so listings of \<open>2 ^ 31\<close> lines and more are outside the model.

  \<^bold>\<open>Not modelled.\<close> The theorems from one end to the other are about passive mode; for active mode there are
  the parts (the address, the thread, the transfer), not their composition. The text that \<^verbatim>\<open>panic\<close>, \<^verbatim>\<open>warn\<close>, \<^verbatim>\<open>info\<close>, \<^verbatim>\<open>puts\<close> and \<^verbatim>\<open>printf\<close> print. What libui does
  with the window: it is a submodule that is not here. Whether the box that \<^verbatim>\<open>main\<close> disables keeps the
  table in it from being used depends on it, and the model lets the table be used. The callbacks that close the window only end
  the program. \<^verbatim>\<open>free\<close>, and with it the lifetimes of
  names. Mutexes: what they protect is one step. The data race of several reply readers of the client
  on one line buffer is modelled as a free choice of the reader that gets the next reply, not as a
  corruption of the buffer. Resources (\<^verbatim>\<open>client/res.c\<close>) are tables of data. The test
  driver in \<^verbatim>\<open>path_utils.c\<close> is not part of the program.
\<close>

end
